(* ===== verification/Mqant_Prelude.thy ===== *)
theory Mqant_Prelude
  imports Main "HOL-Library.Word"
begin

text \<open>
  Shared vocabulary of the development: Go values (bytes, strings, errors, panics), the
  \<^emph>\<open>outcome\<close> of a call, the generic transition-system interface used by the stateful
  components, and the list, map and word lemmas that more than one component needs.

  A Go \<open>string\<close> is a byte sequence; it is modelled by Isabelle's \<open>string\<close> (a character is a
  byte), and the conversions \<open>[]byte(s)\<close> and \<open>string(b)\<close> of the source are
  \<open>bytes_of_str\<close> and \<open>str_of_bytes\<close>.
\<close>

unbundle bit_operations_syntax

section \<open>Collections of rules\<close>

named_theorems inv_rules \<open>preservation of component invariants\<close>
named_theorems stream_simps \<open>what a write appends to the byte stream\<close>
named_theorems read_simps \<open>what a read takes off the byte stream\<close>

section \<open>Go values\<close>

type_synonym byte = "8 word"
type_synonym bytes = "byte list"

text \<open>A \<open>map[string]string\<close>; where it may be nil it is a \<open>smap option\<close>.\<close>

type_synonym smap = "string \<rightharpoonup> string"

definition bytes_of_str :: "string \<Rightarrow> bytes" where
  "bytes_of_str s = map of_char s"

definition str_of_bytes :: "bytes \<Rightarrow> string" where
  "str_of_bytes b = map (\<lambda>x. char_of (unat x)) b"

text \<open>Arguments of \<open>fmt.Errorf\<close>; an error value keeps its format and its arguments.\<close>

datatype garg = AI int | AS string

datatype go_error =
    EOF
  | ErrUnexpectedEOF
  | ErrShortWrite
  | ErrConn string
  | Errorf string "garg list"

text \<open>The text of an error (\<open>err.Error()\<close>); of a formatted one, the format stands for the text.\<close>

definition error_text :: "go_error \<Rightarrow> string" where
  "error_text e = (case e of Errorf f _ \<Rightarrow> f | EOF \<Rightarrow> ''EOF'' | ErrUnexpectedEOF \<Rightarrow> ''unexpected EOF''
     | ErrShortWrite \<Rightarrow> ''short write'' | ErrConn s \<Rightarrow> ''connection '' @ s)"

text \<open>
  The outcome of a call: it returns, it panics (the panic value is kept as a text), or it never
  returns.
\<close>

datatype 'a outcome = Ret 'a | Panic string | Hang

definition outcome_bind :: "'a outcome \<Rightarrow> ('a \<Rightarrow> 'b outcome) \<Rightarrow> 'b outcome" where
  "outcome_bind m f = (case m of Ret a \<Rightarrow> f a | Panic s \<Rightarrow> Panic s | Hang \<Rightarrow> Hang)"

lemma outcome_bind_simps [simp]:
  "outcome_bind (Ret a) f = f a"
  "outcome_bind (Panic s) f = Panic s"
  "outcome_bind Hang f = Hang"
  by (simp_all add: outcome_bind_def)

lemma outcome_bind_Ret_iff:
  "outcome_bind m f = Ret b \<longleftrightarrow> (\<exists>a. m = Ret a \<and> f a = Ret b)"
  by (cases m) auto

lemma length_bytes_of_str [simp]: "length (bytes_of_str s) = length s"
  by (simp add: bytes_of_str_def)

lemma bytes_of_str_Nil [simp]: "bytes_of_str [] = []"
  by (simp add: bytes_of_str_def)

lemma length_str_of_bytes [simp]: "length (str_of_bytes b) = length b"
  by (simp add: str_of_bytes_def)

lemma of_char_byte: "(of_char c :: byte) = of_nat (of_char c)"
  by (simp add: of_nat_of_char)

lemma unat_of_char_byte [simp]: "unat (of_char c :: byte) = of_char c"
  using of_char_mod_256 [where ?'a = nat, of c]
  by (simp add: of_char_byte unat_of_nat)

lemma of_char_char_of_byte [simp]: "(of_char (char_of (unat b)) :: byte) = b" for b :: byte
  using unsigned_less [of b, where ?'a = nat] by (simp add: of_char_byte)

lemma str_of_bytes_of_str [simp]: "str_of_bytes (bytes_of_str s) = s"
  by (induction s) (simp_all add: bytes_of_str_def str_of_bytes_def)

lemma bytes_of_str_of_bytes [simp]: "bytes_of_str (str_of_bytes b) = b"
  by (induction b) (simp_all add: bytes_of_str_def str_of_bytes_def)

text \<open>\<open>strings.Split(s, sep)\<close> for a separator of one character, and \<open>strings.Join\<close>.\<close>

fun split_on :: "char \<Rightarrow> string \<Rightarrow> string list" where
  "split_on c [] = [[]]"
| "split_on c (x # xs) =
     (if x = c then [] # split_on c xs
      else (case split_on c xs of [] \<Rightarrow> [[x]] | y # ys \<Rightarrow> (x # y) # ys))"

fun join_with :: "char \<Rightarrow> string list \<Rightarrow> string" where
  "join_with c [] = []"
| "join_with c [x] = x"
| "join_with c (x # y # ys) = x @ c # join_with c (y # ys)"

lemma split_on_nonempty [simp]: "split_on c s \<noteq> []"
  by (induction s) (auto split: list.splits)

lemma join_split [simp]: "join_with c (split_on c s) = s"
proof (induction s)
  case (Cons x s)
  then show ?case by (cases "split_on c s"; cases "tl (split_on c s)") auto
qed simp

lemma split_on_parts: "p \<in> set (split_on c s) \<Longrightarrow> c \<notin> set p"
  by (induction s arbitrary: p) (auto split: list.splits if_splits)

lemma split_on_clean: "c \<notin> set s \<Longrightarrow> split_on c s = [s]"
  by (induction s) auto

lemma split_on_append: "c \<notin> set p \<Longrightarrow> split_on c (p @ c # s) = p # split_on c s"
  by (induction p) auto

section \<open>Transition systems\<close>

text \<open>
  The stateful components are transition systems: a set of initial states and a step relation.
  \<open>reach\<close> is the set of reachable states; the locale states what an invariant owes, and gives
  what it earns.
\<close>

inductive reach :: "('s \<Rightarrow> bool) \<Rightarrow> ('s \<Rightarrow> 's \<Rightarrow> bool) \<Rightarrow> 's \<Rightarrow> bool"
  for init :: "'s \<Rightarrow> bool" and step :: "'s \<Rightarrow> 's \<Rightarrow> bool" where
  reach_init: "init s \<Longrightarrow> reach init step s"
| reach_step: "reach init step s \<Longrightarrow> step s t \<Longrightarrow> reach init step t"

locale invariant_system =
  fixes init :: "'s \<Rightarrow> bool"
    and step :: "'s \<Rightarrow> 's \<Rightarrow> bool"
    and inv :: "'s \<Rightarrow> bool"
  assumes inv_init: "init s \<Longrightarrow> inv s"
    and inv_step: "inv s \<Longrightarrow> step s t \<Longrightarrow> inv t"
begin

lemma inv_reach: "reach init step s \<Longrightarrow> inv s"
  by (induction rule: reach.induct) (auto intro: inv_init inv_step)

lemma inv_rtrancl: "step\<^sup>*\<^sup>* s t \<Longrightarrow> inv s \<Longrightarrow> inv t"
  by (induction rule: rtranclp_induct) (auto intro: inv_step)

end

section \<open>Lists, maps and bit masks\<close>

lemma and_pow2_minus_1: "(x::nat) AND (2 ^ k - 1) = x mod 2 ^ k"
  by (metis mask_eq_exp_minus_1 take_bit_eq_mask take_bit_eq_mod)

lemma and_pow2_mod:
  assumes "\<exists>k. n = (2::nat) ^ k"
  shows "x AND (n - 1) = x mod n"
  using assms and_pow2_minus_1 by blast

lemma map_upt_add: "map (\<lambda>i. f (i + n)) [0..<m] = map f [n..<n + m]"
  by (rule nth_equalityI) (simp_all add: add.commute)

lemma map_nth_take_drop:
  "i + n \<le> length xs \<Longrightarrow> map (\<lambda>j. xs ! (i + j)) [0..<n] = take n (drop i xs)"
  by (rule nth_equalityI) simp_all

lemma fold_map_upd_apply:
  "fold (\<lambda>(k, v) m. m(k \<mapsto> v)) kvs m = m ++ map_of (rev kvs)"
  by (induction kvs arbitrary: m) (auto simp: fun_eq_iff map_add_def split: option.splits)

end
