(* ===== verification/Ring_Queue.thy ===== *)
theory Ring_Queue
  imports Mqant_Prelude
begin

text \<open>
  The ring-buffer queue of \<^verbatim>\<open>src/utils/queue.go\<close>. An element is an \<open>interface{}\<close>, so a
  buffer cell is an \<open>'a option\<close> with \<open>None\<close> for \<open>nil\<close>. The indices \<open>head\<close>, \<open>tail\<close> and
  \<open>count\<close> are never negative and are modelled by \<open>nat\<close>; the bitwise modulus of the source is
  kept as \<open>AND\<close>. The queue refines a list: \<open>queue_list\<close> is the abstraction, \<open>queue_inv\<close> the
  representation invariant (the capacity is a power of two of at least \<open>minQueueLen\<close>).
\<close>

section \<open>The interface of a queue\<close>

text \<open>
  A session is a list of operations, \<open>Some x\<close> for adding \<open>x\<close> and \<open>None\<close> for removing; it yields
  the removed elements, or the panic of the first removal from an empty queue. \<open>list_session\<close> is
  the same session on a plain list, the specification.
\<close>

fun queue_session :: "('q \<Rightarrow> 'a \<Rightarrow> 'q) \<Rightarrow> ('q \<Rightarrow> ('a \<times> 'q) outcome) \<Rightarrow> 'q \<Rightarrow> 'a option list
    \<Rightarrow> 'a list outcome" where
  "queue_session add remove q [] = Ret []"
| "queue_session add remove q (Some x # ops) = queue_session add remove (add q x) ops"
| "queue_session add remove q (None # ops) =
     outcome_bind (remove q) (\<lambda>(x, q').
       outcome_bind (queue_session add remove q' ops) (\<lambda>xs. Ret (x # xs)))"

fun list_session :: "string \<Rightarrow> 'a list \<Rightarrow> 'a option list \<Rightarrow> 'a list outcome" where
  "list_session msg l [] = Ret []"
| "list_session msg l (Some x # ops) = list_session msg (l @ [x]) ops"
| "list_session msg [] (None # ops) = Panic msg"
| "list_session msg (y # l) (None # ops) =
     outcome_bind (list_session msg l ops) (\<lambda>xs. Ret (y # xs))"

locale fifo_queue =
  fixes empty :: "'q"
    and add :: "'q \<Rightarrow> 'a \<Rightarrow> 'q"
    and remove :: "'q \<Rightarrow> ('a \<times> 'q) outcome"
    and contents :: "'q \<Rightarrow> 'a list"
    and invar :: "'q \<Rightarrow> bool"
    and empty_msg :: string
  assumes invar_empty: "invar empty"
    and contents_empty: "contents empty = []"
    and invar_add: "invar q \<Longrightarrow> invar (add q x)"
    and contents_add: "invar q \<Longrightarrow> contents (add q x) = contents q @ [x]"
    and remove_Nil: "invar q \<Longrightarrow> contents q = [] \<Longrightarrow> remove q = Panic empty_msg"
    and remove_Cons: "invar q \<Longrightarrow> contents q = x # xs \<Longrightarrow>
      \<exists>q'. remove q = Ret (x, q') \<and> invar q' \<and> contents q' = xs"
begin

lemma session_refines:
  "invar q \<Longrightarrow> queue_session add remove q ops = list_session empty_msg (contents q) ops"
proof (induction ops arbitrary: q)
  case (Cons op ops)
  show ?case
  proof (cases op)
    case (Some x)
    with Cons show ?thesis by (simp add: invar_add contents_add)
  next
    case None
    show ?thesis
    proof (cases "contents q")
      case Nil
      with None Cons.prems show ?thesis by (simp add: remove_Nil)
    next
      case (Cons y l)
      with remove_Cons[OF Cons.prems] obtain q' where
        "remove q = Ret (y, q')" "invar q'" "contents q' = l" by blast
      with None Cons Cons.IH show ?thesis by simp
    qed
  qed
qed simp

lemma session_from_empty:
  "queue_session add remove empty ops = list_session empty_msg [] ops"
  using session_refines[OF invar_empty] by (simp add: contents_empty)

end

section \<open>The ring buffer\<close>

definition minQueueLen :: nat where
  "minQueueLen = 16"

record 'a ring =
  buf :: "'a option list"
  head :: nat
  tail :: nat
  count :: nat

definition NewQueue :: "'a ring" where
  "NewQueue = \<lparr>buf = replicate minQueueLen None, head = 0, tail = 0, count = 0\<rparr>"

definition Length :: "'a ring \<Rightarrow> nat" where
  "Length q = count q"

text \<open>
  Go's \<open>copy(dst, src)\<close>: copies the shorter of the two lengths and returns how many elements it
  copied. \<open>copy_at i dst src\<close> is \<open>copy(dst[i:], src)\<close>.
\<close>

definition copy_at :: "nat \<Rightarrow> 'b list \<Rightarrow> 'b list \<Rightarrow> 'b list \<times> nat" where
  "copy_at i dst src =
     (let n = min (length dst - i) (length src)
      in (take i dst @ take n src @ drop (i + n) dst, n))"

definition resize :: "'a ring \<Rightarrow> 'a ring" where
  "resize q =
     (let newBuf = replicate (push_bit 1 (count q)) None;
          newBuf' =
            (if tail q > head q
             then fst (copy_at 0 newBuf (take (tail q - head q) (drop (head q) (buf q))))
             else (let (b, n) = copy_at 0 newBuf (drop (head q) (buf q))
                   in fst (copy_at n b (take (tail q) (buf q)))))
      in q\<lparr>head := 0, tail := count q, buf := newBuf'\<rparr>)"

definition Add :: "'a ring \<Rightarrow> 'a option \<Rightarrow> 'a ring" where
  "Add q elem =
     (let q = (if count q = length (buf q) then resize q else q);
          q = q\<lparr>buf := (buf q)[tail q := elem]\<rparr>;
          q = q\<lparr>tail := (tail q + 1) AND (length (buf q) - 1)\<rparr>
      in q\<lparr>count := count q + 1\<rparr>)"

definition Peek :: "'a ring \<Rightarrow> 'a option outcome" where
  "Peek q =
     (if count q \<le> 0 then Panic ''queue: Peek() called on empty queue''
      else Ret (buf q ! head q))"

definition Get :: "'a ring \<Rightarrow> int \<Rightarrow> 'a option outcome" where
  "Get q i =
     (let i = (if i < 0 then i + int (count q) else i)
      in if i < 0 \<or> i \<ge> int (count q)
         then Panic ''queue: Get() called with index out of range''
         else Ret (buf q ! ((head q + nat i) AND (length (buf q) - 1))))"

definition Remove :: "'a ring \<Rightarrow> ('a option \<times> 'a ring) outcome" where
  "Remove q =
     (if count q \<le> 0 then Panic ''queue: Remove() called on empty queue''
      else
        (let ret = buf q ! head q;
             q = q\<lparr>buf := (buf q)[head q := None]\<rparr>;
             q = q\<lparr>head := (head q + 1) AND (length (buf q) - 1)\<rparr>;
             q = q\<lparr>count := count q - 1\<rparr>;
             q = (if length (buf q) > minQueueLen \<and> push_bit 2 (count q) = length (buf q)
                  then resize q else q)
         in Ret (ret, q)))"

section \<open>Abstraction and invariant\<close>

definition queue_list :: "'a ring \<Rightarrow> 'a option list" where
  "queue_list q = map (\<lambda>i. buf q ! ((head q + i) mod length (buf q))) [0..<count q]"

definition queue_inv :: "'a ring \<Rightarrow> bool" where
  "queue_inv q \<longleftrightarrow>
     (\<exists>k. length (buf q) = 2 ^ k) \<and> minQueueLen \<le> length (buf q) \<and>
     head q < length (buf q) \<and> count q \<le> length (buf q) \<and>
     tail q = (head q + count q) mod length (buf q)"

section \<open>Refinement to a list\<close>

lemma copy_at_append:
  "i \<le> length dst \<Longrightarrow> length src \<le> length dst - i \<Longrightarrow>
   copy_at i dst src = (take i dst @ src @ drop (i + length src) dst, length src)"
  by (simp add: copy_at_def min_absorb2 Let_def)

text \<open>The occupied part of the buffer, read from \<open>head\<close>, with and without wrap-around.\<close>

lemma queue_list_straight:
  assumes "head q + count q \<le> length (buf q)"
  shows "queue_list q = take (count q) (drop (head q) (buf q))"
proof (rule nth_equalityI)
  fix i assume "i < length (queue_list q)"
  then have "i < count q" by (simp add: queue_list_def)
  with assms show "queue_list q ! i = take (count q) (drop (head q) (buf q)) ! i"
    by (simp add: queue_list_def)
qed (use assms in \<open>simp add: queue_list_def\<close>)

lemma queue_list_wrapped:
  assumes "head q < length (buf q)" "length (buf q) \<le> head q + count q"
    "count q \<le> length (buf q)"
  shows "queue_list q =
    drop (head q) (buf q) @ take (head q + count q - length (buf q)) (buf q)"
proof (rule nth_equalityI)
  fix i assume "i < length (queue_list q)"
  then have "i < count q" by (simp add: queue_list_def)
  with assms show "queue_list q ! i =
      (drop (head q) (buf q) @ take (head q + count q - length (buf q)) (buf q)) ! i"
    by (auto simp: queue_list_def nth_append mod_if intro!: arg_cong[where f = "(!) (buf q)"])
qed (use assms in \<open>simp add: queue_list_def\<close>)

text \<open>
  The two states in which the code resizes: the buffer is full (\<open>Add\<close>), or it is a quarter full
  (\<open>Remove\<close>). All \<open>resize\<close> needs is that the queue is not empty.
\<close>

lemma tail_cases:
  assumes "queue_inv q"
  shows "(tail q = head q + count q \<and> head q + count q < length (buf q)) \<or>
         (tail q = head q + count q - length (buf q) \<and> length (buf q) \<le> head q + count q)"
proof -
  let ?n = "length (buf q)" and ?s = "head q + count q"
  have h: "head q < ?n" "count q \<le> ?n" "tail q = ?s mod ?n"
    using assms by (auto simp: queue_inv_def)
  show ?thesis
  proof (cases "?s < ?n")
    case True
    with h show ?thesis by simp
  next
    case False
    with h have "?s mod ?n = ?s - ?n" by (simp add: le_mod_geq)
    with h False show ?thesis by simp
  qed
qed

lemma resize_eq:
  assumes inv: "queue_inv q" and ne: "0 < count q"
  shows "resize q = q\<lparr>buf := queue_list q @ replicate (count q) None,
                     head := 0, tail := count q\<rparr>"
proof -
  have len: "length (queue_list q) = count q" by (simp add: queue_list_def)
  have h: "head q < length (buf q)" "count q \<le> length (buf q)"
    using inv by (auto simp: queue_inv_def)
  from tail_cases[OF inv] show ?thesis
  proof
    assume t: "tail q = head q + count q \<and> head q + count q < length (buf q)"
    then have "queue_list q = take (tail q - head q) (drop (head q) (buf q))"
      by (simp add: queue_list_straight)
    moreover have "min (length (buf q) - head q) (count q) = count q" using t by linarith
    ultimately show ?thesis using t ne h
      by (simp add: resize_def Let_def copy_at_append)
  next
    assume t: "tail q = head q + count q - length (buf q) \<and> length (buf q) \<le> head q + count q"
    then have "queue_list q = drop (head q) (buf q) @ take (tail q) (buf q)"
      using h by (simp add: queue_list_wrapped)
    moreover have "\<not> head q < tail q" using t h by linarith
    moreover have "length (buf q) - head q \<le> count q * 2"
      and "length (take (tail q) (buf q)) = tail q"
      and "count q * 2 - (length (buf q) - head q) - tail q = count q"
      and "tail q \<le> count q * 2 - (length (buf q) - head q)"
      using t h ne by auto
    ultimately show ?thesis
      by (simp add: resize_def Let_def copy_at_append)
  qed
qed

lemma queue_list_resize:
  assumes "queue_inv q" "0 < count q"
  shows "queue_list (resize q) = queue_list q"
proof -
  have "length (queue_list q) = count q" by (simp add: queue_list_def)
  then show ?thesis
    unfolding resize_eq[OF assms] by (subst queue_list_straight) simp_all
qed

lemma queue_inv_resize:
  assumes "queue_inv q" "0 < count q" "\<exists>k. 2 * count q = 2 ^ k" "minQueueLen \<le> 2 * count q"
  shows "queue_inv (resize q)"
  using assms by (auto simp: resize_eq queue_inv_def queue_list_def simp flip: mult_2)

lemma tail_next:
  assumes "queue_inv q" "count q < length (buf q)"
  shows "(tail q + 1) AND (length (buf q) - 1) = (head q + Suc (count q)) mod length (buf q)"
proof -
  have "(tail q + 1) AND (length (buf q) - 1) = (tail q + 1) mod length (buf q)"
    using assms by (intro and_pow2_mod) (simp add: queue_inv_def)
  also have "\<dots> = (head q + count q + 1) mod length (buf q)"
    using assms by (simp only: queue_inv_def mod_add_left_eq)
  finally show ?thesis by simp
qed

lemma Add_no_resize:
  assumes inv: "queue_inv q" and room: "count q < length (buf q)"
  shows "queue_inv (Add q x)" and "queue_list (Add q x) = queue_list q @ [x]"
proof -
  have eq: "Add q x = q\<lparr>buf := (buf q)[tail q := x],
      tail := (head q + Suc (count q)) mod length (buf q), count := Suc (count q)\<rparr>"
    using room tail_next[OF inv room] by (simp add: Add_def Let_def)
  show "queue_inv (Add q x)"
    using inv room by (simp add: eq queue_inv_def)
  have tl: "tail q = (head q + count q) mod length (buf q)" and pos: "0 < length (buf q)"
    using inv room by (auto simp: queue_inv_def)
  have other: "(head q + i) mod length (buf q) \<noteq> tail q" if "i < count q" for i
  proof
    assume "(head q + i) mod length (buf q) = tail q"
    then have "(head q + i) mod length (buf q) = (head q + count q) mod length (buf q)"
      by (simp add: tl)
    then have "length (buf q) dvd (head q + count q) - (head q + i)"
      using that by (metis add_le_cancel_left less_imp_le mod_eq_dvd_iff_nat)
    then have "length (buf q) dvd count q - i" by simp
    moreover have "0 < count q - i" "count q - i < length (buf q)" using that room by auto
    ultimately show False by (meson nat_dvd_not_less)
  qed
  have "tail q < length (buf q)" using tl pos by simp
  then have "map (\<lambda>i. (buf q)[tail q := x] ! ((head q + i) mod length (buf q))) [0..<count q]
      = queue_list q"
    using other[THEN not_sym] by (simp add: queue_list_def)
  with \<open>tail q < length (buf q)\<close> show "queue_list (Add q x) = queue_list q @ [x]"
    by (simp add: eq queue_list_def flip: tl)
qed

lemma Add_resize:
  assumes "count q = length (buf q)" "count (resize q) < length (buf (resize q))"
  shows "Add q x = Add (resize q) x"
  using assms by (simp add: Add_def)

lemma resize_full:
  assumes "queue_inv q" "count q = length (buf q)"
  shows "queue_inv (resize q)" "count (resize q) < length (buf (resize q))"
    "queue_list (resize q) = queue_list q"
proof -
  have pos: "0 < count q" using assms by (auto simp: queue_inv_def minQueueLen_def)
  have "\<exists>k. 2 * count q = 2 ^ k"
    using assms by (metis power_Suc queue_inv_def)
  moreover have "minQueueLen \<le> 2 * count q"
    using assms by (simp add: queue_inv_def)
  ultimately show "queue_inv (resize q)"
    using queue_inv_resize[OF assms(1) pos] by blast
  show "count (resize q) < length (buf (resize q))"
    using pos by (simp add: resize_eq[OF assms(1) pos] queue_list_def)
  show "queue_list (resize q) = queue_list q"
    by (rule queue_list_resize[OF assms(1) pos])
qed

lemma Add_correct:
  assumes "queue_inv q"
  shows "queue_inv (Add q x)" "queue_list (Add q x) = queue_list q @ [x]"
proof -
  have "queue_inv (Add q x) \<and> queue_list (Add q x) = queue_list q @ [x]"
  proof (cases "count q = length (buf q)")
    case True
    note r = resize_full[OF assms True]
    show ?thesis
      unfolding Add_resize[OF True r(2)] using Add_no_resize[OF r(1,2)] r(3) by simp
  next
    case False
    with assms have "count q < length (buf q)" by (simp add: queue_inv_def)
    with assms show ?thesis using Add_no_resize by blast
  qed
  then show "queue_inv (Add q x)" "queue_list (Add q x) = queue_list q @ [x]" by auto
qed

text \<open>\<open>Remove\<close> before its shrink test.\<close>

definition drop_head :: "'a ring \<Rightarrow> 'a ring" where
  "drop_head q = q\<lparr>buf := (buf q)[head q := None],
     head := (head q + 1) mod length (buf q), count := count q - 1\<rparr>"

lemma Remove_eq:
  assumes "queue_inv q" "0 < count q"
  shows "Remove q = Ret (buf q ! head q,
    (if length (buf q) > minQueueLen \<and> 4 * (count q - 1) = length (buf q)
     then resize (drop_head q) else drop_head q))"
proof -
  have "(head q + 1) AND (length (buf q) - 1) = (head q + 1) mod length (buf q)"
    using assms by (intro and_pow2_mod) (simp add: queue_inv_def)
  then show ?thesis
    using assms by (simp add: Remove_def Let_def drop_head_def push_bit_eq_mult mult.commute)
qed

lemma queue_list_Cons:
  "0 < count q \<Longrightarrow> head q < length (buf q) \<Longrightarrow>
   queue_list q = buf q ! head q #
     map (\<lambda>i. buf q ! ((head q + Suc i) mod length (buf q))) [0..<count q - 1]"
  by (cases "count q") (simp_all add: queue_list_def upt_conv_Cons map_Suc_upt [symmetric] del: upt_Suc)

lemma drop_head_correct:
  assumes inv: "queue_inv q" and ne: "0 < count q"
  shows "queue_inv (drop_head q)" "queue_list q = buf q ! head q # queue_list (drop_head q)"
proof -
  let ?n = "length (buf q)"
  have h: "head q < ?n" "count q \<le> ?n" using inv by (auto simp: queue_inv_def)
  have "((head q + 1) mod ?n + (count q - 1)) mod ?n = (head q + count q) mod ?n"
    using ne by (subst mod_add_left_eq) simp
  then show "queue_inv (drop_head q)"
    using inv ne by (auto simp: queue_inv_def drop_head_def)
  have ne_head: "(head q + Suc i) mod ?n \<noteq> head q" if "i < count q - 1" for i
  proof (cases "head q + Suc i < ?n")
    case False
    with that h have "(head q + Suc i) mod ?n = head q + Suc i - ?n"
      by (subst le_mod_geq) (auto intro!: mod_less)
    with that h False show ?thesis by linarith
  qed auto
  have "queue_list (drop_head q) =
      map (\<lambda>i. buf q ! ((head q + Suc i) mod ?n)) [0..<count q - 1]"
    using ne_head by (auto simp: queue_list_def drop_head_def mod_Suc_eq mod_add_left_eq
        nth_list_update_neq[OF not_sym])
  with queue_list_Cons[OF ne h(1)]
  show "queue_list q = buf q ! head q # queue_list (drop_head q)" by simp
qed

lemma shrink_correct:
  assumes inv: "queue_inv q" and big: "minQueueLen < length (buf q)"
    and quarter: "4 * count q = length (buf q)"
  shows "queue_inv (resize q)" "queue_list (resize q) = queue_list q"
proof -
  obtain k where k: "length (buf q) = 2 ^ k" using inv by (auto simp: queue_inv_def)
  have pos: "0 < count q" using big quarter by (auto simp: minQueueLen_def)
  have k5: "5 \<le> k"
  proof (rule ccontr)
    assume "\<not> 5 \<le> k"
    then have "(2::nat) ^ k \<le> 2 ^ 4" by (intro power_increasing) auto
    with big k show False by (simp add: minQueueLen_def)
  qed
  then have "2 * count q = 2 ^ (k - 1)"
    using quarter k by (cases k) auto
  moreover have "(2::nat) ^ 4 \<le> 2 ^ (k - 1)"
    using k5 by (intro power_increasing) auto
  ultimately show "queue_inv (resize q)"
    using queue_inv_resize[OF inv pos] by (auto simp: minQueueLen_def)
  show "queue_list (resize q) = queue_list q"
    by (rule queue_list_resize[OF inv pos])
qed

lemma Remove_correct:
  assumes inv: "queue_inv q" and l: "queue_list q = x # xs"
  shows "\<exists>q'. Remove q = Ret (x, q') \<and> queue_inv q' \<and> queue_list q' = xs"
proof -
  have ne: "0 < count q" using l by (cases "count q") (auto simp: queue_list_def)
  note d = drop_head_correct[OF inv ne]
  have x: "x = buf q ! head q" and xs: "queue_list (drop_head q) = xs"
    using d(2) l by auto
  show ?thesis
  proof (cases "length (buf q) > minQueueLen \<and> 4 * (count q - 1) = length (buf q)")
    case True
    then have "minQueueLen < length (buf (drop_head q))"
      "4 * count (drop_head q) = length (buf (drop_head q))"
      by (auto simp: drop_head_def)
    from shrink_correct[OF d(1) this] True show ?thesis
      using xs x by (simp add: Remove_eq[OF inv ne])
  next
    case False
    then show ?thesis using d(1) xs x by (auto simp: Remove_eq[OF inv ne])
  qed
qed

interpretation rq: fifo_queue NewQueue Add Remove queue_list queue_inv
  "''queue: Remove() called on empty queue''"
proof unfold_locales
  show "queue_inv NewQueue"
    by (auto simp: NewQueue_def queue_inv_def minQueueLen_def intro: exI[of _ 4])
  show "queue_list NewQueue = []" by (simp add: NewQueue_def queue_list_def)
  fix q :: "'a ring" and x xs
  show "queue_inv q \<Longrightarrow> queue_inv (Add q x)" by (rule Add_correct)
  show "queue_inv q \<Longrightarrow> queue_list (Add q x) = queue_list q @ [x]" by (rule Add_correct)
  show "queue_list q = [] \<Longrightarrow> Remove q = Panic ''queue: Remove() called on empty queue''"
    by (auto simp: queue_list_def Remove_def)
  show "queue_inv q \<Longrightarrow> queue_list q = x # xs \<Longrightarrow>
    \<exists>q'. Remove q = Ret (x, q') \<and> queue_inv q' \<and> queue_list q' = xs"
    by (rule Remove_correct)
qed

lemma Get_list:
  assumes inv: "queue_inv q" and i: "0 \<le> i" "i < int (count q)"
  shows "Get q i = Ret (queue_list q ! nat i)"
proof -
  have "(head q + nat i) AND (length (buf q) - 1) = (head q + nat i) mod length (buf q)"
    using inv by (intro and_pow2_mod) (simp add: queue_inv_def)
  then show ?thesis using i by (simp add: Get_def Let_def queue_list_def nat_less_iff)
qed

lemma Get_negative: "i < 0 \<Longrightarrow> 0 \<le> i + int (count q) \<Longrightarrow> Get q i = Get q (i + int (count q))"
  by (simp add: Get_def)

section \<open>Properties\<close>

text \<open>C26: The ring buffer is a first-in first-out queue: every sequence of \<open>Add\<close> and \<open>Remove\<close>
  calls on a new queue, however the buffer wraps, grows or shrinks meanwhile, yields exactly what
  the same sequence yields on a plain list, the panic on removing from an empty queue included.\<close>

theorem ring_queue_is_fifo:
  "queue_session Add Remove NewQueue ops =
     list_session ''queue: Remove() called on empty queue'' [] ops"
  by (rule rq.session_from_empty)

text \<open>\<open>Get\<close> reads any position of the queue from either end, for every queue that a sequence
  of \<open>Add\<close> calls can build and whatever was removed before: index \<open>i\<close> counts from the oldest
  element, a negative index from the newest.\<close>

theorem ring_queue_get:
  assumes "queue_inv q" "- int (Length q) \<le> i" "i < int (Length q)"
  shows "Get q i = Ret (queue_list q ! nat (if i < 0 then i + int (Length q) else i))"
  using assms Get_list[of q i] Get_list[of q "i + int (count q)"] Get_negative[of i q]
  by (simp add: Length_def)

theorem ring_queue_get_witness:
  "Get (Add (Add NewQueue (Some (7::nat))) (Some 8)) (-1) =
     Ret (queue_list (Add (Add NewQueue (Some (7::nat))) (Some 8)) ! nat (if (-1::int) < 0 then
       -1 + int (Length (Add (Add NewQueue (Some (7::nat))) (Some 8))) else -1))"
proof (rule ring_queue_get)
  show "queue_inv (Add (Add NewQueue (Some (7::nat))) (Some 8))"
    by (intro rq.invar_add rq.invar_empty)
qed (simp_all add: Length_def Add_def NewQueue_def minQueueLen_def)

end
