(* ===== verification/Go_Strings.thy ===== *)
theory Go_Strings
  imports Mqant_Prelude "HOL-Library.Char_ord"
begin

text \<open>
  What the source uses of \<^verbatim>\<open>strconv\<close>, \<^verbatim>\<open>encoding/hex\<close> and \<^verbatim>\<open>net\<close>: decimal integers of 64 bits and
  hexadecimal strings, with the lemmas that reading gives back what was written, and addresses with a port.
\<close>

section \<open>Decimal integers\<close>

text \<open>\<open>strconv.ParseInt(s, 10, 64)\<close>: an optional sign and decimal digits, within 64 bits.\<close>

fun digits_value :: "int \<Rightarrow> string \<Rightarrow> int option" where
  "digits_value acc [] = Some acc"
| "digits_value acc (c # cs) =
     (if CHR ''0'' \<le> c \<and> c \<le> CHR ''9''
      then digits_value (10 * acc + (of_char c - of_char CHR ''0'')) cs else None)"

definition ParseInt64 :: "string \<Rightarrow> int option" where
  "ParseInt64 s =
     (let (neg, ds) = (case s of
            [] \<Rightarrow> (False, [])
          | c # cs \<Rightarrow> if c = CHR ''-'' then (True, cs) else if c = CHR ''+'' then (False, cs) else (False, s))
      in if ds = [] then None
         else case digits_value 0 ds of
           None \<Rightarrow> None
         | Some n \<Rightarrow>
             if \<not> neg \<and> n < 2 ^ 63 then Some n
             else if neg \<and> n \<le> 2 ^ 63 then Some (- n) else None)"

text \<open>\<open>strconv.FormatInt(i, 10)\<close>.\<close>

definition digit :: "nat \<Rightarrow> char" where
  "digit d = char_of (d + 48)"

fun format_digits :: "nat \<Rightarrow> string" where
  "format_digits n = (if n < 10 then [digit n] else format_digits (n div 10) @ [digit (n mod 10)])"

declare format_digits.simps [simp del]

definition FormatInt :: "int \<Rightarrow> string" where
  "FormatInt i = (if i < 0 then CHR ''-'' # format_digits (nat (- i)) else format_digits (nat i))"

lemma digit_char:
  assumes "d < 10"
  shows "CHR ''0'' \<le> digit d \<and> digit d \<le> CHR ''9'' \<and> (of_char (digit d) :: int) - of_char CHR ''0'' = int d"
proof -
  have n: "(of_char (digit d) :: nat) = d + 48" using assms by (simp add: digit_def)
  moreover have "(of_char (digit d) :: int) = int (of_char (digit d))" by (simp add: of_nat_of_char)
  ultimately show ?thesis using assms by (simp add: less_eq_char_def)
qed

lemma digits_value_append:
  "digits_value acc (xs @ ys) = Option.bind (digits_value acc xs) (\<lambda>a. digits_value a ys)"
  by (induction xs arbitrary: acc) auto

lemma digits_value_format: "digits_value 0 (format_digits n) = Some (int n)"
proof (induction n rule: format_digits.induct)
  case (1 n)
  show ?case
  proof (cases "n < 10")
    case True
    then show ?thesis using digit_char[OF True] by (simp add: format_digits.simps)
  next
    case False
    have "digits_value 0 (format_digits n) = Some (10 * int (n div 10) + int (n mod 10))"
      using False 1[OF False] digit_char[of "n mod 10"]
      by (simp add: format_digits.simps[of n] digits_value_append)
    moreover have "10 * int (n div 10) + int (n mod 10) = int n" by presburger
    ultimately show ?thesis by simp
  qed
qed

lemma format_digits_head: "\<exists>d ds. format_digits n = d # ds \<and> CHR ''0'' \<le> d \<and> d \<le> CHR ''9''"
proof (induction n rule: format_digits.induct)
  case (1 n)
  then show ?case using digit_char[of n] by (cases "n < 10") (auto simp: format_digits.simps[of n])
qed

lemma ParseInt64_FormatInt:
  assumes "- (2 ^ 63) \<le> i" "i < 2 ^ 63"
  shows "ParseInt64 (FormatInt i) = Some i"
proof (cases "i < 0")
  case True
  then show ?thesis
    using assms format_digits_head[of "nat (- i)"] digits_value_format[of "nat (- i)"]
    by (auto simp: FormatInt_def ParseInt64_def)
next
  case False
  obtain d ds where d: "format_digits (nat i) = d # ds" "CHR ''0'' \<le> d" "d \<le> CHR ''9''"
    using format_digits_head[of "nat i"] by blast
  then have "d \<noteq> CHR ''-''" "d \<noteq> CHR ''+''" by (auto simp: less_eq_char_def)
  then show ?thesis
    using False assms d(1) digits_value_format[of "nat i"] by (simp add: FormatInt_def ParseInt64_def)
qed

section \<open>Hexadecimal strings\<close>

definition hex_digit :: "nat \<Rightarrow> char" where
  "hex_digit d = (if d < 10 then char_of (d + 48) else char_of (d + 87))"

definition hex_value :: "char \<Rightarrow> nat option" where
  "hex_value c =
     (let n = of_char c :: nat
      in if 48 \<le> n \<and> n \<le> 57 then Some (n - 48)
         else if 97 \<le> n \<and> n \<le> 102 then Some (n - 87)
         else if 65 \<le> n \<and> n \<le> 70 then Some (n - 55) else None)"

definition hex_EncodeToString :: "bytes \<Rightarrow> string" where
  "hex_EncodeToString b = concat (map (\<lambda>x. [hex_digit (unat x div 16), hex_digit (unat x mod 16)]) b)"

text \<open>\<open>None\<close> is the error: an odd length or a character that is no digit.\<close>

fun hex_DecodeString :: "string \<Rightarrow> bytes option" where
  "hex_DecodeString [] = Some []"
| "hex_DecodeString [c] = None"
| "hex_DecodeString (c # d # cs) =
     (case (hex_value c, hex_value d, hex_DecodeString cs) of
        (Some x, Some y, Some b) \<Rightarrow> Some (of_nat (16 * x + y) # b)
      | _ \<Rightarrow> None)"

lemma hex_value_digit:
  assumes "d < 16"
  shows "hex_value (hex_digit d) = Some d"
  using assms by (cases "d < 10") (auto simp: hex_value_def hex_digit_def)

lemma hex_Decode_Encode [simp]: "hex_DecodeString (hex_EncodeToString b) = Some b"
proof (induction b)
  case (Cons x b)
  have "unat x < 256" using unsigned_less[of x, where ?'a = nat] by simp
  then have "hex_value (hex_digit (unat x div 16)) = Some (unat x div 16)"
    "hex_value (hex_digit (unat x mod 16)) = Some (unat x mod 16)"
    by (auto intro: hex_value_digit)
  with Cons show ?case by (simp add: hex_EncodeToString_def)
qed (simp add: hex_EncodeToString_def)

section \<open>Addresses\<close>

text \<open>\<open>net.SplitHostPort\<close>, an error being its text.\<close>

definition index_byte :: "char \<Rightarrow> string \<Rightarrow> nat option" where
  "index_byte c s = (case filter (\<lambda>i. s ! i = c) [0..<length s] of [] \<Rightarrow> None | i # _ \<Rightarrow> Some i)"

definition last_index_byte :: "char \<Rightarrow> string \<Rightarrow> nat option" where
  "last_index_byte c s = (case rev (filter (\<lambda>i. s ! i = c) [0..<length s]) of [] \<Rightarrow> None | i # _ \<Rightarrow> Some i)"

definition split_brackets :: "string \<Rightarrow> string \<Rightarrow> nat \<Rightarrow> nat \<Rightarrow> nat \<Rightarrow> string + string \<times> string" where
  "split_brackets hostport host i j k =
     (if index_byte CHR ''['' (drop j hostport) \<noteq> None then Inl ''unexpected '[' in address''
      else if index_byte CHR '']'' (drop k hostport) \<noteq> None then Inl ''unexpected ']' in address''
      else Inr (host, drop (i + 1) hostport))"

definition SplitHostPort :: "string \<Rightarrow> string + string \<times> string" where
  "SplitHostPort hostport =
     (case last_index_byte CHR '':'' hostport of
        None \<Rightarrow> Inl ''missing port in address''
      | Some i \<Rightarrow>
          if hd hostport = CHR ''['' then
            (case index_byte CHR '']'' hostport of
               None \<Rightarrow> Inl ''missing ']' in address''
             | Some e \<Rightarrow>
                 if e + 1 = length hostport then Inl ''missing port in address''
                 else if e + 1 = i then split_brackets hostport (take (e - 1) (drop 1 hostport)) i 1 (e + 1)
                 else if hostport ! (e + 1) = CHR '':'' then Inl ''too many colons in address''
                 else Inl ''missing port in address'')
          else let host = take i hostport
               in if index_byte CHR '':'' host \<noteq> None then Inl ''too many colons in address''
                  else split_brackets hostport host i 0 0)"

end
