(* ===== verification/Session.thy ===== *)
theory Session
  imports Go_Strings
begin

text \<open>
  Sessions (\<^verbatim>\<open>src/gate/base/session.go\<close>, the struct of \<^verbatim>\<open>src/gate/base/session.pb.go\<close>): the
  local operations of \<open>sessionagent\<close>, the operations that go through the gate that owns the
  session, cloning and serialization. The protobuf library (\<open>proto.Marshal\<close>, \<open>proto.Unmarshal\<close>)
  and the remote call (\<open>ServerSession.Call\<close>) are arguments. A Go map is a map that may be nil
  (\<open>None\<close>); operations are values, so two sessions never share a map.
\<close>

section \<open>The data\<close>

record session_imp =
  IP :: string
  Network :: string
  UserId :: string
  SessionId :: string
  ServerId :: string
  TraceId :: string
  SpanId :: string
  Settings :: "smap option"
  Carrier :: "smap option"
  Topic :: string
  GateInstanceId :: string

definition new_SessionImp :: session_imp where
  "new_SessionImp = \<lparr>IP = '''', Network = '''', UserId = '''', SessionId = '''', ServerId = '''',
     TraceId = '''', SpanId = '''', Settings = None, Carrier = None, Topic = '''',
     GateInstanceId = ''''\<rparr>"

text \<open>
  \<open>sessionagent\<close>: \<open>app\<close> is what the session uses of the application
  (\<open>GetServerByInstanceID\<close>), \<open>judgeGuest\<close> the function it may have been given.
\<close>

record ('srv, 'u) sessionagent =
  app :: "(string \<Rightarrow> go_error + 'srv) option"
  session :: session_imp
  userdata :: "'u option"
  judgeGuest :: "(session_imp \<Rightarrow> bool) option"

definition errorAppIsNil :: go_error where
  "errorAppIsNil = Errorf ''Module.App is nil'' []"

definition fill_settings :: "session_imp \<Rightarrow> session_imp" where
  "fill_settings s = (if Settings s = None then s\<lparr>Settings := Some Map.empty\<rparr> else s)"

text \<open>\<open>NewSession(app, data)\<close>; \<open>guest\<close> is the global \<open>gate.JudgeGuest\<close>.\<close>

definition NewSession ::
    "(bytes \<Rightarrow> go_error + session_imp) \<Rightarrow> (session_imp \<Rightarrow> bool) option \<Rightarrow>
     (string \<Rightarrow> go_error + 'srv) option \<Rightarrow> bytes \<Rightarrow> go_error + ('srv, 'u) sessionagent" where
  "NewSession unmarshal guest a data =
     (case unmarshal data of
        Inl e \<Rightarrow> Inl e
      | Inr se \<Rightarrow>
          Inr \<lparr>app = a, session = fill_settings se, userdata = None,
               judgeGuest = (if a \<noteq> None then guest else None)\<rparr>)"

section \<open>Sessions from a map\<close>

text \<open>The values of a \<open>map[string]interface{}\<close>.\<close>

datatype any_value = AnyNil | AnyString string | AnyMap smap | AnyOther

definition assert_string :: "any_value \<Rightarrow> string outcome" where
  "assert_string v = (case v of AnyString s \<Rightarrow> Ret s | _ \<Rightarrow> Panic ''interface conversion'')"

text \<open>
  A field that is set when the entry is there and not nil, and one that is set when the entry is
  there (\<open>Topic\<close> and \<open>GateInstanceID\<close>).
\<close>

definition set_if_nonnil ::
    "(string \<rightharpoonup> any_value) \<Rightarrow> string \<Rightarrow> (string \<Rightarrow> session_imp \<Rightarrow> session_imp) \<Rightarrow> session_imp
      \<Rightarrow> session_imp outcome" where
  "set_if_nonnil m k upd s =
     (case m k of
        None \<Rightarrow> Ret s
      | Some AnyNil \<Rightarrow> Ret s
      | Some v \<Rightarrow> outcome_bind (assert_string v) (\<lambda>x. Ret (upd x s)))"

definition set_if_there ::
    "(string \<rightharpoonup> any_value) \<Rightarrow> string \<Rightarrow> (string \<Rightarrow> session_imp \<Rightarrow> session_imp) \<Rightarrow> session_imp
      \<Rightarrow> session_imp outcome" where
  "set_if_there m k upd s =
     (case m k of
        None \<Rightarrow> Ret s
      | Some v \<Rightarrow> outcome_bind (assert_string v) (\<lambda>x. Ret (upd x s)))"

definition set_settings :: "(string \<rightharpoonup> any_value) \<Rightarrow> session_imp \<Rightarrow> session_imp outcome" where
  "set_settings m s =
     (case m ''Settings'' of
        None \<Rightarrow> Ret s
      | Some AnyNil \<Rightarrow> Ret s
      | Some (AnyMap x) \<Rightarrow> Ret (s\<lparr>Settings := Some x\<rparr>)
      | Some _ \<Rightarrow> Panic ''interface conversion'')"

definition updateMap :: "(string \<rightharpoonup> any_value) \<Rightarrow> session_imp \<Rightarrow> session_imp outcome" where
  "updateMap m s =
     outcome_bind (set_if_nonnil m ''Userid'' (\<lambda>x s. s\<lparr>UserId := x\<rparr>) s) (\<lambda>s.
     outcome_bind (set_if_nonnil m ''IP'' (\<lambda>x s. s\<lparr>IP := x\<rparr>) s) (\<lambda>s.
     outcome_bind (set_if_there m ''Topic'' (\<lambda>x s. s\<lparr>Topic := x\<rparr>) s) (\<lambda>s.
     outcome_bind (set_if_nonnil m ''Network'' (\<lambda>x s. s\<lparr>Network := x\<rparr>) s) (\<lambda>s.
     outcome_bind (set_if_nonnil m ''Sessionid'' (\<lambda>x s. s\<lparr>SessionId := x\<rparr>) s) (\<lambda>s.
     outcome_bind (set_if_nonnil m ''Serverid'' (\<lambda>x s. s\<lparr>ServerId := x\<rparr>) s) (\<lambda>s.
     outcome_bind (set_if_there m ''GateInstanceID'' (\<lambda>x s. s\<lparr>GateInstanceId := x\<rparr>) s) (\<lambda>s.
     set_settings m s)))))))"

definition NewSessionByMap ::
    "(session_imp \<Rightarrow> bool) option \<Rightarrow> (string \<Rightarrow> go_error + 'srv) option \<Rightarrow> (string \<rightharpoonup> any_value)
      \<Rightarrow> ('srv, 'u) sessionagent outcome" where
  "NewSessionByMap guest a m =
     outcome_bind (updateMap m new_SessionImp) (\<lambda>se.
       Ret \<lparr>app = a, session = fill_settings se, userdata = None,
            judgeGuest = (if a \<noteq> None then guest else None)\<rparr>)"

section \<open>Local operations\<close>

definition settings_of :: "session_imp \<Rightarrow> smap" where
  "settings_of s = (case Settings s of None \<Rightarrow> Map.empty | Some m \<Rightarrow> m)"

text \<open>Existing entries win.\<close>

definition ImportSettings :: "smap \<Rightarrow> session_imp \<Rightarrow> session_imp" where
  "ImportSettings m s =
     (case Settings s of
        None \<Rightarrow> s\<lparr>Settings := Some m\<rparr>
      | Some old \<Rightarrow> s\<lparr>Settings := Some (m ++ old)\<rparr>)"

definition SetUserID :: "string \<Rightarrow> session_imp \<Rightarrow> session_imp" where
  "SetUserID u s = s\<lparr>UserId := u\<rparr>"

definition SetTopic :: "string \<Rightarrow> session_imp \<Rightarrow> session_imp" where
  "SetTopic t s = s\<lparr>Topic := t\<rparr>"

definition SetSettings :: "smap \<Rightarrow> session_imp \<Rightarrow> session_imp" where
  "SetSettings m s = s\<lparr>Settings := Some m\<rparr>"

definition CloneSettings :: "session_imp \<Rightarrow> smap" where
  "CloneSettings s = settings_of s"

text \<open>Assigning to an entry of a nil map panics; deleting from one does nothing.\<close>

definition SetLocalKV :: "string \<Rightarrow> string \<Rightarrow> session_imp \<Rightarrow> session_imp outcome" where
  "SetLocalKV k v s =
     (case Settings s of
        None \<Rightarrow> Panic ''assignment to entry in nil map''
      | Some m \<Rightarrow> Ret (s\<lparr>Settings := Some (m(k \<mapsto> v))\<rparr>))"

definition RemoveLocalKV :: "string \<Rightarrow> session_imp \<Rightarrow> session_imp" where
  "RemoveLocalKV k s =
     (case Settings s of None \<Rightarrow> s | Some m \<Rightarrow> s\<lparr>Settings := Some (m(k := None))\<rparr>)"

definition session_Load :: "string \<Rightarrow> session_imp \<Rightarrow> string \<times> bool" where
  "session_Load k s =
     (case Settings s of
        None \<Rightarrow> ('''', False)
      | Some m \<Rightarrow> (case m k of Some v \<Rightarrow> (v, True) | None \<Rightarrow> ('''', False)))"

definition session_Get :: "string \<Rightarrow> session_imp \<Rightarrow> string" where
  "session_Get k s =
     (case Settings s of
        None \<Rightarrow> ''''
      | Some m \<Rightarrow> (case m k of Some v \<Rightarrow> v | None \<Rightarrow> ''''))"

text \<open>\<open>update\<close> copies another session into this one, except the trace and span ids.\<close>

definition update_session :: "session_imp \<Rightarrow> session_imp \<Rightarrow> session_imp" where
  "update_session o_s s = s\<lparr>UserId := UserId o_s, IP := IP o_s, Topic := Topic o_s,
     Network := Network o_s, SessionId := SessionId o_s, ServerId := ServerId o_s,
     GateInstanceId := GateInstanceId o_s, Settings := Some (settings_of o_s)\<rparr>"

text \<open>\<open>Clone\<close>: \<open>span\<close> is the newly generated span id.\<close>

definition Clone_imp :: "string \<Rightarrow> session_imp \<Rightarrow> session_imp" where
  "Clone_imp span s =
     new_SessionImp\<lparr>IP := IP s, Network := Network s, UserId := UserId s, SessionId := SessionId s,
       ServerId := ServerId s, GateInstanceId := GateInstanceId s, TraceId := TraceId s,
       SpanId := span, Settings := Some (settings_of s)\<rparr>"

definition Clone :: "string \<Rightarrow> ('srv, 'u) sessionagent \<Rightarrow> ('srv, 'u) sessionagent" where
  "Clone span a = \<lparr>app = app a, session = Clone_imp span (session a), userdata = userdata a,
     judgeGuest = None\<rparr>"

definition ExtractSpan :: "string \<Rightarrow> ('srv, 'u) sessionagent \<Rightarrow> ('srv, 'u) sessionagent" where
  "ExtractSpan span a = \<lparr>app = app a,
     session = new_SessionImp\<lparr>IP := IP (session a), Network := Network (session a),
       UserId := UserId (session a), SessionId := SessionId (session a),
       ServerId := ServerId (session a), GateInstanceId := GateInstanceId (session a),
       TraceId := TraceId (session a), SpanId := span, Settings := Settings (session a)\<rparr>,
     userdata = userdata a, judgeGuest = None\<rparr>"

definition CreateTrace :: "string \<Rightarrow> string \<Rightarrow> session_imp \<Rightarrow> session_imp" where
  "CreateTrace trace span s = s\<lparr>TraceId := trace, SpanId := span\<rparr>"

definition IsGuest :: "('srv, 'u) sessionagent \<Rightarrow> bool" where
  "IsGuest a =
     (case judgeGuest a of
        Some f \<Rightarrow> f (session a)
      | None \<Rightarrow> UserId (session a) = '''')"

definition JudgeGuest :: "(session_imp \<Rightarrow> bool) option \<Rightarrow> ('srv, 'u) sessionagent \<Rightarrow> ('srv, 'u) sessionagent"
where
  "JudgeGuest f a = a\<lparr>judgeGuest := f\<rparr>"

definition Unmarshal ::
    "(bytes \<Rightarrow> go_error + session_imp) \<Rightarrow> bytes \<Rightarrow> ('srv, 'u) sessionagent
      \<Rightarrow> go_error option \<times> ('srv, 'u) sessionagent" where
  "Unmarshal unmarshal data a =
     (case unmarshal data of
        Inl e \<Rightarrow> (Some e, a)
      | Inr se \<Rightarrow> (None, a\<lparr>session := fill_settings se\<rparr>))"

definition GetUserIDInt64 :: "session_imp \<Rightarrow> int" where
  "GetUserIDInt64 s = (case ParseInt64 (UserId s) of None \<Rightarrow> -1 | Some i \<Rightarrow> i)"

section \<open>Operations through the gate\<close>

text \<open>
  The calls a session makes to its gate, by the name of the remote function and its arguments
  (the trace argument of each call is left out), and what comes back. \<open>Call\<close> is the remote call,
  on a state \<open>'w\<close> of its own.
\<close>

datatype gate_request =
    Req_Update string
  | Req_Bind string string
  | Req_UnBind string
  | Req_Push string smap
  | Req_Set string string string
  | Req_Remove string string
  | Req_Send string string bytes
  | Req_SendBatch string string bytes
  | Req_IsConnect string string
  | Req_Close string

datatype gate_result =
    Res_Session session_imp
  | Res_String string
  | Res_Int int
  | Res_Bool bool

type_synonym ('srv, 'w) call =
  "'srv \<Rightarrow> gate_request \<Rightarrow> 'w \<Rightarrow> ((gate_result option \<times> go_error option) \<times> 'w) outcome"

definition gateServer :: "('srv, 'u) sessionagent \<Rightarrow> go_error + 'srv" where
  "gateServer a =
     (case app a of
        None \<Rightarrow> Inl errorAppIsNil
      | Some getServer \<Rightarrow>
          let instanceID = GateInstanceId (session a)
          in if instanceID = [] then Inl (Errorf ''session GateInstanceID is empty'' [])
             else case getServer instanceID of
               Inl e \<Rightarrow> Inl (Errorf ''gate instance not found (%s): %v'' [AS instanceID])
             | Inr server \<Rightarrow> Inr server)"

definition ask_gate ::
    "('srv, 'w) call \<Rightarrow> gate_request \<Rightarrow> ('srv, 'u) sessionagent \<Rightarrow> 'w
      \<Rightarrow> ((gate_result option \<times> go_error option) \<times> 'w) outcome" where
  "ask_gate Call req a w =
     (if app a = None then Ret ((None, Some errorAppIsNil), w)
      else case gateServer a of
        Inl e \<Rightarrow> Ret ((None, Some e), w)
      | Inr server \<Rightarrow> Call server req w)"

text \<open>
  The common body of \<open>Update\<close>, \<open>Bind\<close>, \<open>UnBind\<close>, \<open>Push\<close>, \<open>Set\<close>, \<open>SetBatch\<close> and \<open>Remove\<close>: find
  the gate, call it, and take over the session it answers with.
\<close>

definition through_gate ::
    "('srv, 'w) call \<Rightarrow> gate_request \<Rightarrow> ('srv, 'u) sessionagent \<Rightarrow> 'w
      \<Rightarrow> (go_error option \<times> ('srv, 'u) sessionagent \<times> 'w) outcome" where
  "through_gate Call req a w =
     outcome_bind (ask_gate Call req a w) (\<lambda>((result, err), w).
       if err = None
       then (case result of
               None \<Rightarrow> Ret (err, a, w)
             | Some (Res_Session s) \<Rightarrow> Ret (err, a\<lparr>session := update_session s (session a)\<rparr>, w)
             | Some _ \<Rightarrow> Panic ''interface conversion'')
       else Ret (err, a, w))"

type_synonym ('srv, 'u, 'w) session_op =
  "('srv, 'u) sessionagent \<Rightarrow> 'w \<Rightarrow> (go_error option \<times> ('srv, 'u) sessionagent \<times> 'w) outcome"

definition session_Update :: "('srv, 'w) call \<Rightarrow> ('srv, 'u, 'w) session_op" where
  "session_Update Call a = through_gate Call (Req_Update (SessionId (session a))) a"

definition session_Bind :: "('srv, 'w) call \<Rightarrow> string \<Rightarrow> ('srv, 'u, 'w) session_op" where
  "session_Bind Call userID a = through_gate Call (Req_Bind (SessionId (session a)) userID) a"

definition session_UnBind :: "('srv, 'w) call \<Rightarrow> ('srv, 'u, 'w) session_op" where
  "session_UnBind Call a = through_gate Call (Req_UnBind (SessionId (session a))) a"

definition session_Push :: "('srv, 'w) call \<Rightarrow> ('srv, 'u, 'w) session_op" where
  "session_Push Call a =
     through_gate Call (Req_Push (SessionId (session a)) (settings_of (session a))) a"

definition session_Set :: "('srv, 'w) call \<Rightarrow> string \<Rightarrow> string \<Rightarrow> ('srv, 'u, 'w) session_op" where
  "session_Set Call key val a = through_gate Call (Req_Set (SessionId (session a)) key val) a"

definition session_SetPush :: "('srv, 'w) call \<Rightarrow> string \<Rightarrow> string \<Rightarrow> ('srv, 'u, 'w) session_op" where
  "session_SetPush Call key val a w =
     (if app a = None then Ret (Some errorAppIsNil, a, w)
      else (let a = a\<lparr>session := fill_settings (session a)\<rparr>
            in outcome_bind (SetLocalKV key val (session a)) (\<lambda>s.
                 session_Push Call (a\<lparr>session := s\<rparr>) w)))"

definition session_SetBatch :: "('srv, 'w) call \<Rightarrow> smap \<Rightarrow> ('srv, 'u, 'w) session_op" where
  "session_SetBatch Call settings a =
     through_gate Call (Req_Push (SessionId (session a)) settings) a"

definition session_Remove :: "('srv, 'w) call \<Rightarrow> string \<Rightarrow> ('srv, 'u, 'w) session_op" where
  "session_Remove Call key a = through_gate Call (Req_Remove (SessionId (session a)) key) a"

text \<open>\<open>Send\<close> and \<open>Close\<close> report only the error of the call.\<close>

definition session_Send ::
    "('srv, 'w) call \<Rightarrow> string \<Rightarrow> bytes \<Rightarrow> ('srv, 'u) sessionagent \<Rightarrow> 'w
      \<Rightarrow> (go_error option \<times> 'w) outcome" where
  "session_Send Call topic body a w =
     outcome_bind (ask_gate Call (Req_Send (SessionId (session a)) topic body) a w)
       (\<lambda>((_, err), w). Ret (err, w))"

definition session_SendBatch ::
    "('srv, 'w) call \<Rightarrow> string \<Rightarrow> string \<Rightarrow> bytes \<Rightarrow> ('srv, 'u) sessionagent \<Rightarrow> 'w
      \<Rightarrow> ((int \<times> go_error option) \<times> 'w) outcome" where
  "session_SendBatch Call sids topic body a w =
     outcome_bind (ask_gate Call (Req_SendBatch sids topic body) a w) (\<lambda>((count, err), w).
       if err \<noteq> None then Ret ((0, err), w)
       else (case count of
               Some (Res_Int n) \<Rightarrow> Ret ((n, err), w)
             | _ \<Rightarrow> Panic ''interface conversion''))"

definition session_IsConnect ::
    "('srv, 'w) call \<Rightarrow> string \<Rightarrow> ('srv, 'u) sessionagent \<Rightarrow> 'w
      \<Rightarrow> ((bool \<times> go_error option) \<times> 'w) outcome" where
  "session_IsConnect Call userId a w =
     outcome_bind (ask_gate Call (Req_IsConnect (SessionId (session a)) userId) a w) (\<lambda>((result, err), w).
       if err \<noteq> None then Ret ((False, err), w)
       else (case result of
               Some (Res_Bool b) \<Rightarrow> Ret ((b, err), w)
             | _ \<Rightarrow> Panic ''interface conversion''))"

definition session_Close ::
    "('srv, 'w) call \<Rightarrow> ('srv, 'u) sessionagent \<Rightarrow> 'w \<Rightarrow> (go_error option \<times> 'w) outcome" where
  "session_Close Call a w =
     outcome_bind (ask_gate Call (Req_Close (SessionId (session a))) a w) (\<lambda>((_, err), w). Ret (err, w))"

end
