(* ===== verification/Go_IO.thy ===== *)
theory Go_IO
  imports Mqant_Prelude
begin

text \<open>
  The byte streams under the gate: \<^verbatim>\<open>bufio.Reader\<close> and \<^verbatim>\<open>io.ReadFull\<close> as the MQTT reader
  uses them, the connection wrapper of \<^verbatim>\<open>src/network/tcp_conn.go\<close>, and
  \<^verbatim>\<open>bufio.Writer\<close> over it. The Go library routines follow their own source: a \<open>Write\<close> that
  does not fit is a loop that flushes and retries, kept here as a loop
  (\<^theory_text>\<open>partial_function\<close>), because over a closed \<open>TCPConn\<close> it need not end.
\<close>

section \<open>Reading\<close>

text \<open>
  The bytes still to come and the error reported once they are used up (\<open>EOF\<close> when the peer
  closed, a network error such as an expired deadline otherwise).
\<close>

record reader =
  rd_data :: bytes
  rd_end :: go_error

definition ReadByte :: "reader \<Rightarrow> (go_error + byte) \<times> reader" where
  "ReadByte r =
     (case rd_data r of
        [] \<Rightarrow> (Inl (rd_end r), r)
      | b # bs \<Rightarrow> (Inr b, r\<lparr>rd_data := bs\<rparr>))"

text \<open>
  \<open>io.ReadFull(r, buf)\<close> with \<open>len(buf) = n\<close>: the contents of the buffer afterwards (what was not
  read stays zero), the error, the rest of the stream.
\<close>

definition ReadFull :: "nat \<Rightarrow> reader \<Rightarrow> (bytes \<times> go_error option) \<times> reader" where
  "ReadFull n r =
     (let got = take n (rd_data r);
          buf = got @ replicate (n - length got) 0;
          err = (if n \<le> length (rd_data r) then None
                 else if got \<noteq> [] \<and> rd_end r = EOF then Some ErrUnexpectedEOF
                 else Some (rd_end r))
      in ((buf, err), r\<lparr>rd_data := drop n (rd_data r)\<rparr>))"

lemma ReadByte_Cons [read_simps]:
  "rd_data r = b # bs \<Longrightarrow> ReadByte r = (Inr b, r\<lparr>rd_data := bs\<rparr>)"
  by (simp add: ReadByte_def)

lemma ReadFull_append [read_simps]:
  "rd_data r = xs @ rest \<Longrightarrow> length xs = n \<Longrightarrow>
   ReadFull n r = ((xs, None), r\<lparr>rd_data := rest\<rparr>)"
  by (auto simp: ReadFull_def Let_def)

lemma ReadFull_ok:
  "ReadFull n r = ((buf, None), r') \<longleftrightarrow>
     n \<le> length (rd_data r) \<and> buf = take n (rd_data r) \<and> r' = r\<lparr>rd_data := drop n (rd_data r)\<rparr>"
  by (auto simp: ReadFull_def Let_def)

section \<open>The TCP connection\<close>

text \<open>
  \<open>TCPConn\<close>: \<open>closeFlag\<close> of the wrapper and the \<open>net.Conn\<close> under it, which has accepted
  \<open>tc_sent\<close> and accepts \<open>tc_left\<close> more bytes before it fails (\<open>None\<close>: no limit).
\<close>

record tcp_conn =
  closeFlag :: bool
  tc_sent :: bytes
  tc_left :: "nat option"
  tc_netClosed :: bool

definition net_write :: "bytes \<Rightarrow> tcp_conn \<Rightarrow> (nat \<times> go_error option) \<times> tcp_conn" where
  "net_write b c =
     (case tc_left c of
        None \<Rightarrow> ((length b, None), c\<lparr>tc_sent := tc_sent c @ b\<rparr>)
      | Some k \<Rightarrow>
          if length b \<le> k
          then ((length b, None), c\<lparr>tc_sent := tc_sent c @ b, tc_left := Some (k - length b)\<rparr>)
          else ((k, Some (ErrConn ''write'')),
                c\<lparr>tc_sent := tc_sent c @ take k b, tc_left := Some 0\<rparr>))"

definition TCPConn_Write :: "bytes \<Rightarrow> tcp_conn \<Rightarrow> (nat \<times> go_error option) \<times> tcp_conn" where
  "TCPConn_Write b c = (if closeFlag c then ((0, None), c) else net_write b c)"

definition TCPConn_Close :: "tcp_conn \<Rightarrow> tcp_conn" where
  "TCPConn_Close c =
     (if closeFlag c then c else c\<lparr>closeFlag := True, tc_netClosed := True\<rparr>)"

definition doDestroy :: "tcp_conn \<Rightarrow> tcp_conn" where
  "doDestroy c =
     (let c = c\<lparr>tc_netClosed := True\<rparr>
      in if \<not> closeFlag c then c\<lparr>closeFlag := True\<rparr> else c)"

definition TCPConn_Destroy :: "tcp_conn \<Rightarrow> tcp_conn" where
  "TCPConn_Destroy c = doDestroy c"

section \<open>Buffered writing\<close>

record bwriter =
  bw_buf :: bytes
  bw_size :: nat
  bw_err :: "go_error option"
  bw_conn :: tcp_conn

definition Available :: "bwriter \<Rightarrow> nat" where
  "Available w = bw_size w - length (bw_buf w)"

definition Buffered :: "bwriter \<Rightarrow> nat" where
  "Buffered w = length (bw_buf w)"

definition Flush :: "bwriter \<Rightarrow> go_error option \<times> bwriter" where
  "Flush w =
     (if bw_err w \<noteq> None then (bw_err w, w)
      else if bw_buf w = [] then (None, w)
      else
        (let ((n, e), c) = TCPConn_Write (bw_buf w) (bw_conn w);
             e = (if n < length (bw_buf w) \<and> e = None then Some ErrShortWrite else e)
         in if e \<noteq> None
            then (e, w\<lparr>bw_conn := c, bw_buf := drop n (bw_buf w), bw_err := e\<rparr>)
            else (None, w\<lparr>bw_conn := c, bw_buf := []\<rparr>)))"

definition WriteByte :: "byte \<Rightarrow> bwriter \<Rightarrow> (go_error option \<times> bwriter) outcome" where
  "WriteByte b w =
     Ret (if bw_err w \<noteq> None then (bw_err w, w)
          else if Available w = 0
          then (let (e, w') = Flush w
                in if e \<noteq> None then (bw_err w', w')
                   else (None, w'\<lparr>bw_buf := bw_buf w' @ [b]\<rparr>))
          else (None, w\<lparr>bw_buf := bw_buf w @ [b]\<rparr>))"

partial_function (option) bw_loop ::
    "bytes \<Rightarrow> nat \<Rightarrow> bwriter \<Rightarrow> (bytes \<times> nat \<times> bwriter) option" where
  "bw_loop p nn w =
     (if length p > Available w \<and> bw_err w = None
      then (if bw_buf w = []
            then bw_loop (drop (fst (fst (TCPConn_Write p (bw_conn w)))) p)
                   (nn + fst (fst (TCPConn_Write p (bw_conn w))))
                   (w\<lparr>bw_conn := snd (TCPConn_Write p (bw_conn w)),
                      bw_err := snd (fst (TCPConn_Write p (bw_conn w)))\<rparr>)
            else bw_loop (drop (Available w) p) (nn + Available w)
                   (snd (Flush (w\<lparr>bw_buf := bw_buf w @ take (Available w) p\<rparr>))))
      else Some (p, nn, w))"

definition Write :: "bytes \<Rightarrow> bwriter \<Rightarrow> ((nat \<times> go_error option) \<times> bwriter) outcome" where
  "Write p w =
     (case bw_loop p 0 w of
        None \<Rightarrow> Hang
      | Some (p', nn, w') \<Rightarrow>
          if bw_err w' \<noteq> None then Ret ((nn, bw_err w'), w')
          else Ret ((nn + length p', None), w'\<lparr>bw_buf := bw_buf w' @ p'\<rparr>))"

section \<open>What a healthy writer does\<close>

text \<open>
  Everything handed to the writer so far, in order: what the connection has taken and what still
  sits in the buffer.
\<close>

definition stream :: "bwriter \<Rightarrow> bytes" where
  "stream w = tc_sent (bw_conn w) @ bw_buf w"

definition healthy :: "bwriter \<Rightarrow> bool" where
  "healthy w \<longleftrightarrow> bw_err w = None \<and> \<not> closeFlag (bw_conn w) \<and> tc_left (bw_conn w) = None \<and>
     0 < bw_size w \<and> length (bw_buf w) \<le> bw_size w"

lemma TCPConn_Write_healthy:
  "healthy w \<Longrightarrow> TCPConn_Write p (bw_conn w) =
     ((length p, None), (bw_conn w)\<lparr>tc_sent := tc_sent (bw_conn w) @ p\<rparr>)"
  by (simp add: healthy_def TCPConn_Write_def net_write_def)

lemma Flush_healthy:
  assumes "healthy w"
  shows "\<exists>w'. Flush w = (None, w') \<and> healthy w' \<and> stream w' = stream w \<and> bw_buf w' = [] \<and>
    bw_size w' = bw_size w"
  using assms TCPConn_Write_healthy[OF assms, of "bw_buf w"]
  by (auto simp: Flush_def healthy_def stream_def)

lemma WriteByte_healthy [stream_simps]:
  assumes "healthy w"
  shows "\<exists>w'. WriteByte b w = Ret (None, w') \<and> healthy w' \<and> stream w' = stream w @ [b]"
proof (cases "Available w = 0")
  case True
  obtain w' where "Flush w = (None, w')" "healthy w'" "stream w' = stream w" "bw_buf w' = []"
    using Flush_healthy[OF assms] by blast
  with True assms show ?thesis
    by (auto simp: WriteByte_def healthy_def stream_def)
next
  case False
  with assms show ?thesis
    by (auto simp: WriteByte_def healthy_def stream_def Available_def)
qed

lemma bw_loop_done:
  "length p \<le> Available w \<or> bw_err w \<noteq> None \<Longrightarrow> bw_loop p nn w = Some (p, nn, w)"
  by (subst bw_loop.simps) auto

lemma bw_loop_empty_buffer:
  assumes "healthy w" "bw_buf w = []"
  shows "\<exists>p' w'. bw_loop p nn w = Some (p', nn + length p - length p', w') \<and> healthy w' \<and>
    stream w' @ p' = stream w @ p \<and> length p' \<le> length p \<and> length p' \<le> Available w'"
proof (cases "length p > Available w")
  case True
  let ?w = "w\<lparr>bw_conn := (bw_conn w)\<lparr>tc_sent := tc_sent (bw_conn w) @ p\<rparr>, bw_err := None\<rparr>"
  have "bw_loop p nn w = bw_loop [] (nn + length p) ?w"
    using True assms by (subst bw_loop.simps) (simp add: TCPConn_Write_healthy healthy_def)
  also have "\<dots> = Some ([], nn + length p, ?w)"
    by (simp add: bw_loop_done)
  finally show ?thesis
    using assms by (auto simp: healthy_def stream_def)
next
  case False
  with assms show ?thesis by (auto simp: bw_loop_done intro!: exI[of _ p] exI[of _ w])
qed

lemma bw_loop_healthy:
  assumes "healthy w"
  shows "\<exists>p' w'. bw_loop p nn w = Some (p', nn + length p - length p', w') \<and> healthy w' \<and>
    stream w' @ p' = stream w @ p \<and> length p' \<le> length p \<and> length p' \<le> Available w'"
proof (cases "length p > Available w \<and> bw_buf w \<noteq> []")
  case True
  let ?n = "Available w"
  let ?w = "w\<lparr>bw_buf := bw_buf w @ take ?n p\<rparr>"
  have "healthy ?w" using assms by (auto simp: healthy_def Available_def)
  from Flush_healthy[OF this] obtain w1 where w1: "Flush ?w = (None, w1)" "healthy w1"
    "stream w1 = stream ?w" "bw_buf w1 = []" by blast
  have "bw_loop p nn w = bw_loop (drop ?n p) (nn + ?n) w1"
    using True assms w1(1) by (subst bw_loop.simps) (simp add: healthy_def)
  with bw_loop_empty_buffer[OF w1(2,4), of "drop ?n p" "nn + ?n"] True w1(3)
  show ?thesis by (fastforce simp: stream_def)
next
  case False
  show ?thesis
  proof (cases "bw_buf w = []")
    case True
    with assms show ?thesis by (rule bw_loop_empty_buffer)
  next
    case nonempty: False
    with False have "length p \<le> Available w" by auto
    then show ?thesis
      using assms by (auto simp: bw_loop_done intro!: exI[of _ p] exI[of _ w])
  qed
qed

lemma Write_healthy [stream_simps]:
  assumes "healthy w"
  shows "\<exists>w'. Write p w = Ret ((length p, None), w') \<and> healthy w' \<and> stream w' = stream w @ p"
proof -
  obtain p' w' where l: "bw_loop p 0 w = Some (p', length p - length p', w')" "healthy w'"
    "stream w' @ p' = stream w @ p" "length p' \<le> length p" "length p' \<le> Available w'"
    using bw_loop_healthy[OF assms, of p 0] by auto
  then show ?thesis
    by (auto simp: Write_def healthy_def stream_def Available_def)
qed

section \<open>When a write never returns\<close>

text \<open>
  \<open>TCPConn.Write\<close> answers \<open>(0, nil)\<close> once the wrapper is closed, which \<open>io.Writer\<close> forbids for
  a non-empty argument; with nothing buffered and an argument larger than the buffer the
  library's loop makes no progress and sees no error.
\<close>

definition stuck :: "bytes \<Rightarrow> bwriter \<Rightarrow> bool" where
  "stuck p w \<longleftrightarrow> closeFlag (bw_conn w) \<and> bw_err w = None \<and> bw_buf w = [] \<and> bw_size w < length p"

lemma bw_loop_stuck_step:
  assumes "stuck p w"
  shows "drop (fst (fst (TCPConn_Write p (bw_conn w)))) p = p"
    and "w\<lparr>bw_conn := snd (TCPConn_Write p (bw_conn w)),
            bw_err := snd (fst (TCPConn_Write p (bw_conn w)))\<rparr> = w"
  using assms by (auto simp: stuck_def TCPConn_Write_def)

lemma bw_loop_stuck: "stuck p w \<Longrightarrow> bw_loop p nn w = None"
proof (rule ccontr)
  assume st: "stuck p w" and "bw_loop p nn w \<noteq> None"
  then obtain r where ret: "bw_loop p nn w = Some r" by blast
  have "\<not> stuck p w"
  proof (rule bw_loop.raw_induct [where P = "\<lambda>p nn w r. \<not> stuck p w", OF _ ret])
    fix f p nn w r
    assume IH: "\<And>p nn w r. f p nn w = Some r \<Longrightarrow> \<not> stuck p w"
      and eq: "(if length p > Available w \<and> bw_err w = None
        then (if bw_buf w = []
              then f (drop (fst (fst (TCPConn_Write p (bw_conn w)))) p)
                   (nn + fst (fst (TCPConn_Write p (bw_conn w))))
                   (w\<lparr>bw_conn := snd (TCPConn_Write p (bw_conn w)),
                      bw_err := snd (fst (TCPConn_Write p (bw_conn w)))\<rparr>)
              else f (drop (Available w) p) (nn + Available w)
                   (snd (Flush (w\<lparr>bw_buf := bw_buf w @ take (Available w) p\<rparr>))))
        else Some (p, nn, w)) = Some r"
    show "\<not> stuck p w"
    proof
      assume s: "stuck p w"
      then have "length p > Available w \<and> bw_err w = None" "bw_buf w = []"
        by (auto simp: stuck_def Available_def)
      with eq bw_loop_stuck_step[OF s] have "\<exists>nn. f p nn w = Some r" by auto
      with IH s show False by blast
    qed
  qed
  with st show False by simp
qed

lemma bw_loop_open_empty:
  assumes "\<not> closeFlag (bw_conn w)" "bw_buf w = []"
  shows "\<exists>r. bw_loop p nn w = Some r"
proof (cases "length p > Available w \<and> bw_err w = None")
  case True
  obtain n e c where t: "TCPConn_Write p (bw_conn w) = ((n, e), c)"
    by (metis surj_pair)
  then have "e \<noteq> None \<or> n = length p"
    using assms by (auto simp: TCPConn_Write_def net_write_def split: option.splits if_splits)
  then have "\<exists>r. bw_loop (drop n p) (nn + n) (w\<lparr>bw_conn := c, bw_err := e\<rparr>) = Some r"
    by (auto simp: bw_loop_done)
  with True t assms show ?thesis
    by (subst bw_loop.simps) simp
next
  case False
  then show ?thesis by (metis bw_loop_done not_less)
qed

lemma Flush_closed:
  assumes "closeFlag (bw_conn w)" "bw_err w = None" "bw_buf w \<noteq> []"
  shows "bw_err (snd (Flush w)) = Some ErrShortWrite"
  using assms by (simp add: Flush_def TCPConn_Write_def Let_def)

lemma Flush_open:
  assumes "\<not> closeFlag (bw_conn w)" "bw_err w = None"
  shows "\<not> closeFlag (bw_conn (snd (Flush w)))"
    and "bw_err (snd (Flush w)) \<noteq> None \<or> bw_buf (snd (Flush w)) = []"
  using assms
  by (auto simp: Flush_def TCPConn_Write_def net_write_def Let_def split: option.splits if_splits)

lemma bw_loop_returns_iff: "(\<exists>r. bw_loop p nn w = Some r) \<longleftrightarrow> \<not> stuck p w"
proof
  show "\<not> stuck p w" if "\<exists>r. bw_loop p nn w = Some r"
    using that bw_loop_stuck[of p w nn] by auto
next
  assume ns: "\<not> stuck p w"
  show "\<exists>r. bw_loop p nn w = Some r"
  proof (cases "length p > Available w \<and> bw_err w = None")
    case False
    then show ?thesis by (metis bw_loop_done not_less)
  next
    case go: True
    show ?thesis
    proof (cases "bw_buf w = []")
      case True
      with ns go have "\<not> closeFlag (bw_conn w)" by (auto simp: stuck_def Available_def)
      with True show ?thesis using bw_loop_open_empty by blast
    next
      case False
      let ?w = "w\<lparr>bw_buf := bw_buf w @ take (Available w) p\<rparr>"
      have "\<exists>r. bw_loop (drop (Available w) p) (nn + Available w) (snd (Flush ?w)) = Some r"
      proof (cases "closeFlag (bw_conn w)")
        case True
        with False go have "bw_err (snd (Flush ?w)) \<noteq> None" by (subst Flush_closed) auto
        then show ?thesis by (simp add: bw_loop_done)
      next
        case False
        with go Flush_open[of ?w] have "\<not> closeFlag (bw_conn (snd (Flush ?w)))"
          and "bw_err (snd (Flush ?w)) \<noteq> None \<or> bw_buf (snd (Flush ?w)) = []" by auto
        then show ?thesis using bw_loop_open_empty by (metis bw_loop_done)
      qed
      with False go show ?thesis by (subst bw_loop.simps) simp
    qed
  qed
qed

lemma Write_Hang_iff: "Write p w = Hang \<longleftrightarrow> stuck p w"
proof (cases "bw_loop p 0 w")
  case None
  then show ?thesis using bw_loop_returns_iff[of p 0 w] by (simp add: Write_def)
next
  case (Some r)
  then show ?thesis
    using bw_loop_returns_iff[of p 0 w] by (auto simp: Write_def split: prod.splits)
qed

section \<open>A write without error writes everything\<close>

lemma TCPConn_Write_count: "fst (fst (TCPConn_Write p c)) \<le> length p"
  by (auto simp: TCPConn_Write_def net_write_def split: option.splits)

lemma bw_loop_count:
  assumes "bw_loop p nn w = Some (p', nn', w')"
  shows "nn' + length p' = nn + length p"
proof -
  have "case (p', nn', w') of (p', nn', w') \<Rightarrow> nn' + length p' = nn + length p"
  proof (rule bw_loop.raw_induct [where P = "\<lambda>p nn w (p', nn', w'). nn' + length p' = nn + length p",
        OF _ assms])
    fix f p nn w r
    assume IH: "\<And>p nn w r. f p nn w = Some r \<Longrightarrow>
        case r of (p', nn', w') \<Rightarrow> nn' + length p' = nn + length p"
      and eq: "(if length p > Available w \<and> bw_err w = None
        then (if bw_buf w = []
              then f (drop (fst (fst (TCPConn_Write p (bw_conn w)))) p)
                   (nn + fst (fst (TCPConn_Write p (bw_conn w))))
                   (w\<lparr>bw_conn := snd (TCPConn_Write p (bw_conn w)),
                      bw_err := snd (fst (TCPConn_Write p (bw_conn w)))\<rparr>)
              else f (drop (Available w) p) (nn + Available w)
                   (snd (Flush (w\<lparr>bw_buf := bw_buf w @ take (Available w) p\<rparr>))))
        else Some (p, nn, w)) = Some r"
    show "case r of (p', nn', w') \<Rightarrow> nn' + length p' = nn + length p"
      using eq TCPConn_Write_count[of p "bw_conn w"] by (auto split: if_splits dest!: IH)
  qed
  then show ?thesis by simp
qed

lemma Write_count: "Write p w = Ret ((n, None), w') \<Longrightarrow> n = length p"
  by (auto simp: Write_def dest!: bw_loop_count split: option.splits prod.splits if_splits)

end
