(* ===== verification/Mqtt_Pack.thy ===== *)
theory Mqtt_Pack
  imports Go_IO
begin

text \<open>
  The MQTT packet data of \<^verbatim>\<open>src/gate/base/mqtt/mqtt.go\<close>: the packet types, the structs
  (\<open>*string\<close> is \<open>string option\<close>, \<open>variable interface{}\<close> the sum of the structs it can hold), the
  connect flags, the accessors the handlers use and the constructors of outgoing packets.
\<close>

section \<open>Packet types\<close>

definition CONNECT :: byte where "CONNECT = 1"
definition CONNACK :: byte where "CONNACK = 2"
definition PUBLISH :: byte where "PUBLISH = 3"
definition PUBACK :: byte where "PUBACK = 4"
definition PUBREC :: byte where "PUBREC = 5"
definition PUBREL :: byte where "PUBREL = 6"
definition PUBCOMP :: byte where "PUBCOMP = 7"
definition SUBSCRIBE :: byte where "SUBSCRIBE = 8"
definition SUBACK :: byte where "SUBACK = 9"
definition UNSUBSCRIBE :: byte where "UNSUBSCRIBE = 10"
definition UNSUBACK :: byte where "UNSUBACK = 11"
definition PINGREQ :: byte where "PINGREQ = 12"
definition PINGRESP :: byte where "PINGRESP = 13"
definition DISCONNECT :: byte where "DISCONNECT = 14"

lemmas pack_types = CONNECT_def CONNACK_def PUBLISH_def PUBACK_def PUBREC_def PUBREL_def
  PUBCOMP_def SUBSCRIBE_def SUBACK_def UNSUBSCRIBE_def UNSUBACK_def PINGREQ_def PINGRESP_def
  DISCONNECT_def

section \<open>The structs\<close>

record connect =
  protocol :: "string option"
  version :: byte
  keep_alive_timer :: int
  return_code :: byte
  user_name :: bool
  password :: bool
  will_retain :: bool
  will_qos :: int
  will_flag :: bool
  clean_session :: bool
  rserved :: bool
  conn_id :: "string option"
  will_topic :: "string option"
  will_msg :: "string option"
  uname :: "string option"
  upassword :: "string option"

definition new_Connect :: connect where
  "new_Connect = \<lparr>protocol = None, version = 0, keep_alive_timer = 0, return_code = 0,
     user_name = False, password = False, will_retain = False, will_qos = 0, will_flag = False,
     clean_session = False, rserved = False, conn_id = None, will_topic = None, will_msg = None,
     uname = None, upassword = None\<rparr>"

record connack =
  reserved :: byte
  ack_return_code :: byte

record publish =
  topic_name :: "string option"
  pub_mid :: int
  pub_msg :: bytes

record puback =
  ack_mid :: int

record topics =
  top_name :: "string option"
  top_Qos :: byte

record subscribe =
  sub_mid :: int
  sub_topics :: "topics list"

record suback =
  suback_mid :: int
  suback_Qos :: byte

record unsubscribe =
  unsub_mid :: int
  unsub_topics :: "topics list"

record unsuback =
  unsuback_mid :: int

datatype pvariable =
    VNil
  | VConnect connect
  | VConnack connack
  | VPublish publish
  | VPuback puback
  | VSubscribe subscribe
  | VSuback suback
  | VUNSubscribe unsubscribe
  | VUNSuback unsuback

record pack =
  msg_type :: byte
  dup_flag :: byte
  qos_level :: byte
  retain :: byte
  pk_length :: int
  variable :: pvariable

definition new_Pack :: pack where
  "new_Pack = \<lparr>msg_type = 0, dup_flag = 0, qos_level = 0, retain = 0, pk_length = 0,
     variable = VNil\<rparr>"

section \<open>Accessors with a computation in them\<close>

definition GetUserName :: "connect \<Rightarrow> string option" where
  "GetUserName c = (if \<not> user_name c then Some '''' else uname c)"

definition GetPassword :: "connect \<Rightarrow> string option" where
  "GetPassword c = (if \<not> password c then Some '''' else upassword c)"

definition GetWillMsg :: "connect \<Rightarrow> bool \<times> string option \<times> string option" where
  "GetWillMsg c =
     (if \<not> will_flag c then (False, Some '''', Some '''') else (True, will_topic c, will_msg c))"

text \<open>\<open>GetKeepAlive\<close> also stores its default of 60 seconds.\<close>

definition GetKeepAlive :: "connect \<Rightarrow> int \<times> connect" where
  "GetKeepAlive c =
     (let c = (if keep_alive_timer c = 0 then c\<lparr>keep_alive_timer := 60\<rparr> else c)
      in (keep_alive_timer c, c))"

definition sub_addTopics :: "subscribe \<Rightarrow> topics \<Rightarrow> subscribe" where
  "sub_addTopics sub tp = sub\<lparr>sub_topics := sub_topics sub @ [tp]\<rparr>"

definition unsub_addTopics :: "unsubscribe \<Rightarrow> topics \<Rightarrow> unsubscribe" where
  "unsub_addTopics sub tp = sub\<lparr>unsub_topics := unsub_topics sub @ [tp]\<rparr>"

section \<open>The connect flags\<close>

definition parse_flags :: "byte \<Rightarrow> connect \<Rightarrow> connect" where
  "parse_flags b flag =
     (let flag = (if drop_bit 7 b \<noteq> 0 then flag\<lparr>user_name := True\<rparr> else flag);
          b = b AND 127;
          flag = (if drop_bit 6 b \<noteq> 0 then flag\<lparr>password := True\<rparr> else flag);
          b = b AND 63;
          flag = (if drop_bit 5 b \<noteq> 0 then flag\<lparr>will_retain := True\<rparr> else flag);
          b = b AND 31;
          flag = flag\<lparr>will_qos := uint (drop_bit 3 b)\<rparr>;
          b = b AND 7;
          flag = (if drop_bit 2 b \<noteq> 0 then flag\<lparr>will_flag := True\<rparr> else flag);
          b = b AND 3;
          flag = (if drop_bit 1 b \<noteq> 0 then flag\<lparr>clean_session := True\<rparr> else flag)
      in (if b AND 1 \<noteq> 0 then flag\<lparr>rserved := True\<rparr> else flag))"

section \<open>Constructors of outgoing packets\<close>

definition GetConnAckPack :: "byte \<Rightarrow> pack" where
  "GetConnAckPack rc = new_Pack\<lparr>msg_type := CONNACK,
     variable := VConnack \<lparr>reserved = 0, ack_return_code = rc\<rparr>\<rparr>"

definition GetPubPack :: "byte \<Rightarrow> byte \<Rightarrow> int \<Rightarrow> string option \<Rightarrow> bytes \<Rightarrow> pack" where
  "GetPubPack qos dup mid topic msg = new_Pack\<lparr>qos_level := qos, dup_flag := dup,
     msg_type := PUBLISH,
     variable := VPublish \<lparr>topic_name = topic, pub_mid = mid, pub_msg = msg\<rparr>\<rparr>"

definition GetPubAckPack :: "int \<Rightarrow> pack" where
  "GetPubAckPack mid = new_Pack\<lparr>msg_type := PUBACK, variable := VPuback \<lparr>ack_mid = mid\<rparr>\<rparr>"

definition GetPubRECPack :: "int \<Rightarrow> pack" where
  "GetPubRECPack mid = new_Pack\<lparr>msg_type := PUBREC, variable := VPuback \<lparr>ack_mid = mid\<rparr>\<rparr>"

definition GetPubRELPack :: "int \<Rightarrow> pack" where
  "GetPubRELPack mid = new_Pack\<lparr>msg_type := PUBREL, qos_level := 1, dup_flag := 0,
     variable := VPuback \<lparr>ack_mid = mid\<rparr>\<rparr>"

definition GetPubCOMPPack :: "int \<Rightarrow> pack" where
  "GetPubCOMPPack mid = new_Pack\<lparr>msg_type := PUBCOMP, variable := VPuback \<lparr>ack_mid = mid\<rparr>\<rparr>"

definition GetSubAckPack :: "int \<Rightarrow> pack" where
  "GetSubAckPack mid = new_Pack\<lparr>msg_type := SUBACK,
     variable := VSuback \<lparr>suback_mid = mid, suback_Qos = 0\<rparr>\<rparr>"

definition GetUNSubAckPack :: "int \<Rightarrow> pack" where
  "GetUNSubAckPack mid = new_Pack\<lparr>msg_type := UNSUBACK,
     variable := VUNSuback \<lparr>unsuback_mid = mid\<rparr>\<rparr>"

definition GetPingResp :: "byte \<Rightarrow> byte \<Rightarrow> pack" where
  "GetPingResp qos dup = new_Pack\<lparr>qos_level := qos, dup_flag := dup, msg_type := PINGRESP\<rparr>"

lemmas pack_constructors = GetConnAckPack_def GetPubPack_def GetPubAckPack_def GetPubRECPack_def
  GetPubRELPack_def GetPubCOMPPack_def GetSubAckPack_def GetUNSubAckPack_def GetPingResp_def
  new_Pack_def

section \<open>The flags read bit by bit\<close>

lemma drop_bit_masked_ne_0:
  "drop_bit n (b AND mask (Suc n)) \<noteq> 0 \<longleftrightarrow> bit b n" for b :: "'a::len word"
proof -
  have "drop_bit n (b AND mask (Suc n)) = of_bool (bit b n)"
    by (rule bit_word_eqI) (auto simp: bit_simps dest: bit_imp_le_length)
  then show ?thesis by simp
qed

lemma and_1_ne_0: "b AND 1 \<noteq> 0 \<longleftrightarrow> bit b 0" for b :: "'a::len word"
  by (simp add: and_one_eq odd_iff_mod_2_eq_one bit_0)

lemma mask_chain:
  "(b AND 127) AND 63 = b AND 63" "(b AND 127) AND 31 = b AND 31" "(b AND 127) AND 7 = b AND 7"
  "(b AND 127) AND 3 = b AND 3" "(b AND 127) AND 1 = b AND 1" "(b AND 63) AND 31 = b AND 31"
  "(b AND 63) AND 7 = b AND 7" "(b AND 63) AND 3 = b AND 3" "(b AND 63) AND 1 = b AND 1"
  "(b AND 31) AND 7 = b AND 7" "(b AND 31) AND 3 = b AND 3" "(b AND 31) AND 1 = b AND 1"
  "(b AND 7) AND 3 = b AND 3" "(b AND 7) AND 1 = b AND 1" "(b AND 3) AND 1 = b AND 1"
  for b :: byte
  by (simp_all add: and.assoc)

lemma flag_bits:
  "drop_bit 7 b \<noteq> 0 \<longleftrightarrow> bit b 7"
  "drop_bit 6 (b AND 127) \<noteq> 0 \<longleftrightarrow> bit b 6"
  "drop_bit 5 (b AND 63) \<noteq> 0 \<longleftrightarrow> bit b 5"
  "drop_bit 2 (b AND 7) \<noteq> 0 \<longleftrightarrow> bit b 2"
  "drop_bit 1 (b AND 3) \<noteq> 0 \<longleftrightarrow> bit b 1" for b :: byte
proof -
  have "b AND mask 8 = b" by (rule bit_word_eqI) (auto simp: bit_simps dest: bit_imp_le_length)
  then show "drop_bit 7 b \<noteq> 0 \<longleftrightarrow> bit b 7"
    using drop_bit_masked_ne_0[of 7 b] by (simp add: numeral_eq_Suc)
qed (use drop_bit_masked_ne_0[of 6 b] drop_bit_masked_ne_0[of 5 b] drop_bit_masked_ne_0[of 2 b]
      drop_bit_masked_ne_0[of 1 b] in \<open>simp_all add: mask_numeral mask_Suc_exp\<close>)

lemma parse_flags_eq:
  "parse_flags b c = c\<lparr>user_name := user_name c \<or> bit b 7, password := password c \<or> bit b 6,
     will_retain := will_retain c \<or> bit b 5, will_qos := uint (drop_bit 3 (b AND 31)),
     will_flag := will_flag c \<or> bit b 2, clean_session := clean_session c \<or> bit b 1,
     rserved := rserved c \<or> bit b 0\<rparr>"
  unfolding parse_flags_def Let_def mask_chain
  unfolding flag_bits and_1_ne_0
  by (cases c) simp

end
