(* ===== verification/Mqtt_Read.thy ===== *)
theory Mqtt_Read
  imports Mqtt_Pack "HOL-Library.Sublist"
begin

text \<open>
  \<open>ReadPack\<close> of \<^verbatim>\<open>src/gate/base/mqtt/mqtt.go\<close>: the fixed header, the remaining length, and one
  function per packet type for the variable header and payload. A read returns what Go returns
  (the value even when there is an error) and the rest of the stream. \<open>pack.length\<close> is at most
  \<open>127 * (1 + 128 + 128 * 128)\<close>, so Go's 64-bit arithmetic on it is exact and \<open>int\<close> models it.
\<close>

section \<open>Integers and strings\<close>

definition be16 :: "byte \<Rightarrow> byte \<Rightarrow> 16 word" where
  "be16 b0 b1 = push_bit 8 (ucast b0) OR ucast b1"

text \<open>
  \<open>readInt(r, length)\<close> reads \<open>length\<close> bytes and decodes the first two of them
  (\<open>binary.BigEndian.Uint16\<close>); every caller passes 2.
\<close>

definition readInt :: "reader \<Rightarrow> nat \<Rightarrow> (int \<times> go_error option) \<times> reader" where
  "readInt r n =
     (let ((buf, err), r) = ReadFull n r
      in if err \<noteq> None then ((0, err), r)
         else ((uint (be16 (buf ! 0) (buf ! 1)), None), r))"

definition readString :: "reader \<Rightarrow> (string \<times> int \<times> go_error option) \<times> reader" where
  "readString r =
     (let ((nn, err), r) = readInt r 2
      in if err \<noteq> None then (('''', nn, err), r)
         else if nn > 0
         then (let ((buf, err), r) = ReadFull (nat nn) r
               in ((if err = None then str_of_bytes buf else '''', nn, err), r))
         else (('''', nn, None), r))"

section \<open>The fixed header and the remaining length\<close>

definition parse_fixed :: "byte \<Rightarrow> pack" where
  "parse_fixed fixed =
     (let pk = new_Pack\<lparr>msg_type := drop_bit 4 fixed\<rparr>;
          fixed = fixed AND 15;
          pk = pk\<lparr>dup_flag := drop_bit 3 fixed\<rparr>;
          fixed = fixed AND 7;
          pk = pk\<lparr>qos_level := drop_bit 1 fixed\<rparr>
      in pk\<lparr>retain := fixed AND 1\<rparr>)"

function readLength ::
    "nat \<Rightarrow> int \<Rightarrow> int \<Rightarrow> byte \<Rightarrow> reader \<Rightarrow> (int \<times> go_error option) \<times> reader" where
  "readLength count_len len multiplier temp_byte r =
     (let count_len = count_len + 1;
          len = len + uint (temp_byte AND 127) * multiplier
      in if drop_bit 7 temp_byte \<noteq> 0 \<and> count_len < 4
         then (case ReadByte r of
                 (Inl e, r) \<Rightarrow> ((len, Some e), r)
               | (Inr b, r) \<Rightarrow> readLength count_len len (multiplier * 128) b r)
         else ((len, None), r))"
  by pat_completeness auto
termination
  by (relation "measure (\<lambda>(count_len, _). 4 - count_len)") auto

declare readLength.simps [simp del]

section \<open>CONNECT\<close>

text \<open>The optional password, user name and will of the payload, in reverse order of reading.\<close>

definition readConnect_password ::
    "connect \<Rightarrow> int \<Rightarrow> reader \<Rightarrow> (connect \<times> go_error option) \<times> reader" where
  "readConnect_password conn playload_len r =
     (if password conn \<and> playload_len > 0
      then (let ((s, n, err), r) = readString r;
                conn = conn\<lparr>upassword := Some s\<rparr>
            in if err \<noteq> None then ((conn, err), r)
               else (let playload_len = playload_len - n
                     in if playload_len < 0
                        then ((conn, Some (Errorf ''length error : %v'' [AI playload_len])), r)
                        else ((conn, None), r)))
      else ((conn, None), r))"

definition readConnect_uname ::
    "connect \<Rightarrow> int \<Rightarrow> reader \<Rightarrow> (connect \<times> go_error option) \<times> reader" where
  "readConnect_uname conn playload_len r =
     (if user_name conn \<and> playload_len > 0
      then (let ((s, n, err), r) = readString r;
                conn = conn\<lparr>uname := Some s\<rparr>
            in if err \<noteq> None then ((conn, err), r)
               else (let playload_len = playload_len - n
                     in if playload_len < 0
                        then ((conn, Some (Errorf ''length error : %v'' [AI playload_len])), r)
                        else readConnect_password conn playload_len r))
      else readConnect_password conn playload_len r)"

definition readConnect_will ::
    "connect \<Rightarrow> int \<Rightarrow> reader \<Rightarrow> (connect \<times> go_error option) \<times> reader" where
  "readConnect_will conn playload_len r =
     (if will_flag conn
      then (let ((s, n, err), r) = readString r;
                conn = conn\<lparr>will_topic := Some s\<rparr>
            in if err \<noteq> None then ((conn, err), r)
               else (let playload_len = playload_len - n
                     in if playload_len < 0
                        then ((conn, Some (Errorf ''length error : %v'' [AI playload_len])), r)
                        else (let ((s, n, err), r) = readString r;
                                  conn = conn\<lparr>will_msg := Some s\<rparr>
                              in if err \<noteq> None then ((conn, err), r)
                                 else readConnect_uname conn (playload_len - n) r)))
      else readConnect_uname conn playload_len r)"

definition readConnect_id ::
    "connect \<Rightarrow> int \<Rightarrow> reader \<Rightarrow> (connect \<times> go_error option) \<times> reader" where
  "readConnect_id conn playload_len r =
     (let ((s, n, err), r) = readString r;
          conn = conn\<lparr>conn_id := Some s\<rparr>
      in if err \<noteq> None then ((conn, err), r)
         else if n > 64 \<or> n < 1
         then ((conn\<lparr>return_code := 2\<rparr>,
                Some (Errorf ''Identifier Rejected length is:%v'' [AI n])), r)
         else (let playload_len = playload_len - n
               in if n < 1 \<and> (will_flag conn \<or> password conn \<or> n < 0)
                  then ((conn, Some (Errorf ''length error : %v'' [AI playload_len])), r)
                  else readConnect_will conn playload_len r))"

definition readConnect :: "int \<Rightarrow> reader \<Rightarrow> (connect \<times> go_error option) \<times> reader" where
  "readConnect len r =
     (let ((s, n, err), r) = readString r;
          conn = new_Connect\<lparr>protocol := Some s\<rparr>
      in if err \<noteq> None then ((conn, err), r)
         else if n > len - 4
         then ((conn, Some (Errorf ''out of range:%v'' [AI (len - n)])), r)
         else (case ReadByte r of
             (Inl e, r) \<Rightarrow> ((conn, Some e), r)
           | (Inr v, r) \<Rightarrow>
               (let conn = conn\<lparr>version := v\<rparr>
                in case ReadByte r of
                     (Inl e, r) \<Rightarrow> ((conn, Some e), r)
                   | (Inr flags, r) \<Rightarrow>
                       (let ((k, err), r) = readInt r 2;
                            conn = conn\<lparr>keep_alive_timer := k\<rparr>
                        in if err \<noteq> None then ((conn, err), r)
                           else readConnect_id (parse_flags flags conn) (len - 2 - n - 4) r))))"

section \<open>PUBLISH and the acknowledgements\<close>

definition readPublish ::
    "byte \<Rightarrow> int \<Rightarrow> reader \<Rightarrow> (publish \<times> go_error option) \<times> reader" where
  "readPublish qos len r =
     (let ((s, n, err), r) = readString r;
          pub = \<lparr>topic_name = Some s, pub_mid = 0, pub_msg = []\<rparr>
      in if err \<noteq> None then ((pub, err), r)
         else
          (let vlen = len - n - 2
           in if n < 1 then ((pub, Some (Errorf ''length error :%v'' [AI vlen])), r)
              else if qos > 0 \<and> vlen < 2
              then ((pub, Some (Errorf ''length error publish :%v'' [AI vlen])), r)
              else
               (let ((mid, err), r) = (if qos > 0 then readInt r 2 else ((0, None), r));
                    pub = pub\<lparr>pub_mid := mid\<rparr>
                in if err \<noteq> None then ((pub, err), r)
                   else (let vlen = (if qos > 0 then vlen - 2 else vlen)
                         in if vlen \<le> 0 then ((pub, None), r)
                            else (let ((buf, err), r) = ReadFull (nat vlen) r
                                  in ((pub\<lparr>pub_msg := buf\<rparr>, err), r))))))"

text \<open>PUBACK, PUBREL, PUBREC and PUBCOMP have the same case body.\<close>

definition readPuback :: "byte \<Rightarrow> int \<Rightarrow> reader \<Rightarrow> (pvariable \<times> go_error option) \<times> reader" where
  "readPuback typ len r =
     (if len = 2
      then (let ((mid, err), r) = readInt r 2
            in if err \<noteq> None then ((VNil, err), r)
               else ((VPuback \<lparr>ack_mid = mid\<rparr>, None), r))
      else ((VNil, Some (Errorf ''Pack(%v) length(%v) != 2'' [AI (uint typ), AI len])), r))"

definition readSuback :: "byte \<Rightarrow> int \<Rightarrow> reader \<Rightarrow> (pvariable \<times> go_error option) \<times> reader" where
  "readSuback typ len r =
     (if len = 3
      then (let ((mid, err), r) = readInt r 2
            in if err \<noteq> None then ((VNil, err), r)
               else (case ReadByte r of
                       (Inl e, r) \<Rightarrow> ((VNil, Some e), r)
                     | (Inr q, r) \<Rightarrow>
                         ((VSuback \<lparr>suback_mid = mid, suback_Qos = q\<rparr>, None), r)))
      else ((VNil, Some (Errorf ''Pack(%v) length(%v) != 3'' [AI (uint typ), AI len])), r))"

definition readUNSuback :: "byte \<Rightarrow> int \<Rightarrow> reader \<Rightarrow> (pvariable \<times> go_error option) \<times> reader" where
  "readUNSuback typ len r =
     (if len = 2
      then (let ((mid, err), r) = readInt r 2
            in if err \<noteq> None then ((VNil, err), r)
               else ((VUNSuback \<lparr>unsuback_mid = mid\<rparr>, None), r))
      else ((VNil, Some (Errorf ''Pack(%v) length(%v) != 1'' [AI (uint typ), AI len])), r))"

lemma readInt_nonneg: "((k, err), r') = readInt r n \<Longrightarrow> 0 \<le> k"
  by (auto simp: readInt_def Let_def split: prod.splits if_splits)

section \<open>SUBSCRIBE and UNSUBSCRIBE\<close>

text \<open>
  The two topic loops. Inside the loop \<open>err\<close> is a fresh variable of the loop body
  (\<open>nlen, err := readInt(r, 2)\<close>), so an error ends the loop but is not the error \<open>ReadPack\<close>
  returns; and the error of reading a topic name is overwritten or ignored.
\<close>

function readTopics_sub :: "subscribe \<Rightarrow> int \<Rightarrow> reader \<Rightarrow> subscribe \<times> reader" where
  "readTopics_sub sub vlen r =
     (if vlen > 3
      then (let ((nlen, err), r) = readInt r 2
            in if err \<noteq> None then (sub, r)
               else (let ((buf, _), r) = ReadFull (nat nlen) r
                     in case ReadByte r of
                          (Inl _, r) \<Rightarrow> (sub, r)
                        | (Inr tQos, r) \<Rightarrow>
                            readTopics_sub
                              (sub_addTopics sub \<lparr>top_name = Some (str_of_bytes buf), top_Qos = tQos\<rparr>)
                              (vlen - 2 - nlen - 1) r))
      else (sub, r))"
  by pat_completeness auto
termination
  by (relation "measure (\<lambda>(_, vlen, _). nat vlen)") (auto dest!: readInt_nonneg)

function readTopics_unsub :: "unsubscribe \<Rightarrow> int \<Rightarrow> reader \<Rightarrow> unsubscribe \<times> reader" where
  "readTopics_unsub sub vlen r =
     (if vlen > 3
      then (let ((nlen, err), r) = readInt r 2
            in if err \<noteq> None then (sub, r)
               else (let ((buf, _), r) = ReadFull (nat nlen) r
                     in readTopics_unsub
                          (unsub_addTopics sub \<lparr>top_name = Some (str_of_bytes buf), top_Qos = 0\<rparr>)
                          (vlen - 2 - nlen) r))
      else (sub, r))"
  by pat_completeness auto
termination
  by (relation "measure (\<lambda>(_, vlen, _). nat vlen)") (auto dest!: readInt_nonneg)

declare readTopics_sub.simps [simp del] readTopics_unsub.simps [simp del]

definition readSubscribe :: "int \<Rightarrow> reader \<Rightarrow> (subscribe \<times> go_error option) \<times> reader" where
  "readSubscribe len r =
     (let ((mid, err), r) = readInt r 2;
          sub = \<lparr>sub_mid = mid, sub_topics = []\<rparr>
      in if err \<noteq> None then ((sub, err), r)
         else (let (sub, r) = readTopics_sub sub len r in ((sub, None), r)))"

definition readUNSubscribe :: "int \<Rightarrow> reader \<Rightarrow> (unsubscribe \<times> go_error option) \<times> reader" where
  "readUNSubscribe len r =
     (let ((mid, err), r) = readInt r 2;
          sub = \<lparr>unsub_mid = mid, unsub_topics = []\<rparr>
      in if err \<noteq> None then ((sub, err), r)
         else (let (sub, r) = readTopics_unsub sub len r in ((sub, None), r)))"

section \<open>ReadPack\<close>

definition wrapVariable ::
    "('a \<Rightarrow> pvariable) \<Rightarrow> ('a \<times> go_error option) \<times> reader \<Rightarrow> (pvariable \<times> go_error option) \<times> reader"
where
  "wrapVariable C res = (let ((v, err), r) = res in ((C v, err), r))"

definition readDefault :: "int \<Rightarrow> reader \<Rightarrow> (pvariable \<times> go_error option) \<times> reader" where
  "readDefault len r =
     (if len > 0 then (let ((_, err), r) = ReadFull (nat len) r in ((VNil, err), r))
      else ((VNil, None), r))"

definition readVariable ::
    "byte \<Rightarrow> byte \<Rightarrow> int \<Rightarrow> reader \<Rightarrow> (pvariable \<times> go_error option) \<times> reader" where
  "readVariable typ qos len r =
     (if typ = CONNECT then wrapVariable VConnect (readConnect len r)
      else if typ = PUBLISH then wrapVariable VPublish (readPublish qos len r)
      else if typ = PUBACK then readPuback typ len r
      else if typ = PUBREL then readPuback typ len r
      else if typ = PUBREC then readPuback typ len r
      else if typ = PUBCOMP then readPuback typ len r
      else if typ = SUBSCRIBE then wrapVariable VSubscribe (readSubscribe len r)
      else if typ = SUBACK then readSuback typ len r
      else if typ = UNSUBSCRIBE then wrapVariable VUNSubscribe (readUNSubscribe len r)
      else if typ = UNSUBACK then readUNSuback typ len r
      else if typ = PINGREQ then ((VNil, None), r)
      else if typ = DISCONNECT then ((VNil, None), r)
      else readDefault len r)"

definition ReadPack :: "reader \<Rightarrow> int \<Rightarrow> (pack option \<times> go_error option) \<times> reader" where
  "ReadPack r max_pack_length =
     (case ReadByte r of
        (Inl e, r) \<Rightarrow> ((None, Some e), r)
      | (Inr fixed, r) \<Rightarrow>
          (let pk = parse_fixed fixed
           in case ReadByte r of
                (Inl e, r) \<Rightarrow> ((Some pk, Some e), r)
              | (Inr temp_byte, r) \<Rightarrow>
                  (let ((len, err), r) = readLength 1 0 1 temp_byte r;
                       pk = pk\<lparr>pk_length := len\<rparr>
                   in if err \<noteq> None then ((Some pk, err), r)
                      else if len > max_pack_length
                      then ((Some pk, Some (Errorf ''pack out of max length:%v''
                                              [AI max_pack_length])), r)
                      else (let ((v, err), r) = readVariable (msg_type pk) (qos_level pk) len r
                            in ((Some (pk\<lparr>variable := v\<rparr>), err), r)))))"

section \<open>Reads only move forward\<close>

text \<open>A read returns a later position of the same stream.\<close>

definition advances :: "reader \<Rightarrow> reader \<Rightarrow> bool" where
  "advances r r' \<longleftrightarrow> rd_end r' = rd_end r \<and> suffix (rd_data r') (rd_data r)"

lemma advances_refl [simp, intro]: "advances r r"
  by (simp add: advances_def)

lemma advances_trans: "advances r1 r2 \<Longrightarrow> advances r2 r3 \<Longrightarrow> advances r1 r3"
  by (auto simp: advances_def)

named_theorems adv_dest \<open>the position after a read, from its equation\<close>

lemma ReadByte_adv [adv_dest]: "ReadByte r = (x, r') \<Longrightarrow> advances r r'"
  by (auto simp: ReadByte_def advances_def suffix_def split: list.splits)

lemma ReadByte_Inr:
  "ReadByte r = (Inr b, r') \<Longrightarrow> advances r r' \<and> length (rd_data r') < length (rd_data r)"
  by (auto simp: ReadByte_def advances_def suffix_def split: list.splits)

lemma ReadFull_adv [adv_dest]: "ReadFull n r = (x, r') \<Longrightarrow> advances r r'"
  by (auto simp: ReadFull_def Let_def advances_def suffix_drop)

lemma readInt_adv [adv_dest]: "readInt r n = (x, r') \<Longrightarrow> advances r r'"
  by (auto simp: readInt_def dest: adv_dest split: prod.splits if_splits)

lemma readInt_pos_adv: "readInt r n = ((k, err), r') \<Longrightarrow> 0 \<le> k \<and> advances r r'"
  using readInt_nonneg[OF sym] readInt_adv by blast

lemma readString_adv [adv_dest]: "readString r = (x, r') \<Longrightarrow> advances r r'"
  by (auto simp: readString_def dest!: adv_dest intro: advances_trans split: prod.splits if_splits)

lemma readLength_adv [adv_dest]: "readLength c l m b r = (x, r') \<Longrightarrow> advances r r'"
proof (induction "4 - c" arbitrary: c l m b r x r' rule: less_induct)
  case less
  from less.prems show ?case
    by (subst (asm) readLength.simps)
      (auto simp: Let_def dest!: adv_dest less.hyps[rotated] intro: advances_trans
        split: if_splits prod.splits sum.splits)
qed

lemma readTopics_sub_adv [adv_dest]: "readTopics_sub s v r = (x, r') \<Longrightarrow> advances r r'"
proof (induction "nat v" arbitrary: s v r x r' rule: less_induct)
  case less
  note IH = less.hyps[rotated]
  from less.prems show ?case
    by (subst (asm) readTopics_sub.simps)
      (auto dest!: readInt_pos_adv ReadFull_adv ReadByte_adv IH intro: advances_trans
        split: if_splits prod.splits sum.splits)
qed

lemma readTopics_unsub_adv [adv_dest]: "readTopics_unsub s v r = (x, r') \<Longrightarrow> advances r r'"
proof (induction "nat v" arbitrary: s v r x r' rule: less_induct)
  case less
  note IH = less.hyps[rotated]
  from less.prems show ?case
    by (subst (asm) readTopics_unsub.simps)
      (auto dest!: readInt_pos_adv ReadFull_adv ReadByte_adv IH intro: advances_trans
        split: if_splits prod.splits sum.splits)
qed

lemma readConnect_password_adv [adv_dest]:
  "readConnect_password c l r = (x, r') \<Longrightarrow> advances r r'"
  by (auto simp: readConnect_password_def Let_def dest!: readString_adv split: if_splits prod.splits)

lemma readConnect_uname_adv [adv_dest]: "readConnect_uname c l r = (x, r') \<Longrightarrow> advances r r'"
  by (auto simp: readConnect_uname_def Let_def dest!: readString_adv readConnect_password_adv
      intro: advances_trans split: if_splits prod.splits)

lemma readConnect_will_adv [adv_dest]: "readConnect_will c l r = (x, r') \<Longrightarrow> advances r r'"
  by (auto simp: readConnect_will_def Let_def dest!: readString_adv readConnect_uname_adv
      intro: advances_trans split: if_splits prod.splits)

lemma readConnect_id_adv [adv_dest]: "readConnect_id c l r = (x, r') \<Longrightarrow> advances r r'"
  by (auto simp: readConnect_id_def Let_def dest!: readString_adv readConnect_will_adv
      intro: advances_trans split: if_splits prod.splits)

lemma readConnect_adv [adv_dest]: "readConnect l r = (x, r') \<Longrightarrow> advances r r'"
  by (auto simp: readConnect_def Let_def dest!: readString_adv ReadByte_adv readInt_adv readConnect_id_adv
      intro: advances_trans split: if_splits prod.splits sum.splits) (meson advances_trans)

lemma readPublish_adv [adv_dest]: "readPublish q l r = (x, r') \<Longrightarrow> advances r r'"
  by (auto simp: readPublish_def Let_def dest!: readString_adv readInt_adv ReadFull_adv
      intro: advances_trans split: if_splits prod.splits)

lemma readVariable_adv [adv_dest]: "readVariable t q l r = (x, r') \<Longrightarrow> advances r r'"
  by (auto simp: readVariable_def wrapVariable_def readPuback_def readSuback_def readUNSuback_def
      readDefault_def readSubscribe_def readUNSubscribe_def Let_def dest!: adv_dest
      intro: advances_trans split: if_splits prod.splits sum.splits)

lemma ReadPack_adv [adv_dest]: "ReadPack r m = (x, r') \<Longrightarrow> advances r r'"
  by (auto simp: ReadPack_def Let_def dest!: ReadByte_adv readLength_adv readVariable_adv
      intro: advances_trans split: if_splits prod.splits sum.splits)

section \<open>What a successful read has established\<close>

lemma uint_and_127: "uint (b AND 127) \<le> 127" for b :: byte
proof -
  have "b AND 127 \<le> 127" by (rule word_and_le1)
  then show ?thesis by (simp add: word_le_def)
qed

lemma readLength_bounds:
  "readLength c len m b r = ((len', err), r') \<Longrightarrow> 1 \<le> c \<Longrightarrow> c \<le> 3 \<Longrightarrow> m = 128 ^ (c - 1) \<Longrightarrow>
   0 \<le> len \<Longrightarrow> len < m \<Longrightarrow> 0 \<le> len' \<and> len' < 128 ^ 3"
proof (induction "4 - c" arbitrary: c len m b r rule: less_induct)
  case less
  let ?l = "len + uint (b AND 127) * m"
  have mpos: "0 < m" using less.prems by simp
  have step: "0 \<le> ?l" "?l < m * 128"
  proof -
    show "0 \<le> ?l" using less.prems mpos by simp
    have "uint (b AND 127) * m \<le> 127 * m" using uint_and_127 mpos by (intro mult_right_mono) auto
    then show "?l < m * 128" using less.prems by linarith
  qed
  have m3: "m * 128 \<le> 128 ^ 3"
  proof -
    have "m * 128 = 128 ^ c" using less.prems by (cases c) auto
    then show ?thesis using less.prems by (simp only:) (intro power_increasing, auto)
  qed
  from less.prems(1) consider (stop) "len' = ?l"
    | (more) b' r1 where "c < 3"
      "readLength (c + 1) ?l (m * 128) b' r1 = ((len', err), r')"
    by (subst (asm) readLength.simps) (auto simp: Let_def split: if_splits prod.splits sum.splits)
  then show ?case
  proof cases
    case stop
    with step m3 show ?thesis by linarith
  next
    case more
    have "m * 128 = 128 ^ (c + 1 - 1)" using less.prems by (cases c) auto
    with more step less.prems show ?thesis by (intro less.hyps[OF _ more(2)]) auto
  qed
qed

text \<open>
  The packets the handlers may rely on: the variable part has the dynamic type the packet type
  announces, and the pointers the handlers dereference are not nil.
\<close>

definition variable_ok :: "byte \<Rightarrow> pvariable \<Rightarrow> bool" where
  "variable_ok t v \<longleftrightarrow>
     (t = CONNECT \<longrightarrow> (\<exists>c. v = VConnect c \<and> protocol c \<noteq> None \<and> conn_id c \<noteq> None)) \<and>
     (t = PUBLISH \<longrightarrow> (\<exists>pub s. v = VPublish pub \<and> topic_name pub = Some s \<and> s \<noteq> [])) \<and>
     (t \<in> {PUBACK, PUBREC, PUBREL, PUBCOMP} \<longrightarrow> (\<exists>a. v = VPuback a)) \<and>
     (t = SUBSCRIBE \<longrightarrow> (\<exists>s. v = VSubscribe s \<and>
        (\<forall>tp \<in> set (sub_topics s). top_name tp \<noteq> None))) \<and>
     (t = SUBACK \<longrightarrow> (\<exists>a. v = VSuback a)) \<and>
     (t = UNSUBSCRIBE \<longrightarrow> (\<exists>s. v = VUNSubscribe s \<and>
        (\<forall>tp \<in> set (unsub_topics s). top_name tp \<noteq> None))) \<and>
     (t = UNSUBACK \<longrightarrow> (\<exists>a. v = VUNSuback a))"

definition pack_ok :: "pack \<Rightarrow> bool" where
  "pack_ok p \<longleftrightarrow> variable_ok (msg_type p) (variable p)"

lemma readTopics_sub_names:
  "readTopics_sub s v r = (s', r') \<Longrightarrow> \<forall>t \<in> set (sub_topics s). top_name t \<noteq> None \<Longrightarrow>
   \<forall>t \<in> set (sub_topics s'). top_name t \<noteq> None"
proof (induction "nat v" arbitrary: s v r rule: less_induct)
  case less
  from less.prems(1) show ?case
    by (subst (asm) readTopics_sub.simps)
      (use less.prems(2) in \<open>auto simp: sub_addTopics_def dest!: readInt_pos_adv less.hyps[rotated]
        split: if_splits prod.splits sum.splits\<close>)
qed

lemma readTopics_unsub_names:
  "readTopics_unsub s v r = (s', r') \<Longrightarrow> \<forall>t \<in> set (unsub_topics s). top_name t \<noteq> None \<Longrightarrow>
   \<forall>t \<in> set (unsub_topics s'). top_name t \<noteq> None"
proof (induction "nat v" arbitrary: s v r rule: less_induct)
  case less
  from less.prems(1) show ?case
    by (subst (asm) readTopics_unsub.simps)
      (use less.prems(2) in \<open>auto simp: unsub_addTopics_def dest!: readInt_pos_adv less.hyps[rotated]
        split: if_splits prod.splits\<close>)
qed

lemma readString_length: "readString r = ((s, n, None), r') \<Longrightarrow> n = int (length s)"
  by (auto simp: readString_def Let_def ReadFull_ok dest!: readInt_pos_adv split: prod.splits if_splits)

lemma readConnect_tail_frame:
  "readConnect_password c l r = ((c', err), r') \<Longrightarrow> protocol c' = protocol c \<and> conn_id c' = conn_id c"
  "readConnect_uname c l r = ((c', err), r') \<Longrightarrow> protocol c' = protocol c \<and> conn_id c' = conn_id c"
  "readConnect_will c l r = ((c', err), r') \<Longrightarrow> protocol c' = protocol c \<and> conn_id c' = conn_id c"
  by (auto simp: readConnect_password_def readConnect_uname_def readConnect_will_def Let_def
      split: prod.splits if_splits)

lemma readConnect_id_sets:
  "readConnect_id c l r = ((c', err), r') \<Longrightarrow> protocol c' = protocol c \<and> conn_id c' \<noteq> None"
  by (auto simp: readConnect_id_def Let_def dest!: readConnect_tail_frame(3)
      split: prod.splits if_splits)

lemma parse_flags_frame:
  "protocol (parse_flags b c) = protocol c" "conn_id (parse_flags b c) = conn_id c"
  by (simp_all add: parse_flags_eq)

lemma readConnect_sets:
  "readConnect l r = ((c, None), r') \<Longrightarrow> protocol c \<noteq> None \<and> conn_id c \<noteq> None"
  by (auto simp: readConnect_def Let_def parse_flags_frame dest!: readConnect_id_sets
      split: prod.splits if_splits sum.splits)

lemma readPublish_sets:
  "readPublish q l r = ((p, None), r') \<Longrightarrow> \<exists>s. topic_name p = Some s \<and> s \<noteq> []"
  by (auto simp: readPublish_def Let_def dest!: readString_length split: prod.splits if_splits)

lemma readSubscribe_names:
  "readSubscribe l r = ((s, None), r') \<Longrightarrow> \<forall>t \<in> set (sub_topics s). top_name t \<noteq> None"
  by (auto simp: readSubscribe_def Let_def dest!: readTopics_sub_names split: prod.splits if_splits)

lemma readUNSubscribe_names:
  "readUNSubscribe l r = ((s, None), r') \<Longrightarrow> \<forall>t \<in> set (unsub_topics s). top_name t \<noteq> None"
  by (auto simp: readUNSubscribe_def Let_def dest!: readTopics_unsub_names split: prod.splits if_splits)

lemma readVariable_ok:
  assumes "readVariable t q l r = ((v, None), r')"
  shows "variable_ok t v"
  using assms unfolding variable_ok_def
  by (auto simp: readVariable_def pack_types wrapVariable_def readPuback_def readSuback_def
      readUNSuback_def Let_def dest: readConnect_sets readPublish_sets readSubscribe_names
      readUNSubscribe_names split: if_splits prod.splits sum.splits)

lemma ReadPack_success:
  assumes "ReadPack r m = ((p, None), r')"
  shows "\<exists>pk. p = Some pk \<and> pack_ok pk \<and> 0 \<le> pk_length pk \<and> pk_length pk \<le> m \<and>
      pk_length pk < 128 ^ 3"
    and "length (rd_data r') + 2 \<le> length (rd_data r)"
proof -
  from assms obtain b r1 t r2 len r3 v where
    steps: "ReadByte r = (Inr b, r1)" "ReadByte r1 = (Inr t, r2)"
      "readLength 1 0 1 t r2 = ((len, None), r3)" "len \<le> m"
      "readVariable (msg_type (parse_fixed b)) (qos_level (parse_fixed b)) len r3 = ((v, None), r')"
      and p: "p = Some ((parse_fixed b)\<lparr>pk_length := len, variable := v\<rparr>)"
    by (auto simp: ReadPack_def Let_def split: prod.splits sum.splits if_splits)
  have "0 \<le> len \<and> len < 128 ^ 3"
    using readLength_bounds[OF steps(3)] by simp
  moreover have "pack_ok ((parse_fixed b)\<lparr>pk_length := len, variable := v\<rparr>)"
    using readVariable_ok[OF steps(5)] by (simp add: pack_ok_def)
  ultimately show "\<exists>pk. p = Some pk \<and> pack_ok pk \<and> 0 \<le> pk_length pk \<and> pk_length pk \<le> m \<and>
      pk_length pk < 128 ^ 3"
    using steps(4) p by simp
  have "suffix (rd_data r') (rd_data r2)"
    using advances_trans[OF readLength_adv[OF steps(3)] readVariable_adv[OF steps(5)]]
    by (simp add: advances_def)
  then have "length (rd_data r') \<le> length (rd_data r2)" by (rule suffix_length_le)
  with ReadByte_Inr[OF steps(1)] ReadByte_Inr[OF steps(2)]
  show "length (rd_data r') + 2 \<le> length (rd_data r)" by linarith
qed

section \<open>A source of packets\<close>

text \<open>
  What a read loop relies on: reading moves forward in one stream, and a packet that is delivered
  has used up input. So at most \<open>length (rd_data r)\<close> packets are delivered.
\<close>

locale packet_source =
  fixes fetch :: "reader \<Rightarrow> 'p \<times> reader"
    and delivered :: "'p \<Rightarrow> bool"
  assumes fetch_advances: "fetch r = (p, r') \<Longrightarrow> advances r r'"
    and fetch_consumes: "fetch r = (p, r') \<Longrightarrow> delivered p \<Longrightarrow> length (rd_data r') < length (rd_data r)"
begin

lemma deliveries_bounded:
  assumes "\<And>i. i < n \<Longrightarrow> delivered (fst (fetch (rs i))) \<and> rs (Suc i) = snd (fetch (rs i))"
  shows "n + length (rd_data (rs n)) \<le> length (rd_data (rs 0))"
  using assms
proof (induction n)
  case (Suc n)
  then have "n + length (rd_data (rs n)) \<le> length (rd_data (rs 0))" by simp
  moreover have "length (rd_data (rs (Suc n))) < length (rd_data (rs n))"
    using Suc.prems[of n] fetch_consumes[of "rs n"] by (metis lessI prod.collapse)
  ultimately show ?case by linarith
qed simp

end

interpretation mqtt_in: packet_source "\<lambda>r. ReadPack r m" "\<lambda>(p, err). err = None" for m
  by unfold_locales (auto dest: ReadPack_adv ReadPack_success(2))

section \<open>Properties\<close>

text \<open>C23: \<open>ReadPack\<close> is total and its successes can be relied on: on any input whatever, if it
  reports no error it returns a packet whose variable part has the dynamic type the handlers
  assert for its packet type with the pointers they dereference set, whose length is within the
  limit it was given and below \<open>128 ^ 3\<close>, and it has consumed at least two bytes of the input and
  nothing else.\<close>

theorem read_pack_success_is_safe:
  assumes "ReadPack r m = ((p, None), r')"
  shows "\<exists>pk. p = Some pk \<and> pack_ok pk \<and> 0 \<le> pk_length pk \<and> pk_length pk \<le> m \<and>
      pk_length pk < 128 ^ 3 \<and> length (rd_data r') + 2 \<le> length (rd_data r) \<and>
      suffix (rd_data r') (rd_data r)"
  using ReadPack_success[OF assms] ReadPack_adv[OF assms] by (auto simp: advances_def)

theorem read_pack_success_is_safe_witness:
  "\<exists>pk. Some (new_Pack\<lparr>msg_type := PINGREQ\<rparr>) = Some pk \<and> pack_ok pk \<and> 0 \<le> pk_length pk \<and>
      pk_length pk \<le> 1024 \<and> pk_length pk < 128 ^ 3 \<and>
      length (rd_data \<lparr>rd_data = [5], rd_end = EOF\<rparr>) + 2 \<le> length (rd_data \<lparr>rd_data = [192, 0, 5], rd_end = EOF\<rparr>) \<and>
      suffix (rd_data \<lparr>rd_data = [5], rd_end = EOF\<rparr>) (rd_data \<lparr>rd_data = [192, 0, 5], rd_end = EOF\<rparr>)"
  by (rule read_pack_success_is_safe)
    (simp add: ReadPack_def ReadByte_def parse_fixed_def readLength.simps[of "Suc 0"] readVariable_def
      pack_types new_Pack_def)

end
