(* ===== verification/Mqtt_Write.thy ===== *)
theory Mqtt_Write
  imports Mqtt_Pack
begin

text \<open>
  \<open>DelayWritePack\<close>, \<open>WritePack\<close> and their helpers of \<^verbatim>\<open>src/gate/base/mqtt/mqtt.go\<close>, over the
  buffered writer of \<open>Go_IO\<close>. A writer call returns an error and the writer, panics (a failed
  type assertion, a nil pointer, an index out of range) or never returns. On a healthy writer
  each call appends exactly the bytes of \<open>encode_pack\<close>, the wire format as a pure function.
\<close>

type_synonym wcall = "bwriter \<Rightarrow> (go_error option \<times> bwriter) outcome"

text \<open>\<open>if err = f(); err != nil { return err }\<close> followed by the rest.\<close>

definition wthen :: "wcall \<Rightarrow> wcall \<Rightarrow> wcall" where
  "wthen f g w =
     outcome_bind (f w) (\<lambda>(err, w). if err \<noteq> None then Ret (err, w) else g w)"

definition wdone :: wcall where
  "wdone w = Ret (None, w)"

fun wthen_all :: "wcall list \<Rightarrow> wcall" where
  "wthen_all [] = wdone"
| "wthen_all (f # fs) = wthen f (wthen_all fs)"

section \<open>Primitive writes\<close>

partial_function (option) writeFull_loop ::
    "bytes \<Rightarrow> nat \<Rightarrow> nat \<Rightarrow> bwriter \<Rightarrow> (go_error option \<times> bwriter) outcome option" where
  "writeFull_loop b hasRead n w =
     (if n < length b
      then (case Write (drop hasRead b) w of
              Hang \<Rightarrow> None
            | Panic s \<Rightarrow> Some (Panic s)
            | Ret res \<Rightarrow>
                if snd (fst res) \<noteq> None then Some (Ret (snd (fst res), snd res))
                else writeFull_loop b (hasRead + fst (fst res)) (fst (fst res)) (snd res))
      else Some (Ret (None, w)))"

definition writeFull :: "bytes \<Rightarrow> wcall" where
  "writeFull b w = (case writeFull_loop b 0 0 w of None \<Rightarrow> Hang | Some res \<Rightarrow> res)"

definition PutUint16 :: "16 word \<Rightarrow> bytes" where
  "PutUint16 v = [ucast (drop_bit 8 v), ucast v]"

text \<open>\<open>writeInt(w, i, size)\<close>; every caller passes size 2.\<close>

definition writeInt :: "int \<Rightarrow> wcall" where
  "writeInt i = writeFull (PutUint16 (word_of_int i))"

definition writeString :: "string option \<Rightarrow> wcall" where
  "writeString s w =
     (case s of
        None \<Rightarrow> Ret (Some (Errorf ''nil pointer'' []), w)
      | Some s \<Rightarrow>
          (let data = bytes_of_str s
           in wthen (writeInt (int (length data))) (writeFull data) w))"

text \<open>The loop of \<open>getRemainingLength\<close>: \<open>b\<close> has four cells, \<open>count\<close> of them filled.\<close>

function getRemainingLength_loop :: "bytes \<Rightarrow> nat \<Rightarrow> bytes outcome" where
  "getRemainingLength_loop b len =
     (let digit = len mod 128;
          len = len div 128
      in if length b \<ge> 4 then Panic ''index out of range''
         else if len > 0
         then getRemainingLength_loop (b @ [of_nat (digit OR 128)]) len
         else Ret (b @ [of_nat digit]))"
  by pat_completeness auto
termination
  by (relation "measure snd") auto

declare getRemainingLength_loop.simps [simp del]

definition getRemainingLength :: "nat \<Rightarrow> bytes outcome" where
  "getRemainingLength len = getRemainingLength_loop [] len"

text \<open>\<open>w.WriteByte(getRemainingLength(n)[0])\<close>, and \<open>writeFull(w, getRemainingLength(n))\<close>.\<close>

definition writeLengthByte :: "nat \<Rightarrow> wcall" where
  "writeLengthByte n w = outcome_bind (getRemainingLength n) (\<lambda>b. WriteByte (b ! 0) w)"

definition writeLength :: "nat \<Rightarrow> wcall" where
  "writeLength n w = outcome_bind (getRemainingLength n) (\<lambda>b. writeFull b w)"

section \<open>The packets\<close>

definition wpanic :: "string \<Rightarrow> wcall" where
  "wpanic s w = Panic s"

abbreviation bad_assertion :: wcall where
  "bad_assertion \<equiv> wpanic ''interface conversion''"

abbreviation nil_dereference :: wcall where
  "nil_dereference \<equiv> wpanic ''invalid memory address or nil pointer dereference''"

definition writeConnack :: "pvariable \<Rightarrow> wcall" where
  "writeConnack v =
     (case v of
        VConnack ack \<Rightarrow>
          wthen_all [writeLengthByte 2, writeFull [reserved ack, ack_return_code ack]]
      | _ \<Rightarrow> bad_assertion)"

definition writePublish :: "byte \<Rightarrow> pvariable \<Rightarrow> wcall" where
  "writePublish qos v =
     (case v of
        VPublish pub \<Rightarrow>
          (case topic_name pub of
             None \<Rightarrow> nil_dereference
           | Some topic \<Rightarrow>
               wthen_all
                 ((if qos > 0
                   then writeLength (4 + length (bytes_of_str topic) + length (pub_msg pub))
                   else writeLength (2 + length (bytes_of_str topic) + length (pub_msg pub)))
                  # writeString (topic_name pub)
                  # (if qos > 0 then [writeInt (pub_mid pub)] else [])
                  @ [writeFull (pub_msg pub)]))
      | _ \<Rightarrow> bad_assertion)"

text \<open>PUBACK, PUBREC, PUBREL and PUBCOMP have the same case body.\<close>

definition writePuback :: "pvariable \<Rightarrow> wcall" where
  "writePuback v =
     (case v of
        VPuback ack \<Rightarrow> wthen_all [writeLengthByte 2, writeInt (ack_mid ack)]
      | _ \<Rightarrow> bad_assertion)"

definition writeSuback :: "pvariable \<Rightarrow> wcall" where
  "writeSuback v =
     (case v of
        VSuback ack \<Rightarrow>
          wthen_all [writeLengthByte 3, writeInt (suback_mid ack), WriteByte (suback_Qos ack)]
      | _ \<Rightarrow> bad_assertion)"

definition writeUNSuback :: "pvariable \<Rightarrow> wcall" where
  "writeUNSuback v =
     (case v of
        VUNSuback ack \<Rightarrow> wthen_all [writeLengthByte 2, writeInt (unsuback_mid ack)]
      | _ \<Rightarrow> bad_assertion)"

text \<open>The sum of the topic sizes; a nil name is dereferenced.\<close>

fun topics_size :: "nat \<Rightarrow> topics list \<Rightarrow> nat option" where
  "topics_size extra [] = Some 0"
| "topics_size extra (tp # tps) =
     (case (top_name tp, topics_size extra tps) of
        (Some s, Some n) \<Rightarrow> Some (n + 2 + length (bytes_of_str s) + extra)
      | _ \<Rightarrow> None)"

fun writeTopics_sub :: "topics list \<Rightarrow> wcall" where
  "writeTopics_sub [] = wdone"
| "writeTopics_sub (tp # tps) =
     (case top_name tp of
        None \<Rightarrow> nil_dereference
      | Some s \<Rightarrow>
          wthen_all [writeInt (int (length (bytes_of_str s))), writeFull (bytes_of_str s),
            WriteByte (top_Qos tp), writeTopics_sub tps])"

fun writeTopics_unsub :: "topics list \<Rightarrow> wcall" where
  "writeTopics_unsub [] = wdone"
| "writeTopics_unsub (tp # tps) =
     (case top_name tp of
        None \<Rightarrow> nil_dereference
      | Some s \<Rightarrow>
          wthen_all [writeInt (int (length (bytes_of_str s))), writeFull (bytes_of_str s),
            writeTopics_unsub tps])"

definition writeSubscribe :: "pvariable \<Rightarrow> wcall" where
  "writeSubscribe v =
     (case v of
        VSubscribe sub \<Rightarrow>
          (case topics_size 1 (sub_topics sub) of
             None \<Rightarrow> nil_dereference
           | Some tnum \<Rightarrow>
               wthen_all [writeLengthByte tnum, writeInt (sub_mid sub),
                 writeTopics_sub (sub_topics sub)])
      | _ \<Rightarrow> bad_assertion)"

definition writeUNSubscribe :: "pvariable \<Rightarrow> wcall" where
  "writeUNSubscribe v =
     (case v of
        VUNSubscribe sub \<Rightarrow>
          (case topics_size 0 (unsub_topics sub) of
             None \<Rightarrow> nil_dereference
           | Some tnum \<Rightarrow>
               wthen_all [writeLengthByte tnum, writeInt (unsub_mid sub),
                 writeTopics_unsub (unsub_topics sub)])
      | _ \<Rightarrow> bad_assertion)"

definition writeVariable :: "pack \<Rightarrow> wcall" where
  "writeVariable pk =
     (if msg_type pk = CONNACK then writeConnack (variable pk)
      else if msg_type pk = PUBLISH then writePublish (qos_level pk) (variable pk)
      else if msg_type pk = PUBACK then writePuback (variable pk)
      else if msg_type pk = PUBREC then writePuback (variable pk)
      else if msg_type pk = PUBREL then writePuback (variable pk)
      else if msg_type pk = PUBCOMP then writePuback (variable pk)
      else if msg_type pk = SUBSCRIBE then writeSubscribe (variable pk)
      else if msg_type pk = SUBACK then writeSuback (variable pk)
      else if msg_type pk = UNSUBSCRIBE then writeUNSubscribe (variable pk)
      else if msg_type pk = UNSUBACK then writeUNSuback (variable pk)
      else if msg_type pk = PINGRESP then WriteByte 0
      else wdone)"

definition fixed_byte :: "pack \<Rightarrow> byte" where
  "fixed_byte pk =
     (let fixed = push_bit 4 (msg_type pk);
          fixed = fixed OR push_bit 3 (dup_flag pk)
      in fixed OR push_bit 1 (qos_level pk))"

definition DelayWritePack :: "pack \<Rightarrow> wcall" where
  "DelayWritePack pk = wthen (WriteByte (fixed_byte pk)) (writeVariable pk)"

definition WritePack :: "pack \<Rightarrow> wcall" where
  "WritePack pk w =
     outcome_bind (DelayWritePack pk w) (\<lambda>(err, w).
       if err \<noteq> None then Ret (err, w) else Ret (Flush w))"

section \<open>What a call appends\<close>

definition appends :: "wcall \<Rightarrow> bytes \<Rightarrow> bool" where
  "appends f bs \<longleftrightarrow>
     (\<forall>w. healthy w \<longrightarrow> (\<exists>w'. f w = Ret (None, w') \<and> healthy w' \<and> stream w' = stream w @ bs))"

lemma appendsD:
  "appends f bs \<Longrightarrow> healthy w \<Longrightarrow> \<exists>w'. f w = Ret (None, w') \<and> healthy w' \<and> stream w' = stream w @ bs"
  by (simp add: appends_def)

named_theorems appends_rules \<open>what each writer call appends\<close>

lemma appends_wdone [appends_rules]: "appends wdone []"
  by (auto simp: appends_def wdone_def)

lemma appends_wthen [appends_rules]:
  "appends f a \<Longrightarrow> appends g b \<Longrightarrow> appends (wthen f g) (a @ b)"
  by (fastforce simp: appends_def wthen_def)

lemma appends_WriteByte [appends_rules]: "appends (WriteByte b) [b]"
  using WriteByte_healthy by (auto simp: appends_def)

lemma appends_wthen_all_Cons [appends_rules]:
  "appends f a \<Longrightarrow> appends (wthen_all fs) b \<Longrightarrow> appends (wthen_all (f # fs)) (a @ b)"
  by (simp add: appends_wthen)

lemma appends_wthen_all_Nil [appends_rules]: "appends (wthen_all []) []"
  by (simp add: appends_wdone)

text \<open>\<open>writeFull\<close> runs \<open>Write\<close> at most once.\<close>

lemma writeFull_eq:
  "writeFull b w =
     (if b = [] then Ret (None, w)
      else outcome_bind (Write b w) (\<lambda>((n, err), w). Ret (err, w)))"
proof (cases "b = []")
  case True
  then show ?thesis by (simp add: writeFull_def writeFull_loop.simps)
next
  case False
  show ?thesis
  proof (cases "Write b w")
    case (Ret res)
    obtain n err w' where res: "res = ((n, err), w')" by (metis surj_pair)
    show ?thesis
    proof (cases "err = None")
      case True
      with Ret res have "n = length b" using Write_count by blast
      then have "writeFull_loop b n n w' = Some (Ret (None, w'))"
        by (simp add: writeFull_loop.simps)
      with True False Ret res show ?thesis
        by (simp add: writeFull_def writeFull_loop.simps[of b 0 0])
    next
      case err: False
      with False Ret res show ?thesis
        by (simp add: writeFull_def writeFull_loop.simps[of b 0 0])
    qed
  qed (use False in \<open>simp_all add: writeFull_def writeFull_loop.simps[of b 0 0]\<close>)
qed

lemma appends_writeFull [appends_rules]: "appends (writeFull b) b"
  unfolding appends_def using Write_healthy[of _ b] by (fastforce simp: writeFull_eq)

lemma appends_writeInt [appends_rules]: "appends (writeInt i) (PutUint16 (word_of_int i))"
  by (simp add: writeInt_def appends_writeFull)

lemma appends_writeString [appends_rules]:
  "appends (writeString (Some s)) (PutUint16 (word_of_int (int (length s))) @ bytes_of_str s)"
proof -
  have "writeString (Some s) =
      wthen (writeInt (int (length s))) (writeFull (bytes_of_str s))"
    by (rule ext) (simp add: writeString_def Let_def)
  then show ?thesis
    using appends_wthen[OF appends_writeInt[of "int (length s)"] appends_writeFull] by simp
qed

section \<open>The remaining length\<close>

text \<open>The variable-length integer of the MQTT specification.\<close>

fun mqtt_varint :: "nat \<Rightarrow> bytes" where
  "mqtt_varint n =
     (if n < 128 then [of_nat n] else of_nat (n mod 128 + 128) # mqtt_varint (n div 128))"

declare mqtt_varint.simps [simp del]

lemma nat_or_128: "n < 128 \<Longrightarrow> n OR 128 = n + 128" for n :: nat
proof -
  assume "n < 128"
  then have "\<not> bit n 7" by (simp add: bit_iff_odd)
  then have "n AND 2 ^ 7 = 0" using and_exp_eq_0_iff_not_bit by blast
  then show ?thesis by (simp add: disjunctive_add_eq_or)
qed

lemma getRemainingLength_loop_eq:
  "getRemainingLength_loop b n =
     (if length b + length (mqtt_varint n) \<le> 4 then Ret (b @ mqtt_varint n)
      else Panic ''index out of range'')"
proof (induction n arbitrary: b rule: mqtt_varint.induct)
  case (1 n)
  show ?case
  proof (cases "n < 128")
    case True
    then show ?thesis
      by (subst getRemainingLength_loop.simps) (simp add: mqtt_varint.simps[of n] Let_def)
  next
    case False
    then have "0 < n div 128" by simp
    with False show ?thesis
      by (subst getRemainingLength_loop.simps)
        (simp add: mqtt_varint.simps[of n] Let_def nat_or_128 "1.IH")
  qed
qed

lemma length_varint_le: "n < 128 ^ Suc k \<Longrightarrow> length (mqtt_varint n) \<le> Suc k"
proof (induction k arbitrary: n)
  case 0
  then show ?case by (simp add: mqtt_varint.simps[of n])
next
  case (Suc k)
  then have "n div 128 < 128 ^ Suc k" by (simp add: less_mult_imp_div_less mult.commute)
  from Suc.IH[OF this] show ?case by (subst mqtt_varint.simps) simp
qed

lemma length_varint_gt: "128 ^ Suc k \<le> n \<Longrightarrow> Suc k < length (mqtt_varint n)"
proof (induction k arbitrary: n)
  case 0
  then show ?case by (subst mqtt_varint.simps) (simp add: mqtt_varint.simps[of "n div 128"])
next
  case (Suc k)
  then have "128 ^ Suc k \<le> n div 128" by (simp add: less_eq_div_iff_mult_less_eq mult.commute)
  moreover from this have "0 < n div 128" by (metis le_zero_eq neq0_conv power_not_zero zero_neq_numeral)
  then have "\<not> n < 128" by auto
  ultimately show ?case using Suc.IH by (subst mqtt_varint.simps) simp
qed

lemma getRemainingLength_eq:
  "getRemainingLength n =
     (if n < 128 ^ 4 then Ret (mqtt_varint n) else Panic ''index out of range'')"
proof (cases "n < 128 ^ 4")
  case True
  then have "length (mqtt_varint n) \<le> 4" using length_varint_le[of n 3] by simp
  with True show ?thesis by (simp add: getRemainingLength_def getRemainingLength_loop_eq)
next
  case False
  then have "4 < length (mqtt_varint n)" using length_varint_gt[of 3 n] by simp
  with False show ?thesis by (simp add: getRemainingLength_def getRemainingLength_loop_eq)
qed

end
