(* ===== verification/Mqtt_Codec.thy ===== *)
theory Mqtt_Codec
  imports Mqtt_Read Mqtt_Write
begin

text \<open>
  The writer against the reader. \<open>field_codec\<close> is the contract between a writer call and a
  reader for the same wire format; it is interpreted for 16-bit integers, for strings and for
  whole packets, and gives the framing theorem: a sequence of packets written to a connection is
  read back as the same sequence.
\<close>

section \<open>The contract of a codec\<close>

fun write_all :: "('a \<Rightarrow> wcall) \<Rightarrow> 'a list \<Rightarrow> wcall" where
  "write_all wr [] = wdone"
| "write_all wr (x # xs) = wthen (wr x) (write_all wr xs)"

fun read_n :: "(reader \<Rightarrow> 'b \<times> reader) \<Rightarrow> nat \<Rightarrow> reader \<Rightarrow> 'b list \<times> reader" where
  "read_n rd 0 r = ([], r)"
| "read_n rd (Suc n) r =
     (let (v, r) = rd r; (vs, r) = read_n rd n r in (v # vs, r))"

locale field_codec =
  fixes wr :: "'a \<Rightarrow> wcall"
    and enc :: "'a \<Rightarrow> bytes"
    and rd :: "reader \<Rightarrow> 'b \<times> reader"
    and val :: "'a \<Rightarrow> 'b"
    and valid :: "'a \<Rightarrow> bool"
  assumes wr_appends: "valid x \<Longrightarrow> appends (wr x) (enc x)"
    and rd_enc: "valid x \<Longrightarrow> rd_data r = enc x @ rest \<Longrightarrow> rd r = (val x, r\<lparr>rd_data := rest\<rparr>)"
begin

lemma write_all_appends:
  "\<forall>x \<in> set xs. valid x \<Longrightarrow> appends (write_all wr xs) (concat (map enc xs))"
  by (induction xs) (simp_all add: appends_wdone appends_wthen wr_appends)

lemma read_all:
  "\<forall>x \<in> set xs. valid x \<Longrightarrow> rd_data r = concat (map enc xs) @ rest \<Longrightarrow>
   read_n rd (length xs) r = (map val xs, r\<lparr>rd_data := rest\<rparr>)"
proof (induction xs arbitrary: r)
  case (Cons x xs)
  have "rd r = (val x, r\<lparr>rd_data := concat (map enc xs) @ rest\<rparr>)"
    using Cons.prems by (intro rd_enc) simp_all
  moreover have "read_n rd (length xs) (r\<lparr>rd_data := concat (map enc xs) @ rest\<rparr>) =
      (map val xs, r\<lparr>rd_data := rest\<rparr>)"
    using Cons.prems Cons.IH[of "r\<lparr>rd_data := concat (map enc xs) @ rest\<rparr>"] by simp
  ultimately show ?case by simp
qed simp

lemma sequence_roundtrip:
  assumes "\<forall>x \<in> set xs. valid x" "healthy w" "rd_data r = bs @ rest"
    "\<And>w'. write_all wr xs w = Ret (None, w') \<Longrightarrow> stream w' = stream w @ bs"
  shows "read_n rd (length xs) r = (map val xs, r\<lparr>rd_data := rest\<rparr>)"
proof -
  obtain w' where "write_all wr xs w = Ret (None, w')" "stream w' = stream w @ concat (map enc xs)"
    using appendsD[OF write_all_appends[OF assms(1)] assms(2)] by blast
  with assms(4) have "bs = concat (map enc xs)" by simp
  with assms(1,3) show ?thesis by (intro read_all) simp_all
qed

end

section \<open>Sixteen-bit integers and strings\<close>

lemma be16_PutUint16: "be16 (ucast (drop_bit 8 v)) (ucast v) = v"
  unfolding be16_def
  by (rule bit_word_eqI) (auto simp: bit_simps)

lemma length_PutUint16 [simp]: "length (PutUint16 v) = 2"
  by (simp add: PutUint16_def)

lemma readInt_PutUint16:
  assumes "rd_data r = PutUint16 v @ rest"
  shows "readInt r 2 = ((uint v, None), r\<lparr>rd_data := rest\<rparr>)"
proof -
  have "ReadFull 2 r = ((PutUint16 v, None), r\<lparr>rd_data := rest\<rparr>)"
    by (rule ReadFull_append[OF assms]) simp
  then show ?thesis
    by (simp add: readInt_def be16_PutUint16 PutUint16_def)
qed

lemma uint_word16: "0 \<le> i \<Longrightarrow> i < 65536 \<Longrightarrow> uint (word_of_int i :: 16 word) = i"
  by (simp add: uint_word_of_int)

interpretation int16: field_codec writeInt "\<lambda>i. PutUint16 (word_of_int i)" "\<lambda>r. readInt r 2"
  "\<lambda>i. (i, None)" "\<lambda>i. 0 \<le> i \<and> i < 65536"
  by unfold_locales (simp_all add: appends_writeInt readInt_PutUint16 uint_word16 del: of_int_of_nat_eq)

definition enc_string :: "string \<Rightarrow> bytes" where
  "enc_string s = PutUint16 (word_of_int (int (length s))) @ bytes_of_str s"

lemma readString_enc:
  assumes "rd_data r = enc_string s @ rest" "length s < 65536"
  shows "readString r = ((s, int (length s), None), r\<lparr>rd_data := rest\<rparr>)"
proof -
  have "readInt r 2 = ((int (length s), None), r\<lparr>rd_data := bytes_of_str s @ rest\<rparr>)"
    using assms by (intro int16.rd_enc) (simp_all add: enc_string_def)
  moreover have "ReadFull (length s) (r\<lparr>rd_data := bytes_of_str s @ rest\<rparr>) =
      ((bytes_of_str s, None), r\<lparr>rd_data := rest\<rparr>)"
    by (subst ReadFull_append) simp_all
  ultimately show ?thesis by (auto simp: readString_def)
qed

interpretation str16: field_codec "\<lambda>s. writeString (Some s)" enc_string readString
  "\<lambda>s. (s, int (length s), None)" "\<lambda>s. length s < 65536"
proof unfold_locales
  show "appends (writeString (Some s)) (enc_string s)" for s
    unfolding enc_string_def by (rule appends_writeString)
qed (rule readString_enc)

section \<open>The remaining length\<close>

lemma varint_byte_low: "n < 128 \<Longrightarrow> uint ((of_nat n :: byte) AND 127) = int n"
proof -
  assume n: "n < 128"
  have "(of_nat n :: byte) AND mask 7 = of_nat n"
    using n by (subst take_bit_eq_mask[symmetric]) (simp add: take_bit_of_nat take_bit_nat_eq_self)
  moreover have "(mask 7 :: byte) = 127" by (simp add: mask_numeral)
  ultimately show ?thesis using n by (simp add: unat_of_nat uint_nat)
qed

lemma varint_byte_top: "n < 128 \<Longrightarrow> drop_bit 7 (of_nat n :: byte) = 0"
proof -
  assume "n < 128"
  then have "unat (drop_bit 7 (of_nat n :: byte)) = 0"
    by (simp only: unat_drop_bit_eq unat_of_nat) (simp add: drop_bit_eq_div)
  then show ?thesis by (simp only: unat_eq_zero)
qed

lemma varint_byte_more:
  assumes "n < 128"
  shows "uint ((of_nat (n + 128) :: byte) AND 127) = int n" "drop_bit 7 (of_nat (n + 128) :: byte) \<noteq> 0"
proof -
  have eq: "(of_nat (n + 128) :: byte) AND mask 7 = of_nat n"
    using assms
    by (subst take_bit_eq_mask[symmetric])
      (simp only: take_bit_of_nat, simp add: take_bit_eq_mod)
  have "(mask 7 :: byte) = 127" by (simp add: mask_numeral)
  with eq assms show "uint ((of_nat (n + 128) :: byte) AND 127) = int n"
    by (simp add: unat_of_nat uint_nat)
  have "unat (drop_bit 7 (of_nat (n + 128) :: byte)) = 1"
    using assms by (simp only: unat_drop_bit_eq unat_of_nat) (simp add: drop_bit_eq_div)
  then show "drop_bit 7 (of_nat (n + 128) :: byte) \<noteq> 0" by (metis unat_0 zero_neq_one)
qed

lemma readLength_varint:
  "mqtt_varint n = b # bs \<Longrightarrow> rd_data r = bs @ rest \<Longrightarrow> c + length (mqtt_varint n) \<le> 4 \<Longrightarrow>
   readLength c l m b r = ((l + int n * m, None), r\<lparr>rd_data := rest\<rparr>)"
proof (induction n arbitrary: b bs c l m r rule: mqtt_varint.induct)
  case (1 n)
  show ?case
  proof (cases "n < 128")
    case True
    with 1 show ?thesis
      by (subst readLength.simps) (auto simp: mqtt_varint.simps[of n] varint_byte_low varint_byte_top)
  next
    case False
    let ?q = "n div 128"
    have b: "b = of_nat (n mod 128 + 128)" "bs = mqtt_varint ?q"
      using False "1.prems"(1) by (simp_all add: mqtt_varint.simps[of n])
    then obtain b' bs' where q: "mqtt_varint ?q = b' # bs'"
      by (cases "mqtt_varint ?q") (auto simp: mqtt_varint.simps[of ?q] split: if_splits)
    have c: "Suc c + length (mqtt_varint ?q) \<le> 4"
      using "1.prems"(1,3) False by (simp add: mqtt_varint.simps[of n])
    have rb: "ReadByte r = (Inr b', r\<lparr>rd_data := bs' @ rest\<rparr>)"
      using "1.prems"(2) b q by (simp add: ReadByte_Cons)
    have "readLength (Suc c) (l + int (n mod 128) * m) (m * 128) b' (r\<lparr>rd_data := bs' @ rest\<rparr>) =
        ((l + int (n mod 128) * m + int ?q * (m * 128), None), r\<lparr>rd_data := rest\<rparr>)"
      using "1.IH"[OF False q, of "r\<lparr>rd_data := bs' @ rest\<rparr>" "Suc c"] c by simp
    moreover have "l + int (n mod 128) * m + int ?q * (m * 128) = l + int n * m"
    proof -
      have "int n = int (n mod 128) + 128 * int ?q"
        by (metis mod_mult_div_eq of_nat_add of_nat_mult of_nat_numeral)
      then show ?thesis by (simp add: algebra_simps)
    qed
    ultimately show ?thesis
      using c q rb varint_byte_more[of "n mod 128"]
      by (subst readLength.simps) (simp add: b)
  qed
qed

lemma varint_nonempty: "mqtt_varint n \<noteq> []"
  by (subst mqtt_varint.simps) simp

lemma readLength_varint3:
  assumes "n < 128 ^ 3" "rd_data r = mqtt_varint n @ rest"
  shows "\<exists>b r'. ReadByte r = (Inr b, r') \<and>
    readLength 1 0 1 b r' = ((int n, None), r\<lparr>rd_data := rest\<rparr>)"
proof -
  obtain b bs where v: "mqtt_varint n = b # bs" using varint_nonempty by (meson list.exhaust)
  have "length (mqtt_varint n) \<le> 3" using length_varint_le[of n 2] assms(1) by simp
  then show ?thesis
    using readLength_varint[OF v, of "r\<lparr>rd_data := bs @ rest\<rparr>" rest 1 0 1] assms(2) v
    by (simp add: ReadByte_Cons)
qed

section \<open>Whole packets\<close>

text \<open>
  The wire format of the packets the gate sends, as a pure function of the packet, and the packets
  it is used for: \<open>out_ok m pk\<close> says that the fields fit their width on the wire and that the
  packet is not longer than the reader at the other end accepts. \<open>readback\<close> is what that reader
  sees: the retain bit is never written, the message id only when the quality of service asks for
  it, and the reader skips the contents of CONNACK.
\<close>

definition body_length :: "pack \<Rightarrow> nat" where
  "body_length pk =
     (case variable pk of
        VConnack _ \<Rightarrow> 2
      | VPublish pub \<Rightarrow>
          (if qos_level pk > 0 then 4 else 2) + length (the (topic_name pub)) + length (pub_msg pub)
      | VPuback _ \<Rightarrow> 2
      | VSuback _ \<Rightarrow> 3
      | VUNSuback _ \<Rightarrow> 2
      | _ \<Rightarrow> 0)"

definition enc_mid :: "int \<Rightarrow> bytes" where
  "enc_mid i = PutUint16 (word_of_int i)"

definition encode_body :: "pack \<Rightarrow> bytes" where
  "encode_body pk =
     (case variable pk of
        VConnack a \<Rightarrow> [reserved a, ack_return_code a]
      | VPublish pub \<Rightarrow>
          enc_string (the (topic_name pub)) @
          (if qos_level pk > 0 then enc_mid (pub_mid pub) else []) @ pub_msg pub
      | VPuback a \<Rightarrow> enc_mid (ack_mid a)
      | VSuback a \<Rightarrow> enc_mid (suback_mid a) @ [suback_Qos a]
      | VUNSuback a \<Rightarrow> enc_mid (unsuback_mid a)
      | _ \<Rightarrow> [])"

definition encode_pack :: "pack \<Rightarrow> bytes" where
  "encode_pack pk = fixed_byte pk # mqtt_varint (body_length pk) @ encode_body pk"

definition mid_ok :: "int \<Rightarrow> bool" where
  "mid_ok i \<longleftrightarrow> 0 \<le> i \<and> i < 65536"

definition out_ok :: "int \<Rightarrow> pack \<Rightarrow> bool" where
  "out_ok m pk \<longleftrightarrow>
     dup_flag pk < 2 \<and> qos_level pk < 4 \<and> body_length pk < 128 ^ 3 \<and> int (body_length pk) \<le> m \<and>
     (case variable pk of
        VConnack _ \<Rightarrow> msg_type pk = CONNACK
      | VPublish pub \<Rightarrow> msg_type pk = PUBLISH \<and> mid_ok (pub_mid pub) \<and>
          (case topic_name pub of None \<Rightarrow> False | Some s \<Rightarrow> s \<noteq> [] \<and> length s < 65536)
      | VPuback a \<Rightarrow> msg_type pk \<in> {PUBACK, PUBREC, PUBREL, PUBCOMP} \<and> mid_ok (ack_mid a)
      | VSuback a \<Rightarrow> msg_type pk = SUBACK \<and> mid_ok (suback_mid a)
      | VUNSuback a \<Rightarrow> msg_type pk = UNSUBACK \<and> mid_ok (unsuback_mid a)
      | VNil \<Rightarrow> msg_type pk = PINGRESP
      | _ \<Rightarrow> False)"

definition readback :: "pack \<Rightarrow> pack" where
  "readback pk = pk\<lparr>retain := 0, pk_length := int (body_length pk),
     variable :=
       (case variable pk of
          VConnack _ \<Rightarrow> VNil
        | VPublish pub \<Rightarrow> VPublish (if qos_level pk > 0 then pub else pub\<lparr>pub_mid := 0\<rparr>)
        | v \<Rightarrow> v)\<rparr>"

subsection \<open>Writing\<close>

lemma appends_writeLength:
  "n < 128 ^ 3 \<Longrightarrow> appends (writeLength n) (mqtt_varint n)"
  using appends_writeFull[of "mqtt_varint n"]
  by (simp add: appends_def writeLength_def getRemainingLength_eq)

lemma appends_writeLengthByte:
  "n < 128 \<Longrightarrow> appends (writeLengthByte n) (mqtt_varint n)"
  using appends_WriteByte[of "of_nat n"]
  by (simp add: appends_def writeLengthByte_def getRemainingLength_eq mqtt_varint.simps[of n])

lemma appends_writePublish:
  assumes "topic_name pub = Some s"
    "(if q > 0 then 4 else 2) + length s + length (pub_msg pub) < 128 ^ 3"
  shows "appends (writePublish q (VPublish pub))
    (mqtt_varint ((if q > 0 then 4 else 2) + length s + length (pub_msg pub)) @
     enc_string s @ (if q > 0 then enc_mid (pub_mid pub) else []) @ pub_msg pub)"
proof -
  have wl: "appends (writeLength ((if q > 0 then 4 else 2) + length s + length (pub_msg pub)))
      (mqtt_varint ((if q > 0 then 4 else 2) + length s + length (pub_msg pub)))"
    using assms(2) by (rule appends_writeLength)
  have body: "appends (wthen_all ((if q > 0 then [writeInt (pub_mid pub)] else []) @
      [writeFull (pub_msg pub)])) ((if q > 0 then enc_mid (pub_mid pub) else []) @ pub_msg pub)"
    using appends_wthen_all_Cons[OF appends_writeFull[of "pub_msg pub"] appends_wthen_all_Nil]
      appends_wthen_all_Cons[OF appends_writeInt[of "pub_mid pub"]
        appends_wthen_all_Cons[OF appends_writeFull[of "pub_msg pub"] appends_wthen_all_Nil]]
    by (simp add: enc_mid_def)
  have st: "appends (writeString (topic_name pub)) (enc_string s)"
    unfolding assms(1) enc_string_def by (rule appends_writeString)
  show ?thesis
    using appends_wthen_all_Cons[OF wl appends_wthen_all_Cons[OF st body]] assms(1)
    by (cases "q > 0") (simp_all add: writePublish_def)
qed

lemma appends_mid_only:
  "appends (wthen_all [writeLengthByte 2, writeInt i]) (mqtt_varint 2 @ enc_mid i)"
  using appends_wthen_all_Cons[OF appends_writeLengthByte[of 2]
      appends_wthen_all_Cons[OF appends_writeInt[of i] appends_wthen_all_Nil]]
  by (simp add: enc_mid_def)

lemma appends_writeConnack:
  "appends (writeConnack (VConnack a)) (mqtt_varint 2 @ [reserved a, ack_return_code a])"
  using appends_wthen_all_Cons[OF appends_writeLengthByte[of 2]
      appends_wthen_all_Cons[OF appends_writeFull appends_wthen_all_Nil]]
  by (simp add: writeConnack_def)

lemma appends_writeSuback:
  "appends (writeSuback (VSuback a)) (mqtt_varint 3 @ enc_mid (suback_mid a) @ [suback_Qos a])"
  using appends_wthen_all_Cons[OF appends_writeLengthByte[of 3]
      appends_wthen_all_Cons[OF appends_writeInt[of "suback_mid a"]
        appends_wthen_all_Cons[OF appends_WriteByte[of "suback_Qos a"] appends_wthen_all_Nil]]]
  by (simp add: enc_mid_def writeSuback_def)

lemma appends_writeVariable:
  assumes "out_ok m pk"
  shows "appends (writeVariable pk) (mqtt_varint (body_length pk) @ encode_body pk)"
proof (cases "variable pk")
  case VNil
  with assms appends_WriteByte[of 0] show ?thesis
    by (simp add: writeVariable_def out_ok_def body_length_def encode_body_def pack_types
        mqtt_varint.simps[of 0])
next
  case (VPublish pub)
  with assms obtain s where "topic_name pub = Some s" "msg_type pk = PUBLISH"
    by (auto simp: out_ok_def split: option.splits)
  with assms VPublish appends_writePublish[of pub s "qos_level pk"] show ?thesis
    by (simp add: writeVariable_def out_ok_def body_length_def encode_body_def pack_types)
next
  case (VPuback a)
  with assms appends_mid_only[of "ack_mid a"] show ?thesis
    by (auto simp: writeVariable_def writePuback_def out_ok_def body_length_def encode_body_def
        pack_types)
qed (use assms appends_mid_only in \<open>auto simp: writeVariable_def out_ok_def body_length_def
      encode_body_def pack_types appends_writeConnack appends_writeSuback writeUNSuback_def\<close>)

lemma appends_DelayWritePack:
  "out_ok m pk \<Longrightarrow> appends (DelayWritePack pk) (encode_pack pk)"
  using appends_wthen[OF appends_WriteByte[of "fixed_byte pk"] appends_writeVariable[of m pk]]
  by (simp add: DelayWritePack_def encode_pack_def)

subsection \<open>Reading\<close>

lemma bit_less_2_pow: "w < 2 ^ k \<Longrightarrow> bit w i \<Longrightarrow> i < k" for w :: byte
  by (metis less_mask_eq bit_and_iff bit_mask_iff)

lemma fixed_bits:
  fixes t d q :: byte
  assumes "t < 16" "d < 2" "q < 4"
  defines "f \<equiv> push_bit 4 t OR push_bit 3 d OR push_bit 1 q"
  shows "drop_bit 4 f = t" "drop_bit 3 (f AND 15) = d" "drop_bit 1 (f AND 7) = q" "f AND 1 = 0"
proof -
  have t: "bit t i \<Longrightarrow> i < 4" and d: "bit d i \<Longrightarrow> i < 1" and q: "bit q i \<Longrightarrow> i < 2" for i
    using assms(1-3) bit_less_2_pow[of t 4 i] bit_less_2_pow[of d 1 i] bit_less_2_pow[of q 2 i] by simp_all
  have m: "(15 :: byte) = mask 4" "(7 :: byte) = mask 3" by (simp_all add: mask_numeral)
  show "drop_bit 4 f = t"
    unfolding f_def by (rule bit_word_eqI) (simp only: bit_simps o_apply, auto dest: t d q)
  show "drop_bit 3 (f AND 15) = d"
    unfolding f_def m by (rule bit_word_eqI) (simp only: bit_simps o_apply, auto dest: t d q)
  show "drop_bit 1 (f AND 7) = q"
    unfolding f_def m by (rule bit_word_eqI) (simp only: bit_simps o_apply, auto dest: t d q)
  show "f AND 1 = 0"
    unfolding f_def by (rule bit_word_eqI) (simp only: bit_simps o_apply bit_1_iff bit_0_eq, auto dest: t d q)
qed

lemma parse_fixed_fixed_byte:
  assumes "msg_type pk < 16" "dup_flag pk < 2" "qos_level pk < 4"
  shows "parse_fixed (fixed_byte pk) = new_Pack\<lparr>msg_type := msg_type pk,
    dup_flag := dup_flag pk, qos_level := qos_level pk, retain := 0\<rparr>"
  using fixed_bits[OF assms]
  by (simp add: parse_fixed_def fixed_byte_def Let_def or.assoc and.assoc)

lemma readInt_mid:
  "mid_ok i \<Longrightarrow> rd_data r = enc_mid i @ rest \<Longrightarrow> readInt r 2 = ((i, None), r\<lparr>rd_data := rest\<rparr>)"
  by (rule int16.rd_enc) (simp_all add: mid_ok_def enc_mid_def)

lemma readPublish_enc:
  assumes "topic_name pub = Some s" "s \<noteq> []" "length s < 65536" "mid_ok (pub_mid pub)"
    "rd_data r = (enc_string s @ (if q > 0 then enc_mid (pub_mid pub) else []) @ pub_msg pub) @ rest"
    "len = int ((if q > 0 then 4 else 2) + length s + length (pub_msg pub))"
  shows "readPublish q len r =
    ((if q > 0 then pub else pub\<lparr>pub_mid := 0\<rparr>, None), r\<lparr>rd_data := rest\<rparr>)"
proof -
  let ?mid = "if q > 0 then enc_mid (pub_mid pub) else []"
  have st: "readString r =
      ((s, int (length s), None), r\<lparr>rd_data := ?mid @ pub_msg pub @ rest\<rparr>)"
    using assms(3,5) by (intro readString_enc) simp_all
  have mid: "q > 0 \<Longrightarrow> readInt (r\<lparr>rd_data := ?mid @ pub_msg pub @ rest\<rparr>) 2 =
      ((pub_mid pub, None), r\<lparr>rd_data := pub_msg pub @ rest\<rparr>)"
    using assms(4) by (subst readInt_mid) simp_all
  have full: "ReadFull (length (pub_msg pub)) (r\<lparr>rd_data := pub_msg pub @ rest\<rparr>) =
      ((pub_msg pub, None), r\<lparr>rd_data := rest\<rparr>)"
    by (subst ReadFull_append) simp_all
  have topic: "0 < length s" "nat (1 + int n) = Suc n" for n using assms(2) by simp_all
  show ?thesis
    using st mid full assms(1,2,6) topic
    by (cases "q > 0"; cases "pub_msg pub"; cases pub) (simp_all add: readPublish_def)
qed

lemma readVariable_enc:
  assumes ok: "out_ok m pk" and r: "rd_data r = encode_body pk @ rest"
  shows "readVariable (msg_type pk) (qos_level pk) (int (body_length pk)) r =
    ((variable (readback pk), None), r\<lparr>rd_data := rest\<rparr>)"
proof (cases "variable pk")
  case (VPublish pub)
  with ok obtain s where "topic_name pub = Some s" "s \<noteq> []" "length s < 65536" "mid_ok (pub_mid pub)"
      "msg_type pk = PUBLISH"
    by (auto simp: out_ok_def split: option.splits)
  with VPublish r readPublish_enc[of pub s r "qos_level pk" rest] show ?thesis
    by (simp add: readVariable_def readback_def body_length_def encode_body_def pack_types
        wrapVariable_def)
next
  case (VSuback a)
  with ok r have "readInt r 2 = ((suback_mid a, None), r\<lparr>rd_data := suback_Qos a # rest\<rparr>)"
    by (intro readInt_mid) (simp_all add: out_ok_def encode_body_def)
  with VSuback ok show ?thesis
    by (simp add: readVariable_def readSuback_def readback_def body_length_def out_ok_def pack_types
        ReadByte_def)
next
  case (VConnack a)
  with ok r ReadFull_append[of r "[reserved a, ack_return_code a]" rest 2] show ?thesis
    by (simp add: readVariable_def readDefault_def readback_def body_length_def out_ok_def
        encode_body_def pack_types)
qed (use ok r readInt_mid in \<open>auto simp: readVariable_def readPuback_def readUNSuback_def
      readDefault_def readback_def body_length_def out_ok_def encode_body_def pack_types\<close>)

lemma out_ok_type: "out_ok m pk \<Longrightarrow> msg_type pk < 16"
  by (auto simp: out_ok_def pack_types split: pvariable.splits)

lemma ReadPack_encode:
  assumes ok: "out_ok m pk" and r: "rd_data r = encode_pack pk @ rest"
  shows "ReadPack r m = ((Some (readback pk), None), r\<lparr>rd_data := rest\<rparr>)"
proof -
  let ?r = "r\<lparr>rd_data := mqtt_varint (body_length pk) @ encode_body pk @ rest\<rparr>"
  have b: "ReadByte r = (Inr (fixed_byte pk), ?r)"
    using r by (simp add: encode_pack_def ReadByte_Cons)
  obtain c r' where c: "ReadByte ?r = (Inr c, r')" and
    l: "readLength 1 0 1 c r' = ((int (body_length pk), None), r\<lparr>rd_data := encode_body pk @ rest\<rparr>)"
    using readLength_varint3[of "body_length pk" ?r] ok by (auto simp: out_ok_def)
  have v: "readVariable (msg_type pk) (qos_level pk) (int (body_length pk))
      (r\<lparr>rd_data := encode_body pk @ rest\<rparr>) =
    ((variable (readback pk), None), r\<lparr>rd_data := rest\<rparr>)"
    by (subst readVariable_enc[OF ok, of _ rest]) simp_all
  have "parse_fixed (fixed_byte pk) = new_Pack\<lparr>msg_type := msg_type pk,
    dup_flag := dup_flag pk, qos_level := qos_level pk, retain := 0\<rparr>"
    using ok out_ok_type[OF ok] by (intro parse_fixed_fixed_byte) (auto simp: out_ok_def)
  with b c l v ok show ?thesis
    by (cases pk) (simp add: ReadPack_def new_Pack_def readback_def out_ok_def)
qed

interpretation packets: field_codec DelayWritePack encode_pack "\<lambda>r. ReadPack r m"
  "\<lambda>pk. (Some (readback pk), None)" "out_ok m" for m
  by unfold_locales (rule appends_DelayWritePack, assumption, rule ReadPack_encode)

section \<open>Properties of the primitive writes\<close>

text \<open>C27: The remaining length: \<open>getRemainingLength\<close> produces the standard's variable-length
  integer for every length below \<open>128 ^ 4\<close> and panics from there on; \<open>ReadPack\<close> reads it back
  exactly for lengths below \<open>128 ^ 3\<close>, and for a longer one always computes a different
  length, because it stops after the third length byte.\<close>

theorem remaining_length_range:
  "getRemainingLength n =
     (if n < 128 ^ 4 then Ret (mqtt_varint n) else Panic ''index out of range'') \<and>
   (\<exists>b r'. ReadByte \<lparr>rd_data = mqtt_varint n @ rest, rd_end = e\<rparr> = (Inr b, r') \<and>
      (if n < 128 ^ 3
       then readLength 1 0 1 b r' = ((int n, None), \<lparr>rd_data = rest, rd_end = e\<rparr>)
       else fst (fst (readLength 1 0 1 b r')) \<noteq> int n))"
proof (cases "n < 128 ^ 3")
  case True
  with readLength_varint3[OF True, of "\<lparr>rd_data = mqtt_varint n @ rest, rd_end = e\<rparr>" rest]
  show ?thesis using getRemainingLength_eq by simp
next
  case False
  obtain b bs where v: "mqtt_varint n = b # bs" using varint_nonempty by (meson list.exhaust)
  obtain l err r2 where l: "readLength 1 0 1 b \<lparr>rd_data = bs @ rest, rd_end = e\<rparr> = ((l, err), r2)"
    by (metis surj_pair)
  have "l < 128 ^ 3" using readLength_bounds[OF l] by simp
  then have "l \<noteq> int n" using False by simp
  with l v False show ?thesis by (simp add: ReadByte_Cons getRemainingLength_eq)
qed

text \<open>\<open>writeFull\<close> never returns exactly when the argument does not fit the buffer, nothing is
  buffered, no error was seen before and the wrapper of the connection has been closed:
  \<open>TCPConn.Write\<close> then reports success for zero bytes and the buffered writer retries forever.\<close>

theorem write_full_hangs_iff:
  "writeFull b w = Hang \<longleftrightarrow>
     closeFlag (bw_conn w) \<and> bw_err w = None \<and> bw_buf w = [] \<and> bw_size w < length b"
  using Write_Hang_iff[of b w] by (cases "Write b w") (auto simp: writeFull_eq stuck_def)

end
