(* ===== verification/Pack_Queue.thy ===== *)
theory Pack_Queue
  imports Mqtt_Codec
begin

text \<open>
  The packet queue of a connection (\<^verbatim>\<open>src/gate/base/mqtt/pack_queue.go\<close>): writers that encode a
  packet under \<open>writelock\<close> and then send a token on the channel \<open>fch\<close>, the flusher goroutine that
  takes a token and flushes, the read loop, and \<open>Close\<close>. \<open>WritePack\<close> is given in the two parts
  another goroutine can run between: the critical section and the send. \<open>pq_step\<close> interleaves
  these parts with the flusher and with \<open>Close\<close>; the invariants are about every interleaving.
\<close>

section \<open>The queue\<close>

datatype pq_status = DISCONNECTED | CONNECTED | CLOSED | RECONNECTING | CONNECTING

text \<open>
  \<open>fch\<close> is the number of tokens in the channel and whether it is closed; the writer \<open>pq_w\<close>
  carries the connection. The reader of the connection belongs to the read loop alone and is its
  argument. \<open>ReadTimeout\<close> is the field of \<open>conf.Mqtt\<close> the queue uses.
\<close>

record pack_queue =
  ReadTimeout :: int
  writeError :: "go_error option"
  fch_len :: nat
  fch_closed :: bool
  writelock :: bool
  pq_w :: bwriter
  alive :: int
  MaxPackSize :: int
  status :: pq_status

definition fch_cap :: nat where
  "fch_cap = 256"

text \<open>
  \<open>int(float32(alive) * 1.5 + 1)\<close> truncates towards zero; the \<open>float32\<close> arithmetic is exact
  below \<open>2 ^ 22\<close>, and a keep-alive has sixteen bits.
\<close>

definition SetAlive :: "int \<Rightarrow> pack_queue \<Rightarrow> pack_queue" where
  "SetAlive a q =
     (let a = (if a < 1 then ReadTimeout q else a);
          x = 3 * a + 2
      in q\<lparr>alive := (if 0 \<le> x then x div 2 else - ((- x) div 2))\<rparr>)"

definition NewPackQueue :: "int \<Rightarrow> bwriter \<Rightarrow> int \<Rightarrow> int \<Rightarrow> pack_queue" where
  "NewPackQueue timeout w a maxPackSize =
     (let maxPackSize = (if maxPackSize < 1 then 65535 else maxPackSize);
          q = \<lparr>ReadTimeout = timeout, writeError = None, fch_len = 0, fch_closed = False,
               writelock = False, pq_w = w, alive = a, MaxPackSize = maxPackSize,
               status = CONNECTED\<rparr>
      in SetAlive a q)"

definition isConnected :: "pack_queue \<Rightarrow> bool" where
  "isConnected q \<longleftrightarrow> status q = CONNECTED"

text \<open>Closing a closed channel panics, and \<open>CloseFch\<close> recovers.\<close>

definition CloseFch :: "pack_queue \<Rightarrow> pack_queue" where
  "CloseFch q = (if fch_closed q then q else q\<lparr>fch_closed := True\<rparr>)"

definition Close :: "go_error option \<Rightarrow> pack_queue \<Rightarrow> pack_queue" where
  "Close err q =
     (let q = q\<lparr>writeError := err\<rparr>;
          q = CloseFch q;
          q = q\<lparr>status := CLOSED\<rparr>
      in q\<lparr>pq_w := (pq_w q)\<lparr>bw_conn := TCPConn_Close (bw_conn (pq_w q))\<rparr>\<rparr>)"

section \<open>Writing\<close>

text \<open>
  The critical section of \<open>WritePack\<close>, entered with the lock free. Either it returns early with
  an error, or it has run \<open>DelayWritePack\<close> and released the lock, or it has panicked: then the
  deferred function closes the queue, and the lock stays held.
\<close>

datatype entered =
    Early go_error
  | Wrote "go_error option"
  | Recovered go_error

definition write_panic :: "string \<Rightarrow> go_error" where
  "write_panic s = Errorf ''WritePack error %v'' [AS s]"

definition WritePack_enter :: "pack \<Rightarrow> pack_queue \<Rightarrow> (entered \<times> pack_queue) outcome" where
  "WritePack_enter pk q =
     (if \<not> isConnected q then Ret (Early (Errorf ''disconnect'' []), q)
      else case writeError q of
        Some e \<Rightarrow> Ret (Early e, q)
      | None \<Rightarrow>
          if Available (pq_w q) \<le> 0 then Ret (Early (Errorf ''bufio.Writer is full'' []), q)
          else (case DelayWritePack pk (pq_w q) of
                  Ret (err, w) \<Rightarrow> Ret (Wrote err, q\<lparr>pq_w := w\<rparr>)
                | Panic s \<Rightarrow>
                    Ret (Recovered (write_panic s),
                         (Close (Some (write_panic s)) q)\<lparr>writelock := True\<rparr>)
                | Hang \<Rightarrow> Hang))"

text \<open>
  The send on \<open>fch\<close> and what follows it. Sending on a closed channel panics, and the deferred
  function closes the queue again; sending on a full channel blocks (\<open>None\<close>).
\<close>

definition WritePack_notify ::
    "go_error option \<Rightarrow> pack_queue \<Rightarrow> (go_error option \<times> pack_queue) option" where
  "WritePack_notify err q =
     (if fch_closed q
      then (let e = Some (write_panic ''send on closed channel'') in Some (e, Close e q))
      else if fch_len q < fch_cap
      then (let q = q\<lparr>fch_len := fch_len q + 1\<rparr>
            in if err \<noteq> None then Some (err, Close err q) else Some (err, q))
      else None)"

text \<open>
  \<open>WritePack\<close> run to its end with no other goroutine in between: a held lock or a full channel
  blocks it for good.
\<close>

definition PackQueue_WritePack :: "pack \<Rightarrow> pack_queue \<Rightarrow> (go_error option \<times> pack_queue) outcome" where
  "PackQueue_WritePack pk q =
     (if writelock q then Hang
      else outcome_bind (WritePack_enter pk q) (\<lambda>(res, q).
        case res of
          Early e \<Rightarrow> Ret (Some e, q)
        | Recovered e \<Rightarrow> Ret (Some e, q)
        | Wrote err \<Rightarrow>
            (case WritePack_notify err q of
               None \<Rightarrow> Hang
             | Some (e, q) \<Rightarrow> Ret (e, q))))"

section \<open>The flusher\<close>

datatype flusher = Running | Stopped

text \<open>
  One round of \<open>Flusher\<close>: \<open>None\<close> when it has to wait for a token or for the lock. A closed and
  empty channel ends the loop, as does a failed flush.
\<close>

definition Flusher_round :: "pack_queue \<Rightarrow> (flusher \<times> pack_queue) option" where
  "Flusher_round q =
     (if \<not> isConnected q then Some (Stopped, q)
      else if fch_len q = 0
      then (if fch_closed q then Some (Stopped, q) else None)
      else if writelock q then None
      else (let q = q\<lparr>fch_len := fch_len q - 1\<rparr>
            in if Buffered (pq_w q) > 0
               then (case Flush (pq_w q) of
                       (err, w) \<Rightarrow>
                         if err \<noteq> None then Some (Stopped, q\<lparr>pq_w := w\<rparr>)
                         else Some (Running, q\<lparr>pq_w := w\<rparr>))
               else Some (Running, q)))"

section \<open>The read loop\<close>

text \<open>
  \<open>recover\<close> is the callback given to \<open>NewPackQueue\<close> (\<open>Client.waitPack\<close>); it may use the queue
  and whatever state \<open>'s\<close> it has of its own, and may panic or block. \<open>SetDeadline\<close> only bounds
  how long the next read may take.
\<close>

type_synonym 's recover_fn =
  "pack option \<Rightarrow> pack_queue \<times> 's \<Rightarrow> (go_error option \<times> pack_queue \<times> 's) outcome"

lemma ReadPack_shrinks: "((pk, None), r') = ReadPack r m \<Longrightarrow> length (rd_data r') < length (rd_data r)"
  using ReadPack_success(2)[OF sym] by fastforce

function ReadPackInLoop ::
    "'s recover_fn \<Rightarrow> reader \<Rightarrow> pack_queue \<times> 's \<Rightarrow> (pack_queue \<times> 's \<times> reader) outcome" where
  "ReadPackInLoop recover r (q, s) =
     (if isConnected q
      then (case ReadPack r (MaxPackSize q) of
              ((pk, err), r') \<Rightarrow>
               if err \<noteq> None then Ret (Close err q, s, r')
               else (case recover pk (q, s) of
                       Ret (err, q', s') \<Rightarrow>
                         if err \<noteq> None then Ret (Close err q', s', r')
                         else ReadPackInLoop recover r' (q', s')
                     | Panic p \<Rightarrow> Panic p
                     | Hang \<Rightarrow> Hang))
      else Ret (q, s, r))"
  by pat_completeness auto
termination
  by (relation "measure (\<lambda>(_, r, _). length (rd_data r))")
    (auto dest: ReadPack_shrinks)

declare ReadPackInLoop.simps [simp del]

section \<open>The goroutines together\<close>

text \<open>
  The queue, the writers that have left the critical section and not yet sent their token (each
  with the error it will report), the flusher, and as history the packets whose critical section
  has written them.
\<close>

record pq_state =
  st_q :: pack_queue
  st_pending :: "go_error option list"
  st_flusher :: flusher
  st_log :: "pack list"

definition st_entered :: "pack \<Rightarrow> entered \<Rightarrow> pack_queue \<Rightarrow> pq_state \<Rightarrow> pq_state" where
  "st_entered pk res q st =
     (case res of
        Wrote err \<Rightarrow> st\<lparr>st_q := q, st_pending := st_pending st @ [err], st_log := st_log st @ [pk]\<rparr>
      | _ \<Rightarrow> st\<lparr>st_q := q\<rparr>)"

inductive pq_step :: "int \<Rightarrow> pq_state \<Rightarrow> pq_state \<Rightarrow> bool" for m where
  enter: "out_ok m pk \<Longrightarrow> \<not> writelock (st_q st) \<Longrightarrow> WritePack_enter pk (st_q st) = Ret (res, q) \<Longrightarrow>
    pq_step m st (st_entered pk res q st)"
| notify: "err \<in> set (st_pending st) \<Longrightarrow> WritePack_notify err (st_q st) = Some (e, q) \<Longrightarrow>
    pq_step m st (st\<lparr>st_q := q, st_pending := remove1 err (st_pending st)\<rparr>)"
| flusher: "st_flusher st = Running \<Longrightarrow> Flusher_round (st_q st) = Some (f, q) \<Longrightarrow>
    pq_step m st (st\<lparr>st_q := q, st_flusher := f\<rparr>)"
| closing: "pq_step m st (st\<lparr>st_q := Close err (st_q st)\<rparr>)"
| set_alive: "pq_step m st (st\<lparr>st_q := SetAlive a (st_q st)\<rparr>)"

definition pq_init :: "pq_state \<Rightarrow> bool" where
  "pq_init st \<longleftrightarrow>
     (\<exists>timeout w a m. healthy w \<and> stream w = [] \<and>
        st = \<lparr>st_q = NewPackQueue timeout w a m, st_pending = [], st_flusher = Running, st_log = []\<rparr>)"

definition open_ok :: "pq_state \<Rightarrow> bool" where
  "open_ok st \<longleftrightarrow>
     (let q = st_q st
      in \<not> fch_closed q \<and> writeError q = None \<and> healthy (pq_w q) \<and> st_flusher st = Running \<and>
         (Buffered (pq_w q) > 0 \<longrightarrow> 0 < fch_len q + length (st_pending st)))"

definition closed_ok :: "pq_state \<Rightarrow> bool" where
  "closed_ok st \<longleftrightarrow>
     (let q = st_q st in fch_closed q \<and> closeFlag (bw_conn (pq_w q)) \<and> tc_netClosed (bw_conn (pq_w q)))"

definition pq_inv :: "pq_state \<Rightarrow> bool" where
  "pq_inv st \<longleftrightarrow>
     (let q = st_q st
      in fch_len q \<le> fch_cap \<and> \<not> writelock q \<and> set (st_pending st) \<subseteq> {None} \<and>
         stream (pq_w q) = concat (map encode_pack (st_log st)) \<and>
         (closeFlag (bw_conn (pq_w q)) \<longrightarrow> tc_netClosed (bw_conn (pq_w q))) \<and>
         (if status q = CONNECTED then open_ok st else status q = CLOSED \<and> closed_ok st))"

lemmas pq_inv_defs = pq_inv_def open_ok_def closed_ok_def Let_def

lemma Close_simps [simp]:
  "fch_len (Close err q) = fch_len q" "writelock (Close err q) = writelock q"
  "fch_closed (Close err q)" "status (Close err q) = CLOSED"
  "closeFlag (bw_conn (pq_w (Close err q)))"
  "stream (pq_w (Close err q)) = stream (pq_w q)" "writeError (Close err q) = err"
  by (simp_all add: Close_def CloseFch_def TCPConn_Close_def stream_def Let_def)

lemma Close_netClosed [simp]:
  "(closeFlag (bw_conn (pq_w q)) \<longrightarrow> tc_netClosed (bw_conn (pq_w q))) \<Longrightarrow>
   tc_netClosed (bw_conn (pq_w (Close err q)))"
  by (simp add: Close_def CloseFch_def TCPConn_Close_def Let_def)

lemma SetAlive_simps [simp]:
  "fch_len (SetAlive a q) = fch_len q" "writelock (SetAlive a q) = writelock q"
  "fch_closed (SetAlive a q) = fch_closed q" "status (SetAlive a q) = status q"
  "pq_w (SetAlive a q) = pq_w q" "writeError (SetAlive a q) = writeError q"
  "MaxPackSize (SetAlive a q) = MaxPackSize q"
  by (simp_all add: SetAlive_def Let_def)

lemma pq_inv_Close: "pq_inv st \<Longrightarrow> pq_inv (st\<lparr>st_q := Close err (st_q st), st_pending := ps\<rparr>)"
  if "set ps \<subseteq> {None}"
  using that by (auto simp: pq_inv_defs)

lemma pq_inv_init [inv_rules]: "pq_init st \<Longrightarrow> pq_inv st"
  by (auto simp: pq_init_def pq_inv_defs NewPackQueue_def healthy_def stream_def Buffered_def)

lemma pq_inv_enter:
  assumes inv: "pq_inv st" and pk: "out_ok m pk" and e: "WritePack_enter pk (st_q st) = Ret (res, q)"
  shows "pq_inv (st_entered pk res q st)"
proof (cases "isConnected (st_q st) \<and> Available (pq_w (st_q st)) > 0")
  case True
  then have h: "healthy (pq_w (st_q st))" and we: "writeError (st_q st) = None"
    using inv by (auto simp: pq_inv_defs isConnected_def)
  from appendsD[OF appends_DelayWritePack[OF pk] h] obtain w where
    w: "DelayWritePack pk (pq_w (st_q st)) = Ret (None, w)" "healthy w"
      "stream w = stream (pq_w (st_q st)) @ encode_pack pk" by blast
  then have "res = Wrote None" "q = (st_q st)\<lparr>pq_w := w\<rparr>"
    using e True we by (auto simp: WritePack_enter_def)
  with w inv True show ?thesis
    by (auto simp: pq_inv_defs st_entered_def isConnected_def healthy_def)
next
  case False
  then have "q = st_q st" "\<exists>e. res = Early e"
    using e inv by (auto simp: WritePack_enter_def pq_inv_defs isConnected_def split: option.splits if_splits)
  with inv show ?thesis by (auto simp: st_entered_def pq_inv_defs)
qed

lemma pq_inv_notify:
  assumes "pq_inv st" "err \<in> set (st_pending st)" "WritePack_notify err (st_q st) = Some (e, q)"
  shows "pq_inv (st\<lparr>st_q := q, st_pending := remove1 err (st_pending st)\<rparr>)"
proof -
  have ps: "set (remove1 err (st_pending st)) \<subseteq> {None}" and err: "err = None"
    using assms(1,2) set_remove1_subset[of err "st_pending st"] by (auto simp: pq_inv_defs)
  show ?thesis
  proof (cases "fch_closed (st_q st)")
    case True
    then have "q = Close e (st_q st)" using assms(3) by (auto simp: WritePack_notify_def Let_def)
    then show ?thesis using pq_inv_Close[OF ps assms(1)] by simp
  next
    case False
    then have "q = (st_q st)\<lparr>fch_len := fch_len (st_q st) + 1\<rparr>" "fch_len (st_q st) < fch_cap"
      using assms(3) err by (auto simp: WritePack_notify_def Let_def split: if_splits)
    with assms(1) ps show ?thesis by (auto simp: pq_inv_defs)
  qed
qed

lemma pq_inv_flusher:
  assumes "pq_inv st" "Flusher_round (st_q st) = Some (f, q)" "st_flusher st = Running"
  shows "pq_inv (st\<lparr>st_q := q, st_flusher := f\<rparr>)"
proof (cases "isConnected (st_q st)")
  case True
  then have h: "healthy (pq_w (st_q st))" using assms(1) by (auto simp: pq_inv_defs isConnected_def)
  from Flush_healthy[OF h] obtain w where
    "Flush (pq_w (st_q st)) = (None, w)" "healthy w" "stream w = stream (pq_w (st_q st))" "bw_buf w = []"
    by blast
  with assms True show ?thesis
    by (auto simp: Flusher_round_def pq_inv_defs isConnected_def Buffered_def healthy_def
        split: if_splits)
next
  case False
  with assms show ?thesis by (auto simp: Flusher_round_def pq_inv_defs isConnected_def)
qed

lemma pq_inv_step [inv_rules]:
  assumes "pq_inv st" "pq_step m st st'"
  shows "pq_inv st'"
  using assms(2)
proof cases
  case (enter pk res q)
  with assms(1) pq_inv_enter show ?thesis by blast
next
  case (notify err e q)
  with assms(1) pq_inv_notify show ?thesis by blast
next
  case (flusher f q)
  with assms(1) pq_inv_flusher show ?thesis by blast
next
  case (closing err)
  with assms(1) pq_inv_Close[of "st_pending st" st err] show ?thesis by (auto simp: pq_inv_defs)
next
  case (set_alive a)
  with assms(1) show ?thesis by (auto simp: pq_inv_defs)
qed

interpretation pq: invariant_system pq_init "pq_step m" pq_inv for m
  by unfold_locales (rule inv_rules, assumption)+

section \<open>After Close\<close>

lemma closed_step:
  assumes "pq_inv st" "pq_step m st st'" "status (st_q st) = CLOSED"
  shows "status (st_q st') = CLOSED \<and> st_log st' = st_log st \<and>
    bw_buf (pq_w (st_q st')) = bw_buf (pq_w (st_q st)) \<and>
    tc_sent (bw_conn (pq_w (st_q st'))) = tc_sent (bw_conn (pq_w (st_q st)))"
proof -
  have closed: "fch_closed (st_q st)" "\<not> isConnected (st_q st)"
    using assms(1,3) by (auto simp: pq_inv_defs isConnected_def)
  have keep: "bw_buf (pq_w (Close e q)) = bw_buf (pq_w q)"
    "tc_sent (bw_conn (pq_w (Close e q))) = tc_sent (bw_conn (pq_w q))" for e q
    by (simp_all add: Close_def CloseFch_def TCPConn_Close_def Let_def)
  from assms(2) show ?thesis
    by cases (use closed assms(3) keep in \<open>auto simp: st_entered_def WritePack_enter_def
        WritePack_notify_def Flusher_round_def Let_def\<close>)
qed

lemma closed_steps:
  assumes "(pq_step m)\<^sup>*\<^sup>* st st'" "pq_inv st" "status (st_q st) = CLOSED"
  shows "pq_inv st' \<and> status (st_q st') = CLOSED \<and> st_log st' = st_log st \<and>
    tc_sent (bw_conn (pq_w (st_q st'))) = tc_sent (bw_conn (pq_w (st_q st)))"
  using assms
proof (induction rule: rtranclp_induct)
  case (step y z)
  with closed_step[of y m z] pq_inv_step show ?case by metis
qed simp

section \<open>The read loop ends\<close>

lemma ReadPackInLoop_disconnected:
  "ReadPackInLoop recover r (q, s) = Ret (q', s', r') \<Longrightarrow> \<not> isConnected q' \<and> advances r r'"
proof (induction recover r "(q, s)" arbitrary: q s rule: ReadPackInLoop.induct)
  case (1 recover r q s)
  note IH = "1.hyps"
  show ?case
  proof (cases "isConnected q")
    case True
    obtain pk err r1 where rp: "ReadPack r (MaxPackSize q) = ((pk, err), r1)" by (metis surj_pair)
    then have adv: "advances r r1" by (rule ReadPack_adv)
    consider (stop) "q' = Close err q" "r' = r1" | (next_round) q1 s1 where
      "err = None" "recover pk (q, s) = Ret (None, q1, s1)"
      "ReadPackInLoop recover r1 (q1, s1) = Ret (q', s', r')" | (failed) q1 e where "q' = Close e q1" "r' = r1"
      using "1.prems" True rp
      by (subst (asm) ReadPackInLoop.simps) (auto split: if_splits outcome.splits prod.splits)
    then show ?thesis
    proof cases
      case next_round
      with IH[OF True rp[symmetric] refl] adv show ?thesis by (auto intro: advances_trans)
    qed (use adv in \<open>auto simp: isConnected_def\<close>)
  next
    case False
    with "1.prems" show ?thesis by (subst (asm) ReadPackInLoop.simps) auto
  qed
qed

lemma ReadPackInLoop_returns:
  assumes "\<And>pk x. \<exists>y. recover pk x = Ret y"
  shows "\<exists>y. ReadPackInLoop recover r (q, s) = Ret y"
proof (induction "length (rd_data r)" arbitrary: r q s rule: less_induct)
  case less
  obtain pk err r1 where rp: "ReadPack r (MaxPackSize q) = ((pk, err), r1)" by (metis surj_pair)
  obtain e q1 s1 where rc: "recover pk (q, s) = Ret (e, q1, s1)" by (metis assms surj_pair)
  have "err = None \<Longrightarrow> \<exists>y. ReadPackInLoop recover r1 (q1, s1) = Ret y"
    using less ReadPack_shrinks rp by metis
  with rp rc show ?case by (subst ReadPackInLoop.simps) auto
qed

section \<open>Properties\<close>

lemma Flusher_empties:
  assumes "pq_inv st" "isConnected (st_q st)" "Buffered (pq_w (st_q st)) > 0" "st_pending st = []"
  shows "\<exists>q. Flusher_round (st_q st) = Some (Running, q) \<and> bw_buf (pq_w q) = [] \<and>
    stream (pq_w q) = stream (pq_w (st_q st))"
proof -
  from assms have h: "healthy (pq_w (st_q st))" and "0 < fch_len (st_q st)" "\<not> writelock (st_q st)"
    by (auto simp: pq_inv_defs isConnected_def)
  moreover from Flush_healthy[OF h] obtain w where
    "Flush (pq_w (st_q st)) = (None, w)" "stream w = stream (pq_w (st_q st))" "bw_buf w = []" by blast
  ultimately show ?thesis using assms(2,3) by (auto simp: Flusher_round_def)
qed


definition fresh_conn :: tcp_conn where
  "fresh_conn = \<lparr>closeFlag = False, tc_sent = [], tc_left = None, tc_netClosed = False\<rparr>"

definition fresh_writer :: bwriter where
  "fresh_writer = \<lparr>bw_buf = [], bw_size = 16, bw_err = None, bw_conn = fresh_conn\<rparr>"

definition fresh_state :: pq_state where
  "fresh_state = \<lparr>st_q = NewPackQueue 10 fresh_writer 60 1024, st_pending = [],
     st_flusher = Running, st_log = []\<rparr>"

definition written_state :: pq_state where
  "written_state = fresh_state\<lparr>st_q := (st_q fresh_state)\<lparr>pq_w := fresh_writer\<lparr>bw_buf := [32, 2, 0, 0]\<rparr>\<rparr>,
     st_pending := [None], st_log := [GetConnAckPack 0]\<rparr>"

lemma fresh_init: "pq_init fresh_state"
proof -
  have "healthy fresh_writer \<and> stream fresh_writer = []"
    by (simp add: fresh_writer_def fresh_conn_def healthy_def stream_def)
  then show ?thesis unfolding pq_init_def fresh_state_def by blast
qed

lemma writeFull_fresh:
  "writeFull [a, b] (fresh_writer\<lparr>bw_buf := [x, y]\<rparr>) = Ret (None, fresh_writer\<lparr>bw_buf := [x, y, a, b]\<rparr>)"
  by (simp add: writeFull_eq Write_def bw_loop_done fresh_writer_def fresh_conn_def Available_def)

lemma written_step: "pq_step 1024 fresh_state written_state"
proof -
  have "DelayWritePack (GetConnAckPack 0) fresh_writer =
      Ret (None, fresh_writer\<lparr>bw_buf := [32, 2, 0, 0]\<rparr>)"
    using writeFull_fresh[of 0 0 32 2]
    by (simp add: DelayWritePack_def wthen_def WriteByte_def writeVariable_def writeConnack_def
        pack_constructors pack_types fixed_byte_def writeLengthByte_def getRemainingLength_eq
        mqtt_varint.simps[of 2] wdone_def Available_def fresh_writer_def)
  then have "WritePack_enter (GetConnAckPack 0) (st_q fresh_state) =
      Ret (Wrote None, (st_q fresh_state)\<lparr>pq_w := fresh_writer\<lparr>bw_buf := [32, 2, 0, 0]\<rparr>\<rparr>)"
    by (simp add: WritePack_enter_def fresh_state_def isConnected_def NewPackQueue_def Let_def
        SetAlive_def Available_def fresh_writer_def)
  moreover have "out_ok 1024 (GetConnAckPack 0)"
    by (simp add: out_ok_def pack_constructors body_length_def pack_types)
  ultimately have "pq_step 1024 fresh_state
      (st_entered (GetConnAckPack 0) (Wrote None)
        ((st_q fresh_state)\<lparr>pq_w := fresh_writer\<lparr>bw_buf := [32, 2, 0, 0]\<rparr>\<rparr>) fresh_state)"
    by (intro pq_step.enter) (simp_all add: fresh_state_def NewPackQueue_def SetAlive_def Let_def)
  then show ?thesis by (simp add: st_entered_def written_state_def fresh_state_def)
qed

lemma written_reachable: "reach pq_init (pq_step 1024) written_state"
  by (rule reach_step[where s = fresh_state], rule reach_init, rule fresh_init, rule written_step)

definition notified_state :: pq_state where
  "notified_state = written_state\<lparr>st_q := (st_q written_state)\<lparr>fch_len := 1\<rparr>, st_pending := []\<rparr>"

lemma notified_reachable: "reach pq_init (pq_step 1024) notified_state"
proof (rule reach_step[where s = written_state], rule written_reachable)
  have "WritePack_notify None (st_q written_state) =
      Some (None, (st_q written_state)\<lparr>fch_len := 1\<rparr>)"
    by (simp add: WritePack_notify_def written_state_def fresh_state_def NewPackQueue_def SetAlive_def
        fch_cap_def Let_def)
  then have "pq_step 1024 written_state
      (written_state\<lparr>st_q := (st_q written_state)\<lparr>fch_len := 1\<rparr>,
        st_pending := remove1 None (st_pending written_state)\<rparr>)"
    by (intro pq_step.notify) (simp_all add: written_state_def)
  then show "pq_step 1024 written_state notified_state"
    by (simp add: notified_state_def written_state_def)
qed


text \<open>\<open>Close\<close> is final: from a reachable closed state no interleaving reopens the queue,
  accepts another packet or puts another byte on the connection.\<close>

theorem pack_queue_close_is_final:
  assumes "reach pq_init (pq_step m) st" "status (st_q st) = CLOSED" "(pq_step m)\<^sup>*\<^sup>* st st'"
  shows "status (st_q st') = CLOSED \<and> closeFlag (bw_conn (pq_w (st_q st'))) \<and> st_log st' = st_log st \<and>
    tc_sent (bw_conn (pq_w (st_q st'))) = tc_sent (bw_conn (pq_w (st_q st)))"
  using closed_steps[OF assms(3) pq.inv_reach[OF assms(1)] assms(2)]
  by (auto simp: pq_inv_defs)

theorem pack_queue_close_is_final_witness:
  "let st = written_state\<lparr>st_q := Close (Some EOF) (st_q written_state)\<rparr>
   in status (st_q st) = CLOSED \<and> closeFlag (bw_conn (pq_w (st_q st))) \<and> st_log st = st_log st \<and>
     tc_sent (bw_conn (pq_w (st_q st))) = tc_sent (bw_conn (pq_w (st_q st)))"
  unfolding Let_def
proof (rule pack_queue_close_is_final)
  show "reach pq_init (pq_step 1024) (written_state\<lparr>st_q := Close (Some EOF) (st_q written_state)\<rparr>)"
    by (rule reach_step[where s = written_state], rule written_reachable, rule pq_step.closing)
qed simp_all

text \<open>C25: The read loop always ends, whatever bytes the peer sends: as long as the callback
  returns, \<open>ReadPackInLoop\<close> returns, having only moved forward in the stream, and leaves the
  queue disconnected.\<close>

theorem read_loop_ends_disconnected:
  assumes "\<And>pk x. \<exists>y. recover pk x = Ret y"
  shows "\<exists>q' s' r'. ReadPackInLoop recover r (q, s) = Ret (q', s', r') \<and> \<not> isConnected q' \<and> advances r r'"
  using ReadPackInLoop_returns[of recover r q s, OF assms]
    ReadPackInLoop_disconnected[of recover r q s] by fastforce

theorem read_loop_ends_disconnected_witness:
  "\<exists>q' s' r'. ReadPackInLoop (\<lambda>pk (q, n). Ret (None, q, n + 1))
      \<lparr>rd_data = [192, 0, 192, 0], rd_end = EOF\<rparr> (st_q fresh_state, 0::nat) = Ret (q', s', r') \<and>
    \<not> isConnected q' \<and> advances \<lparr>rd_data = [192, 0, 192, 0], rd_end = EOF\<rparr> r'"
  by (rule read_loop_ends_disconnected) auto

text \<open>A panic while a packet is encoded (a nil topic, a length over four bytes) is recovered
  and closes the queue, but the lock is not released: every later \<open>WritePack\<close> blocks forever.\<close>

theorem write_panic_leaves_queue_locked:
  assumes "isConnected q" "\<not> writelock q" "writeError q = None" "Available (pq_w q) > 0"
    "DelayWritePack pk (pq_w q) = Panic s"
  shows "\<exists>q'. PackQueue_WritePack pk q = Ret (Some (write_panic s), q') \<and> status q' = CLOSED \<and>
    (\<forall>pk'. PackQueue_WritePack pk' q' = Hang)"
  using assms by (simp add: PackQueue_WritePack_def WritePack_enter_def)

theorem write_panic_leaves_queue_locked_witness:
  "\<exists>q'. PackQueue_WritePack (GetPubPack 0 0 1 None [7]) (st_q fresh_state) =
      Ret (Some (write_panic ''invalid memory address or nil pointer dereference''), q') \<and>
    status q' = CLOSED \<and> (\<forall>pk'. PackQueue_WritePack pk' q' = Hang)"
proof (rule write_panic_leaves_queue_locked)
  show "DelayWritePack (GetPubPack 0 0 1 None [7]) (pq_w (st_q fresh_state)) =
      Panic ''invalid memory address or nil pointer dereference''"
    by (simp add: DelayWritePack_def wthen_def WriteByte_def writeVariable_def writePublish_def
        pack_constructors pack_types wpanic_def fresh_state_def NewPackQueue_def Let_def Available_def
        fresh_writer_def)
qed (simp_all add: fresh_state_def NewPackQueue_def SetAlive_def Let_def isConnected_def Available_def
    fresh_writer_def)

end
