(* ===== verification/Mqtt_Client.thy ===== *)
theory Mqtt_Client
  imports Pack_Queue
begin

text \<open>
  The gate's end of one MQTT connection (\<^verbatim>\<open>src/gate/base/mqtt/mqtt_client_server.go\<close>):
  \<open>waitPack\<close>, the callback of the read loop that acknowledges packets and hands the rest to the
  agent, the message ids, \<open>WriteMsg\<close> and \<open>Listen_loop\<close>. The agent (\<open>PackRecover.OnRecover\<close>) is an
  argument: a function on a state of its own that returns, panics or blocks.
\<close>

record client =
  queue :: pack_queue
  isStop :: bool
  curr_id :: int

type_synonym 's on_recover = "pack \<Rightarrow> 's \<Rightarrow> 's outcome"

definition NewClient :: "int \<Rightarrow> bwriter \<Rightarrow> int \<Rightarrow> int \<Rightarrow> client" where
  "NewClient timeout w a maxPackSize =
     \<lparr>queue = NewPackQueue timeout w a maxPackSize, isStop = False, curr_id = 0\<rparr>"

definition GetError :: "client \<Rightarrow> go_error option" where
  "GetError c = writeError (queue c)"

definition MaxUint16 :: int where
  "MaxUint16 = 65535"

definition getOnlineMsgId :: "client \<Rightarrow> int \<times> client" where
  "getOnlineMsgId c =
     (if curr_id c = MaxUint16 then (1, c\<lparr>curr_id := 1\<rparr>)
      else (curr_id c + 1, c\<lparr>curr_id := curr_id c + 1\<rparr>))"

section \<open>Handling a packet\<close>

text \<open>\<open>err = c.queue.WritePack(ack)\<close>, then \<open>c.recover.OnRecover(pack)\<close> in the cases that have it.\<close>

definition reply ::
    "pack \<Rightarrow> pack_queue \<times> 's \<Rightarrow> (go_error option \<times> pack_queue \<times> 's) outcome" where
  "reply ack qs =
     (case qs of (q, s) \<Rightarrow>
        outcome_bind (PackQueue_WritePack ack q) (\<lambda>(err, q). Ret (err, q, s)))"

definition hand_over ::
    "'s on_recover \<Rightarrow> pack \<Rightarrow> go_error option \<times> pack_queue \<times> 's
      \<Rightarrow> (go_error option \<times> pack_queue \<times> 's) outcome" where
  "hand_over OnRecover pk res =
     (case res of (err, q, s) \<Rightarrow> outcome_bind (OnRecover pk s) (\<lambda>s. Ret (err, q, s)))"

text \<open>The loop over the topics of a SUBSCRIBE: an acknowledgement for each of quality of service 2.\<close>

fun ack_topics ::
    "int \<Rightarrow> topics list \<Rightarrow> go_error option \<times> pack_queue \<times> 's
      \<Rightarrow> (go_error option \<times> pack_queue \<times> 's) outcome" where
  "ack_topics mid [] res = Ret res"
| "ack_topics mid (tp # tps) (err, q, s) =
     (if top_Qos tp = 2
      then outcome_bind (reply (GetSubAckPack mid) (q, s)) (ack_topics mid tps)
      else ack_topics mid tps (err, q, s))"

definition waitPack ::
    "'s on_recover \<Rightarrow> pack option \<Rightarrow> pack_queue \<times> 's \<Rightarrow> (go_error option \<times> pack_queue \<times> 's) outcome"
where
  "waitPack OnRecover p qs =
     (case p of
        None \<Rightarrow> Panic ''invalid memory address or nil pointer dereference''
      | Some pk \<Rightarrow>
        let typ = msg_type pk; (q, s) = qs; ignored = Ret (None, q, s)
        in if typ = CONNECT
           then (case variable pk of
                   VConnect conn \<Rightarrow>
                     reply (GetConnAckPack 0) (SetAlive (fst (GetKeepAlive conn)) q, s)
                 | _ \<Rightarrow> Ret (Some (Errorf ''It's not a mqtt connection package.'' []), q, s))
           else if typ = PUBLISH
           then (case variable pk of
                   VPublish pub \<Rightarrow>
                     outcome_bind
                       (if qos_level pk = 1 then reply (GetPubAckPack (pub_mid pub)) (q, s)
                        else if qos_level pk = 2 then reply (GetPubRECPack (pub_mid pub)) (q, s)
                        else ignored)
                       (hand_over OnRecover pk)
                 | _ \<Rightarrow> Panic ''interface conversion'')
           else if typ = PUBACK then ignored
           else if typ = PUBREC
           then (case variable pk of
                   VPuback ack \<Rightarrow> reply (GetPubRELPack (ack_mid ack)) (q, s)
                 | _ \<Rightarrow> Panic ''interface conversion'')
           else if typ = PUBREL
           then (case variable pk of
                   VPuback ack \<Rightarrow> reply (GetPubCOMPPack (ack_mid ack)) (q, s)
                 | _ \<Rightarrow> Panic ''interface conversion'')
           else if typ = PUBCOMP then ignored
           else if typ = SUBSCRIBE
           then (case variable pk of
                   VSubscribe sub \<Rightarrow>
                     outcome_bind (ack_topics (sub_mid sub) (sub_topics sub) (None, q, s))
                       (hand_over OnRecover pk)
                 | _ \<Rightarrow> Panic ''interface conversion'')
           else if typ = UNSUBSCRIBE
           then (case variable pk of
                   VUNSubscribe sub \<Rightarrow>
                     outcome_bind (reply (GetUNSubAckPack (unsub_mid sub)) (q, s))
                       (hand_over OnRecover pk)
                 | _ \<Rightarrow> Panic ''interface conversion'')
           else if typ = PINGREQ
           then outcome_bind (reply (GetPingResp 0 (dup_flag pk)) (q, s)) (hand_over OnRecover pk)
           else ignored)"

section \<open>Messages and the loop\<close>

definition WriteMsg :: "string \<Rightarrow> bytes \<Rightarrow> client \<Rightarrow> (go_error option \<times> client) outcome" where
  "WriteMsg topic body c =
     (if isStop c then Ret (Some (Errorf ''connection is closed'' []), c)
      else (let (mid, c) = getOnlineMsgId c;
                pk = GetPubPack 0 0 mid (Some topic) body
            in outcome_bind (PackQueue_WritePack pk (queue c))
                 (\<lambda>(err, q). Ret (err, c\<lparr>queue := q\<rparr>))))"

text \<open>
  \<open>Listen_loop\<close>: the read loop, then \<open>isStop\<close>. A panic below it is recovered, and the function
  returns without setting \<open>isStop\<close>; the state it leaves is the one of the panicking callback, of
  which only the client's own fields are known, so \<open>None\<close> stands for it.
\<close>

definition Listen_loop ::
    "'s on_recover \<Rightarrow> reader \<Rightarrow> client \<times> 's \<Rightarrow> (client \<times> 's) option outcome" where
  "Listen_loop OnRecover r cs =
     (case cs of (c, s) \<Rightarrow>
        case ReadPackInLoop (waitPack OnRecover) r (queue c, s) of
          Ret (q, s, _) \<Rightarrow> Ret (Some (c\<lparr>queue := q, isStop := True\<rparr>, s))
        | Panic _ \<Rightarrow> Ret None
        | Hang \<Rightarrow> Hang)"

section \<open>Message ids\<close>

fun msg_ids :: "nat \<Rightarrow> client \<Rightarrow> int list" where
  "msg_ids 0 c = []"
| "msg_ids (Suc n) c = (let (i, c) = getOnlineMsgId c in i # msg_ids n c)"

lemma msg_ids_mod:
  "0 \<le> curr_id c \<Longrightarrow> curr_id c \<le> MaxUint16 \<Longrightarrow> i < n \<Longrightarrow>
   msg_ids n c ! i = (curr_id c + int i) mod MaxUint16 + 1"
proof (induction n arbitrary: c i)
  case (Suc n)
  obtain j c' where g: "getOnlineMsgId c = (j, c')" by fastforce
  have j: "j = curr_id c mod MaxUint16 + 1" "curr_id c' = j"
    using g Suc.prems(1,2) by (auto simp: getOnlineMsgId_def MaxUint16_def split: if_splits)
  then have range: "0 \<le> curr_id c'" "curr_id c' \<le> MaxUint16"
    by (auto simp: MaxUint16_def add1_zle_eq)
  show ?case
  proof (cases i)
    case 0
    with g j show ?thesis by simp
  next
    case (Suc k)
    have "msg_ids n c' ! k = (curr_id c' + int k) mod MaxUint16 + 1"
      using Suc.IH[OF range] Suc Suc.prems(3) by simp
    also have "(curr_id c' + int k) mod MaxUint16 = (curr_id c + int i) mod MaxUint16"
      using j Suc by (simp add: mod_simps add.assoc)
    finally show ?thesis using g Suc by simp
  qed
qed simp

section \<open>No panic of its own\<close>

lemma WritePack_no_panic: "PackQueue_WritePack pk q \<noteq> Panic s"
  by (auto simp: PackQueue_WritePack_def WritePack_enter_def outcome_bind_def
      split: outcome.splits entered.splits option.splits if_splits)

lemma reply_no_panic: "reply ack qs \<noteq> Panic p"
  by (auto simp: reply_def outcome_bind_def WritePack_no_panic split: outcome.splits prod.splits)

lemma outcome_bind_Panic:
  "outcome_bind m f = Panic p \<Longrightarrow> m = Panic p \<or> (\<exists>a. m = Ret a \<and> f a = Panic p)"
  by (cases m) auto

lemma ack_topics_no_panic: "ack_topics mid tps res \<noteq> Panic p"
proof (induction mid tps res rule: ack_topics.induct)
  case (2 mid tp tps err q s)
  then show ?case by (auto simp: reply_no_panic dest!: outcome_bind_Panic)
qed simp

lemma hand_over_no_panic: "(\<And>pk s p. rec pk s \<noteq> Panic p) \<Longrightarrow> hand_over rec pk res \<noteq> Panic p"
  by (auto simp: hand_over_def dest!: outcome_bind_Panic split: prod.splits)

lemma waitPack_no_panic:
  assumes "pack_ok pk" "\<And>pk s p. rec pk s \<noteq> Panic p"
  shows "waitPack rec (Some pk) qs \<noteq> Panic p"
proof
  assume "waitPack rec (Some pk) qs = Panic p"
  then show False
    using assms(1) hand_over_no_panic[OF assms(2)]
    by (auto simp: waitPack_def Let_def pack_ok_def variable_ok_def pack_types reply_no_panic
        ack_topics_no_panic dest!: outcome_bind_Panic split: if_splits prod.splits pvariable.splits)
qed

lemma ReadPackInLoop_no_panic:
  assumes "\<And>pk s p. rec pk s \<noteq> Panic p"
  shows "ReadPackInLoop (waitPack rec) r (q, s) \<noteq> Panic p"
proof (induction "length (rd_data r)" arbitrary: r q s rule: less_induct)
  case less
  obtain pk err r1 where rp: "ReadPack r (MaxPackSize q) = ((pk, err), r1)" by (metis surj_pair)
  show ?case
  proof (cases "err = None")
    case True
    with rp obtain p' where p': "pk = Some p'" "pack_ok p'" using ReadPack_success(1) by blast
    have "length (rd_data r1) < length (rd_data r)" using rp True ReadPack_shrinks by metis
    with less have "ReadPackInLoop (waitPack rec) r1 (q1, s1) \<noteq> Panic p" for q1 s1 by blast
    with rp True p' waitPack_no_panic[OF p'(2) assms] show ?thesis
      by (subst ReadPackInLoop.simps) (auto split: outcome.splits)
  next
    case False
    with rp show ?thesis by (subst ReadPackInLoop.simps) auto
  qed
qed

section \<open>Acknowledgements\<close>

text \<open>
  The protocol as a table: the acknowledgement a packet is owed, and whether the agent sees the
  packet. SUBSCRIBE is the exception (an acknowledgement per topic of quality of service 2).
\<close>

definition ack_pack :: "pack \<Rightarrow> pack option" where
  "ack_pack pk =
     (if msg_type pk = CONNECT then Some (GetConnAckPack 0)
      else if msg_type pk = PUBLISH
      then (case variable pk of
              VPublish pub \<Rightarrow>
                (if qos_level pk = 1 then Some (GetPubAckPack (pub_mid pub))
                 else if qos_level pk = 2 then Some (GetPubRECPack (pub_mid pub)) else None)
            | _ \<Rightarrow> None)
      else if msg_type pk = PUBREC
      then (case variable pk of VPuback a \<Rightarrow> Some (GetPubRELPack (ack_mid a)) | _ \<Rightarrow> None)
      else if msg_type pk = PUBREL
      then (case variable pk of VPuback a \<Rightarrow> Some (GetPubCOMPPack (ack_mid a)) | _ \<Rightarrow> None)
      else if msg_type pk = UNSUBSCRIBE
      then (case variable pk of VUNSubscribe u \<Rightarrow> Some (GetUNSubAckPack (unsub_mid u)) | _ \<Rightarrow> None)
      else if msg_type pk = PINGREQ then Some (GetPingResp 0 (dup_flag pk))
      else None)"

definition for_agent :: "pack \<Rightarrow> bool" where
  "for_agent pk \<longleftrightarrow> msg_type pk \<in> {PUBLISH, SUBSCRIBE, UNSUBSCRIBE, PINGREQ}"

definition ready :: "pack_queue \<Rightarrow> bool" where
  "ready q \<longleftrightarrow> isConnected q \<and> \<not> writelock q \<and> writeError q = None \<and> healthy (pq_w q) \<and>
     Available (pq_w q) > 0 \<and> \<not> fch_closed q \<and> fch_len q < fch_cap"

definition mids_ok :: "pvariable \<Rightarrow> bool" where
  "mids_ok v =
     (case v of
        VPublish pub \<Rightarrow> mid_ok (pub_mid pub)
      | VPuback a \<Rightarrow> mid_ok (ack_mid a)
      | VUNSubscribe u \<Rightarrow> mid_ok (unsub_mid u)
      | _ \<Rightarrow> True)"

lemma readInt_mid_ok: "readInt r n = ((k, err), r') \<Longrightarrow> mid_ok k"
  using uint_lt2p[where ?'a = 16]
  by (auto simp: readInt_def mid_ok_def Let_def split: prod.splits if_splits)

lemma readTopics_unsub_mid: "unsub_mid (fst (readTopics_unsub s v r)) = unsub_mid s"
proof (induction "nat v" arbitrary: s v r rule: less_induct)
  case less
  show ?case
    by (subst readTopics_unsub.simps)
      (auto simp: less.hyps unsub_addTopics_def dest!: readInt_pos_adv split: prod.splits if_splits)
qed

lemma readTopics_unsub_keeps_mid: "readTopics_unsub s v r = (s', r') \<Longrightarrow> unsub_mid s' = unsub_mid s"
  using readTopics_unsub_mid[of s v r] by simp

lemma readPublish_mid: "readPublish q l r = ((p, err), r') \<Longrightarrow> mid_ok (pub_mid p)"
  by (auto simp: readPublish_def Let_def mid_ok_def[of 0] dest!: readInt_mid_ok
      split: prod.splits if_splits)

lemma readUNSubscribe_mid: "readUNSubscribe l r = ((u, err), r') \<Longrightarrow> mid_ok (unsub_mid u)"
  by (auto simp: readUNSubscribe_def Let_def dest!: readInt_mid_ok readTopics_unsub_keeps_mid
      split: prod.splits if_splits)

lemma readVariable_mids: "readVariable t q l r = ((v, None), r') \<Longrightarrow> mids_ok v"
  by (auto simp: readVariable_def wrapVariable_def readPuback_def readSuback_def readUNSuback_def
      readDefault_def mids_ok_def Let_def
      dest: readPublish_mid readUNSubscribe_mid readInt_mid_ok
      split: if_splits prod.splits sum.splits)

lemma dup_flag_small: "dup_flag (parse_fixed b) < 2"
proof -
  have "drop_bit 3 (b AND 15) = take_bit 1 (drop_bit 3 b)"
    by (intro bit_word_eqI) (auto simp: bit_simps even_drop_bit_iff_not_bit)
  then show ?thesis by (simp add: parse_fixed_def Let_def word_mod_less_divisor take_bit_eq_mod)
qed

lemma ReadPack_fields:
  assumes "ReadPack r m = ((Some pk, None), r')"
  shows "mids_ok (variable pk) \<and> dup_flag pk < 2"
proof -
  from assms obtain b l r3 v where
    "readVariable (msg_type (parse_fixed b)) (qos_level (parse_fixed b)) l r3 = ((v, None), r')"
      and p: "pk = (parse_fixed b)\<lparr>pk_length := l, variable := v\<rparr>"
    by (auto simp: ReadPack_def Let_def split: prod.splits sum.splits if_splits)
  then show ?thesis using readVariable_mids dup_flag_small by auto
qed

lemma WritePack_ready:
  assumes "ready q" "out_ok m pk"
  shows "\<exists>q'. PackQueue_WritePack pk q = Ret (None, q') \<and> isConnected q' \<and>
    stream (pq_w q') = stream (pq_w q) @ encode_pack pk"
proof -
  from assms have h: "healthy (pq_w q)" by (simp add: ready_def)
  from appendsD[OF appends_DelayWritePack[OF assms(2)] h] obtain w where
    "DelayWritePack pk (pq_w q) = Ret (None, w)" "stream w = stream (pq_w q) @ encode_pack pk" by blast
  with assms(1) show ?thesis
    by (auto simp: PackQueue_WritePack_def WritePack_enter_def WritePack_notify_def ready_def
        isConnected_def Let_def)
qed

lemma ready_SetAlive: "ready q \<Longrightarrow> ready (SetAlive a q)"
  by (simp add: ready_def isConnected_def)

lemma reply_ready:
  assumes "ready q" "out_ok m ack"
  shows "\<exists>q'. reply ack (q, s) = Ret (None, q', s) \<and> isConnected q' \<and>
    stream (pq_w q') = stream (pq_w q) @ encode_pack ack"
  using WritePack_ready[OF assms] by (auto simp: reply_def)

lemma ack_out_ok:
  assumes "mids_ok (variable pk)" "dup_flag pk < 2" "ack_pack pk = Some ack"
  shows "out_ok 3 ack"
  using assms
  by (auto simp: ack_pack_def mids_ok_def out_ok_def pack_constructors body_length_def pack_types
      split: pvariable.splits if_splits)

lemma outcome_bind_Ret_right: "outcome_bind x Ret = x"
  by (cases x) simp_all

lemma waitPack_reply:
  assumes ok: "pack_ok pk" and ns: "msg_type pk \<noteq> SUBSCRIBE"
  shows "\<exists>a. waitPack rec (Some pk) (q, s) =
    outcome_bind
      (case ack_pack pk of None \<Rightarrow> Ret (None, q, s)
       | Some ack \<Rightarrow> reply ack (if msg_type pk = CONNECT then SetAlive a q else q, s))
      (if for_agent pk then hand_over rec pk else Ret)"
proof -
  note defs = waitPack_def ack_pack_def for_agent_def outcome_bind_Ret_right Let_def
  consider "msg_type pk = CONNECT" | "msg_type pk = PUBLISH" | "msg_type pk = PUBREC"
    | "msg_type pk = PUBREL" | "msg_type pk = UNSUBSCRIBE" | "msg_type pk = PINGREQ"
    | "msg_type pk \<notin> {CONNECT, PUBLISH, PUBREC, PUBREL, UNSUBSCRIBE, PINGREQ, SUBSCRIBE}"
    using ns by auto
  then show ?thesis
  proof cases
    case 1
    with ok obtain c where "variable pk = VConnect c" by (auto simp: pack_ok_def variable_ok_def)
    with 1 show ?thesis by (auto simp: defs pack_types)
  next
    case 2
    with ok obtain c where "variable pk = VPublish c" by (auto simp: pack_ok_def variable_ok_def)
    with 2 show ?thesis by (simp add: defs pack_types)
  next
    case 3
    with ok obtain c where "variable pk = VPuback c" by (auto simp: pack_ok_def variable_ok_def)
    with 3 show ?thesis by (simp add: defs pack_types)
  next
    case 4
    with ok obtain c where "variable pk = VPuback c" by (auto simp: pack_ok_def variable_ok_def)
    with 4 show ?thesis by (simp add: defs pack_types)
  next
    case 5
    with ok obtain c where "variable pk = VUNSubscribe c" by (auto simp: pack_ok_def variable_ok_def)
    with 5 show ?thesis by (simp add: defs pack_types)
  next
    case 6
    then show ?thesis by (simp add: defs pack_types)
  next
    case 7
    then show ?thesis by (simp add: defs)
  qed
qed

section \<open>Properties\<close>

text \<open>The acknowledgement protocol. For every packet \<open>ReadPack\<close> delivers (SUBSCRIBE apart), on
  a queue that can take a packet, \<open>waitPack\<close> returns without error, the only bytes written are
  those of the acknowledgement the packet is owed (CONNACK, PUBACK or PUBREC by quality of service,
  PUBREL, PUBCOMP, UNSUBACK, PINGRESP, with the packet's message id), the queue stays open, and
  the agent sees the packet exactly when it is a PUBLISH, UNSUBSCRIBE or PINGREQ.\<close>

theorem client_acknowledges:
  assumes "ReadPack r m = ((Some pk, None), r')" "ready q" "msg_type pk \<noteq> SUBSCRIBE" "rec pk s = Ret s'"
  shows "\<exists>q'. waitPack rec (Some pk) (q, s) = Ret (None, q', if for_agent pk then s' else s) \<and>
    isConnected q' \<and>
    stream (pq_w q') = stream (pq_w q) @ (case ack_pack pk of None \<Rightarrow> [] | Some ack \<Rightarrow> encode_pack ack)"
proof -
  have ok: "pack_ok pk" using ReadPack_success(1)[OF assms(1)] by auto
  obtain a where w: "waitPack rec (Some pk) (q, s) =
    outcome_bind
      (case ack_pack pk of None \<Rightarrow> Ret (None, q, s)
       | Some ack \<Rightarrow> reply ack (if msg_type pk = CONNECT then SetAlive a q else q, s))
      (if for_agent pk then hand_over rec pk else Ret)"
    using waitPack_reply[OF ok assms(3), of rec q s] by (elim exE) (rule that)
  show ?thesis
  proof (cases "ack_pack pk")
    case None
    then have "waitPack rec (Some pk) (q, s) = Ret (None, q, if for_agent pk then s' else s)"
      unfolding w by (simp add: hand_over_def assms(4))
    with None assms(2) show ?thesis by (simp add: ready_def)
  next
    case (Some ack)
    let ?q = "if msg_type pk = CONNECT then SetAlive a q else q"
    have rq: "ready ?q" using assms(2) by (simp add: ready_SetAlive)
    have ok3: "out_ok 3 ack"
      using ack_out_ok[OF _ _ Some] ReadPack_fields[OF assms(1)] by simp
    obtain q' where q': "reply ack (?q, s) = Ret (None, q', s)" "isConnected q'"
      "stream (pq_w q') = stream (pq_w ?q) @ encode_pack ack"
      using reply_ready[OF rq ok3, of s] by (elim exE conjE) (rule that)
    then have "waitPack rec (Some pk) (q, s) = Ret (None, q', if for_agent pk then s' else s)"
      unfolding w Some by (simp only: option.case q'(1)) (simp add: hand_over_def assms(4))
    with q' Some show ?thesis by simp
  qed
qed

definition ping_reader :: reader where
  "ping_reader = \<lparr>rd_data = [192, 0], rd_end = EOF\<rparr>"

theorem client_acknowledges_witness:
  "\<exists>q'. waitPack (\<lambda>pk n. Ret (n + 1)) (Some (new_Pack\<lparr>msg_type := PINGREQ\<rparr>)) (st_q fresh_state, 0::nat) =
      Ret (None, q', if for_agent (new_Pack\<lparr>msg_type := PINGREQ\<rparr>) then 0 + 1 else 0) \<and> isConnected q' \<and>
    stream (pq_w q') = stream (pq_w (st_q fresh_state)) @
      (case ack_pack (new_Pack\<lparr>msg_type := PINGREQ\<rparr>) of None \<Rightarrow> [] | Some ack \<Rightarrow> encode_pack ack)"
proof (rule client_acknowledges)
  show "ReadPack ping_reader 1024 = ((Some (new_Pack\<lparr>msg_type := PINGREQ\<rparr>), None), \<lparr>rd_data = [], rd_end = EOF\<rparr>)"
    by (simp add: ping_reader_def ReadPack_def ReadByte_def parse_fixed_def readLength.simps[of "Suc 0"]
        readVariable_def pack_types new_Pack_def)
  show "ready (st_q fresh_state)"
    by (simp add: ready_def fresh_state_def NewPackQueue_def isConnected_def SetAlive_def Let_def
        healthy_def fresh_writer_def fresh_conn_def Available_def fch_cap_def)
qed (simp_all add: new_Pack_def pack_types)

text \<open>No input makes the connection's goroutine panic: whatever bytes arrive, and whatever
  state the queue is in, the read loop with \<open>waitPack\<close> as its callback does not panic unless the
  agent does; so \<open>Listen_loop\<close> marks the client stopped whenever it returns.\<close>

theorem listen_loop_never_panics:
  assumes "\<And>pk s p. rec pk s \<noteq> Panic p"
  shows "ReadPackInLoop (waitPack rec) r (queue c, s) \<noteq> Panic msg \<and> Listen_loop rec r (c, s) \<noteq> Ret None"
  using ReadPackInLoop_no_panic[of rec, OF assms]
  by (auto simp: Listen_loop_def split: outcome.splits)

theorem listen_loop_never_panics_witness:
  "ReadPackInLoop (waitPack (\<lambda>pk (n::nat). Ret n)) ping_reader (queue (NewClient 10 fresh_writer 60 1024), 0) \<noteq>
      Panic ''x'' \<and>
    Listen_loop (\<lambda>pk (n::nat). Ret n) ping_reader (NewClient 10 fresh_writer 60 1024, 0) \<noteq> Ret None"
  by (rule listen_loop_never_panics) simp

text \<open>Message ids are sixteen-bit, never zero, and no two of any 65535 consecutive ids of a
  connection are the same.\<close>

theorem message_ids_distinct:
  assumes "0 \<le> curr_id c" "curr_id c \<le> MaxUint16" "n \<le> 65535"
  shows "(\<forall>i \<in> set (msg_ids n c). 1 \<le> i \<and> i \<le> 65535) \<and> distinct (msg_ids n c)"
proof -
  have len: "length (msg_ids n c) = n" for n c
    by (induction n arbitrary: c) (simp_all add: split_beta)
  have nth: "i < n \<Longrightarrow> msg_ids n c ! i = (curr_id c + int i) mod 65535 + 1" for i
    using msg_ids_mod[OF assms(1,2)] by (simp add: MaxUint16_def)
  have "1 \<le> x \<and> x \<le> 65535" if "x \<in> set (msg_ids n c)" for x
  proof -
    from that obtain i where "i < n" "x = (curr_id c + int i) mod 65535 + 1"
      using nth len[of n c] by (metis in_set_conv_nth)
    then show ?thesis by (simp add: add1_zle_eq)
  qed
  moreover have "i = j" if "i < n" "j < n" "msg_ids n c ! i = msg_ids n c ! j" for i j
  proof -
    have "(curr_id c + int i) mod 65535 = (curr_id c + int j) mod 65535" using that nth by simp
    then have "65535 dvd int i - int j" by (simp add: mod_eq_dvd_iff)
    then show ?thesis
      using dvd_imp_le_int[of "int i - int j" 65535] that(1,2) assms(3) by (cases "i = j") auto
  qed
  ultimately show ?thesis by (auto simp: distinct_conv_nth len)
qed

theorem message_ids_distinct_witness:
  "\<not> (\<exists>i \<in> set (msg_ids 3 (NewClient 10 fresh_writer 60 1024)). \<not> (1 \<le> i \<and> i \<le> 65535)) \<and>
   distinct (msg_ids 3 (NewClient 10 fresh_writer 60 1024))"
  using message_ids_distinct[of "NewClient 10 fresh_writer 60 1024" 3]
  by (simp add: NewClient_def MaxUint16_def del: msg_ids.simps)

end
