(* ===== verification/Gate_Handler.thy ===== *)
theory Gate_Handler
  imports Session Mqtt_Client "HOL-Library.AList"
begin

text \<open>
  The gate's side of a session (\<^verbatim>\<open>src/gate/base/gate_handler.go\<close>): the table of connected
  agents and the functions the gate registers for remote calls. An agent is what the handler uses
  of \<^verbatim>\<open>src/gate/base/mqtt_agent.go\<close>: its session, its MQTT client and its flags. The table is an
  association list with distinct keys; \<open>sync.Map.Range\<close> visits it in list order, and since the list
  is arbitrary so is the order. The storage handler, the hook on outgoing messages and the
  protobuf library are arguments (\<open>genv\<close>).
\<close>

section \<open>Agents\<close>

record gate_agent =
  ag_session :: "session_imp option"
  ag_client :: "client option"
  ag_isclose :: bool
  ag_protocol_ok :: bool
  ag_sendNum :: int
  ag_revNum :: int
  ag_connClosed :: bool

text \<open>\<open>StorageHandler\<close>, over the state \<open>'st\<close> of the storage.\<close>

record 'st storage =
  st_Query :: "string \<Rightarrow> 'st \<Rightarrow> go_error + bytes option"
  st_Storage :: "session_imp \<Rightarrow> 'st \<Rightarrow> go_error option \<times> 'st"

record 'st genv =
  StorageHandler :: "'st storage option"
  SendMessageHook :: "(session_imp option \<Rightarrow> string \<Rightarrow> bytes \<Rightarrow> go_error + bytes) option"
  SessionLearner :: bool
  env_unmarshal :: "bytes \<Rightarrow> go_error + session_imp"

definition agent_WriteMsg ::
    "'st genv \<Rightarrow> string \<Rightarrow> bytes \<Rightarrow> gate_agent \<Rightarrow> (go_error option \<times> gate_agent) outcome" where
  "agent_WriteMsg env topic body ag =
     (case ag_client ag of
        None \<Rightarrow> Ret (Some (Errorf ''mqtt.Client nil'' []), ag)
      | Some c \<Rightarrow>
          let ag = ag\<lparr>ag_sendNum := ag_sendNum ag + 1\<rparr>;
              hooked = (case SendMessageHook env of
                          None \<Rightarrow> Inr body
                        | Some hook \<Rightarrow> hook (ag_session ag) topic body)
          in case hooked of
               Inl e \<Rightarrow> Ret (Some e, ag)
             | Inr body \<Rightarrow>
                 outcome_bind (WriteMsg topic body c) (\<lambda>(err, c). Ret (err, ag\<lparr>ag_client := Some c\<rparr>)))"

text \<open>\<open>Close\<close> closes the connection in a goroutine of its own.\<close>

definition agent_Close :: "gate_agent \<Rightarrow> gate_agent" where
  "agent_Close ag = ag\<lparr>ag_connClosed := True\<rparr>"

section \<open>The table\<close>

datatype learner_event = LConnect "session_imp option" | LDisConnect session_imp

record 'st handler =
  sessions :: "(string \<times> gate_agent) list"
  agentNum :: int
  h_store :: 'st
  h_events :: "learner_event list"

definition NewGateHandler :: "'st \<Rightarrow> 'st handler" where
  "NewGateHandler st = \<lparr>sessions = [], agentNum = 0, h_store = st, h_events = []\<rparr>"

definition handler_Connect :: "'st genv \<Rightarrow> gate_agent \<Rightarrow> 'st handler \<Rightarrow> 'st handler" where
  "handler_Connect env a h =
     (let h = (case ag_session a of
                 None \<Rightarrow> h
               | Some s \<Rightarrow>
                   let h = h\<lparr>sessions := AList.update (SessionId s) a (sessions h)\<rparr>
                   in if ag_protocol_ok a then h\<lparr>agentNum := agentNum h + 1\<rparr> else h)
      in if SessionLearner env then h\<lparr>h_events := h_events h @ [LConnect (ag_session a)]\<rparr> else h)"

definition handler_DisConnect :: "'st genv \<Rightarrow> gate_agent \<Rightarrow> 'st handler \<Rightarrow> 'st handler" where
  "handler_DisConnect env a h =
     (let h = (if SessionLearner env
               then (case ag_session a of
                       None \<Rightarrow> h
                     | Some s \<Rightarrow> h\<lparr>h_events := h_events h @ [LDisConnect s]\<rparr>)
               else h)
      in case ag_session a of
           None \<Rightarrow> h
         | Some s \<Rightarrow>
             let h = h\<lparr>sessions := AList.delete (SessionId s) (sessions h)\<rparr>
             in if ag_protocol_ok a then h\<lparr>agentNum := agentNum h - 1\<rparr> else h)"

text \<open>\<open>OnDestroy\<close>: every agent is closed and removed; the closed agents are returned.\<close>

definition handler_OnDestroy :: "'st handler \<Rightarrow> gate_agent list \<times> 'st handler" where
  "handler_OnDestroy h = (map (agent_Close \<circ> snd) (sessions h), h\<lparr>sessions := []\<rparr>)"

definition GetAgentNum :: "'st handler \<Rightarrow> int" where
  "GetAgentNum h = agentNum h"

definition GetAgent :: "string \<Rightarrow> 'st handler \<Rightarrow> go_error + gate_agent" where
  "GetAgent sid h =
     (case map_of (sessions h) sid of
        None \<Rightarrow> Inl (Errorf ''No Sesssion found'' [])
      | Some a \<Rightarrow> Inr a)"

section \<open>The remote functions\<close>

type_synonym 'st hcall = "(gate_result option \<times> string) \<times> 'st handler"

definition put_agent :: "string \<Rightarrow> gate_agent \<Rightarrow> 'st handler \<Rightarrow> 'st handler" where
  "put_agent sid a h = h\<lparr>sessions := AList.update sid a (sessions h)\<rparr>"

text \<open>\<open>h.sessions.Load(Sessionid)\<close> and the error when there is no such agent.\<close>

definition with_agent ::
    "string \<Rightarrow> string \<Rightarrow> (gate_agent \<Rightarrow> 'st hcall outcome) \<Rightarrow> 'st handler \<Rightarrow> 'st hcall outcome" where
  "with_agent missing sid f h =
     (case map_of (sessions h) sid of
        None \<Rightarrow> Ret ((None, missing), h)
      | Some a \<Rightarrow> f a)"

text \<open>A method call on the agent's session; on a nil session it panics.\<close>

definition with_session :: "gate_agent \<Rightarrow> (session_imp \<Rightarrow> 'b outcome) \<Rightarrow> 'b outcome" where
  "with_session a f =
     (case ag_session a of
        None \<Rightarrow> Panic ''invalid memory address or nil pointer dereference''
      | Some s \<Rightarrow> f s)"

definition set_session :: "string \<Rightarrow> gate_agent \<Rightarrow> session_imp \<Rightarrow> 'st handler \<Rightarrow> 'st handler" where
  "set_session sid a s h = put_agent sid (a\<lparr>ag_session := Some s\<rparr>) h"

text \<open>Persist a bound session; the error is only logged.\<close>

definition persist :: "'st genv \<Rightarrow> session_imp \<Rightarrow> 'st handler \<Rightarrow> 'st handler" where
  "persist env s h =
     (case StorageHandler env of
        Some store \<Rightarrow>
          if UserId s \<noteq> [] then h\<lparr>h_store := snd (st_Storage store s (h_store h))\<rparr> else h
      | None \<Rightarrow> h)"

definition handler_Update :: "string \<Rightarrow> 'st handler \<Rightarrow> 'st hcall outcome" where
  "handler_Update sid h =
     with_agent ''No Sesssion found'' sid
       (\<lambda>a. Ret ((map_option Res_Session (ag_session a), []), h)) h"

text \<open>What \<open>Bind\<close> takes over from the storage: settings the session does not have yet.\<close>

definition restore_settings :: "'st genv \<Rightarrow> string \<Rightarrow> 'st \<Rightarrow> session_imp \<Rightarrow> session_imp" where
  "restore_settings env userid st s =
     (case StorageHandler env of
        None \<Rightarrow> s
      | Some store \<Rightarrow>
          if UserId s = [] then s
          else (case st_Query store userid st of
                  Inr (Some data) \<Rightarrow>
                    (case env_unmarshal env data of
                       Inr imp \<Rightarrow> ImportSettings (CloneSettings (fill_settings imp)) s
                     | Inl _ \<Rightarrow> s)
                | _ \<Rightarrow> s))"

definition handler_Bind :: "'st genv \<Rightarrow> string \<Rightarrow> string \<Rightarrow> 'st handler \<Rightarrow> 'st hcall outcome" where
  "handler_Bind env sid userid h =
     with_agent ''No Sesssion found'' sid (\<lambda>a. with_session a (\<lambda>s.
       let s = SetUserID userid s;
           s = restore_settings env userid (h_store h) s;
           h = persist env s (set_session sid a s h)
       in Ret ((Some (Res_Session s), []), h))) h"

definition handler_UnBind :: "string \<Rightarrow> 'st handler \<Rightarrow> 'st hcall outcome" where
  "handler_UnBind sid h =
     with_agent ''No Sesssion found'' sid (\<lambda>a. with_session a (\<lambda>s.
       let s = SetUserID [] s
       in Ret ((Some (Res_Session s), []), set_session sid a s h))) h"

text \<open>The loop of \<open>Push\<close> sets the entries of a map one by one, in some order of its keys.\<close>

definition push_settings :: "smap \<Rightarrow> session_imp \<Rightarrow> session_imp outcome" where
  "push_settings m s =
     (if m = Map.empty then Ret s
      else case Settings s of
        None \<Rightarrow> Panic ''assignment to entry in nil map''
      | Some old \<Rightarrow> Ret (s\<lparr>Settings := Some (old ++ m)\<rparr>))"

definition handler_Push :: "'st genv \<Rightarrow> string \<Rightarrow> smap \<Rightarrow> 'st handler \<Rightarrow> 'st hcall outcome" where
  "handler_Push env sid settings h =
     with_agent ''No Sesssion found'' sid (\<lambda>a. with_session a (\<lambda>s.
       outcome_bind (push_settings settings s) (\<lambda>s.
         Ret ((Some (Res_Session s), []), persist env s (set_session sid a s h))))) h"

definition handler_Set :: "'st genv \<Rightarrow> string \<Rightarrow> string \<Rightarrow> string \<Rightarrow> 'st handler \<Rightarrow> 'st hcall outcome" where
  "handler_Set env sid key val h =
     with_agent ''no Sesssion found'' sid (\<lambda>a. with_session a (\<lambda>s.
       outcome_bind (SetLocalKV key val s) (\<lambda>s.
         Ret ((Some (Res_Session s), []), persist env s (set_session sid a s h))))) h"

definition handler_Remove :: "'st genv \<Rightarrow> string \<Rightarrow> string \<Rightarrow> 'st handler \<Rightarrow> 'st hcall outcome" where
  "handler_Remove env sid key h =
     with_agent ''No Sesssion found'' sid (\<lambda>a. with_session a (\<lambda>s.
       let s = RemoveLocalKV key s
       in Ret ((Some (Res_Session s), []), persist env s (set_session sid a s h)))) h"

definition handler_Send ::
    "'st genv \<Rightarrow> string \<Rightarrow> string \<Rightarrow> bytes \<Rightarrow> 'st handler \<Rightarrow> 'st hcall outcome" where
  "handler_Send env sid topic body h =
     with_agent ''No Sesssion found'' sid (\<lambda>a.
       outcome_bind (agent_WriteMsg env topic body a) (\<lambda>(e, a).
         let h = put_agent sid a h
         in case e of
              Some e \<Rightarrow> Ret ((None, error_text e), h)
            | None \<Rightarrow> Ret ((Some (Res_String ''success''), []), h))) h"

fun send_each ::
    "'st genv \<Rightarrow> string \<Rightarrow> bytes \<Rightarrow> string list \<Rightarrow> int \<Rightarrow> 'st handler \<Rightarrow> (int \<times> 'st handler) outcome" where
  "send_each env topic body [] n h = Ret (n, h)"
| "send_each env topic body (sid # sids) n h =
     (case map_of (sessions h) sid of
        None \<Rightarrow> send_each env topic body sids n h
      | Some a \<Rightarrow>
          outcome_bind (agent_WriteMsg env topic body a) (\<lambda>(e, a).
            send_each env topic body sids (if e = None then n + 1 else n) (put_agent sid a h)))"

definition handler_SendBatch ::
    "'st genv \<Rightarrow> string \<Rightarrow> string \<Rightarrow> bytes \<Rightarrow> 'st handler \<Rightarrow> 'st hcall outcome" where
  "handler_SendBatch env sids topic body h =
     outcome_bind (send_each env topic body (split_on CHR '','' sids) 0 h) (\<lambda>(n, h).
       Ret ((Some (Res_Int n), []), h))"

definition handler_BroadCast :: "'st genv \<Rightarrow> string \<Rightarrow> bytes \<Rightarrow> 'st handler \<Rightarrow> 'st hcall outcome" where
  "handler_BroadCast env topic body h =
     outcome_bind (send_each env topic body (map fst (sessions h)) 0 h) (\<lambda>(n, h).
       Ret ((Some (Res_Int n), []), h))"

text \<open>The first agent of the user; asking a nil session for its user panics.\<close>

fun find_user :: "string \<Rightarrow> gate_agent list \<Rightarrow> gate_agent option outcome" where
  "find_user userid [] = Ret None"
| "find_user userid (a # as) =
     with_session a (\<lambda>s. if UserId s = userid then Ret (Some a) else find_user userid as)"

definition handler_IsConnect :: "string \<Rightarrow> 'st handler \<Rightarrow> 'st hcall outcome" where
  "handler_IsConnect userid h =
     outcome_bind (find_user userid (map snd (sessions h))) (\<lambda>found.
       case found of
         None \<Rightarrow> Ret ((Some (Res_Bool False),
                  ''The gateway did not find the corresponding userId ['' @ userid @ '']''), h)
       | Some a \<Rightarrow> Ret ((Some (Res_Bool (\<not> ag_isclose a)), []), h))"

definition handler_Close :: "string \<Rightarrow> 'st handler \<Rightarrow> 'st hcall outcome" where
  "handler_Close sid h =
     with_agent ''No Sesssion found'' sid (\<lambda>a. Ret ((None, []), put_agent sid (agent_Close a) h)) h"

section \<open>The handler as the other end of the remote call\<close>

definition run_request :: "'st genv \<Rightarrow> gate_request \<Rightarrow> 'st handler \<Rightarrow> 'st hcall outcome" where
  "run_request env req h =
     (case req of
        Req_Update sid \<Rightarrow> handler_Update sid h
      | Req_Bind sid u \<Rightarrow> handler_Bind env sid u h
      | Req_UnBind sid \<Rightarrow> handler_UnBind sid h
      | Req_Push sid m \<Rightarrow> handler_Push env sid m h
      | Req_Set sid k v \<Rightarrow> handler_Set env sid k v h
      | Req_Remove sid k \<Rightarrow> handler_Remove env sid k h
      | Req_Send sid t b \<Rightarrow> handler_Send env sid t b h
      | Req_SendBatch sids t b \<Rightarrow> handler_SendBatch env sids t b h
      | Req_IsConnect sid u \<Rightarrow> handler_IsConnect u h
      | Req_Close sid \<Rightarrow> handler_Close sid h)"

text \<open>
  The remote call as the session sees it: an error text that is not empty becomes the error, a
  panic of the handler is reported as an error, and a session in the result arrives as a clone
  (\<open>Gate.Deserialize\<close>; see \<open>Mqtt_Agent\<close>).
\<close>

definition transport :: "string \<Rightarrow> gate_result \<Rightarrow> gate_result" where
  "transport span r = (case r of Res_Session s \<Rightarrow> Res_Session (Clone_imp span s) | r \<Rightarrow> r)"

definition gate_call :: "'st genv \<Rightarrow> string \<Rightarrow> ('srv, 'st handler) call" where
  "gate_call env span srv req h =
     (case run_request env req h of
        Ret ((res, e), h) \<Rightarrow>
          Ret ((map_option (transport span) res, if e = [] then None else Some (Errorf e [])), h)
      | Panic s \<Rightarrow> Ret ((None, Some (Errorf s [])), h)
      | Hang \<Rightarrow> Hang)"

section \<open>The invariant\<close>

definition agent_ok :: "string \<Rightarrow> gate_agent \<Rightarrow> bool" where
  "agent_ok sid a =
     (case ag_session a of None \<Rightarrow> False | Some s \<Rightarrow> SessionId s = sid \<and> Settings s \<noteq> None)"

definition handler_ok :: "'st handler \<Rightarrow> bool" where
  "handler_ok h \<longleftrightarrow> distinct (map fst (sessions h)) \<and> (\<forall>(sid, a) \<in> set (sessions h). agent_ok sid a)"

lemma handler_ok_lookup:
  "handler_ok h \<Longrightarrow> map_of (sessions h) sid = Some a \<Longrightarrow>
   \<exists>s m. ag_session a = Some s \<and> SessionId s = sid \<and> Settings s = Some m"
  by (fastforce simp: handler_ok_def agent_ok_def dest: map_of_SomeD split: option.splits)

lemma set_update_subset: "set (AList.update k v xs) \<subseteq> insert (k, v) (set xs)"
  by (induction xs) auto

lemma set_delete_subset: "set (AList.delete k xs) \<subseteq> set xs"
  by (auto simp: AList.delete_eq)

lemma handler_ok_put:
  "handler_ok h \<Longrightarrow> agent_ok sid a \<Longrightarrow> handler_ok (put_agent sid a h)"
  using set_update_subset[of sid a "sessions h"]
  by (auto simp: handler_ok_def put_agent_def distinct_update)

lemma put_agent_lookup:
  "map_of (sessions (put_agent sid a h)) x = (if x = sid then Some a else map_of (sessions h) x)"
  by (simp add: put_agent_def update_conv')

lemma persist_sessions [simp]:
  "sessions (persist env s h) = sessions h" "agentNum (persist env s h) = agentNum h"
  "h_events (persist env s h) = h_events h"
  by (simp_all add: persist_def split: option.splits)

lemma handler_ok_persist: "handler_ok (persist env s h) = handler_ok h"
  by (simp add: handler_ok_def)

section \<open>What a request does to its session\<close>

text \<open>
  The specification: a request names one session and changes it by a function of its own; the
  answer is the changed session.
\<close>

fun request_sid :: "gate_request \<Rightarrow> string" where
  "request_sid (Req_Update sid) = sid"
| "request_sid (Req_Bind sid _) = sid"
| "request_sid (Req_UnBind sid) = sid"
| "request_sid (Req_Push sid _) = sid"
| "request_sid (Req_Set sid _ _) = sid"
| "request_sid (Req_Remove sid _) = sid"
| "request_sid (Req_Send sid _ _) = sid"
| "request_sid (Req_SendBatch sids _ _) = sids"
| "request_sid (Req_IsConnect sid _) = sid"
| "request_sid (Req_Close sid) = sid"

fun on_session :: "gate_request \<Rightarrow> bool" where
  "on_session (Req_Send _ _ _) = False"
| "on_session (Req_SendBatch _ _ _) = False"
| "on_session (Req_IsConnect _ _) = False"
| "on_session (Req_Close _) = False"
| "on_session _ = True"

fun apply_request :: "'st genv \<Rightarrow> 'st \<Rightarrow> gate_request \<Rightarrow> session_imp \<Rightarrow> session_imp" where
  "apply_request env st (Req_Bind _ u) s = restore_settings env u st (s\<lparr>UserId := u\<rparr>)"
| "apply_request env st (Req_UnBind _) s = s\<lparr>UserId := []\<rparr>"
| "apply_request env st (Req_Push _ m) s = s\<lparr>Settings := Some (settings_of s ++ m)\<rparr>"
| "apply_request env st (Req_Set _ k v) s = s\<lparr>Settings := Some ((settings_of s)(k \<mapsto> v))\<rparr>"
| "apply_request env st (Req_Remove _ k) s = s\<lparr>Settings := Some ((settings_of s)(k := None))\<rparr>"
| "apply_request env st _ s = s"

lemma restore_settings_frame:
  "SessionId (restore_settings env u st s) = SessionId s"
  "UserId (restore_settings env u st s) = UserId s"
  by (simp_all add: restore_settings_def ImportSettings_def split: option.splits sum.splits)

lemma restore_settings_keeps:
  assumes "Settings s = Some m"
  shows "\<exists>m'. Settings (restore_settings env u st s) = Some (m' ++ m)"
proof -
  have "Settings (restore_settings env u st s) = Some (Map.empty ++ m) \<or>
      (\<exists>imp. Settings (restore_settings env u st s) = Some (CloneSettings imp ++ m))"
    using assms
    by (auto simp: restore_settings_def ImportSettings_def split: option.splits sum.splits)
  then show ?thesis by blast
qed

lemma apply_request_frame:
  assumes "Settings s = Some m"
  shows "SessionId (apply_request env st req s) = SessionId s"
    and "Settings (apply_request env st req s) \<noteq> None"
proof -
  have "Settings (restore_settings env u st (s\<lparr>UserId := u\<rparr>)) \<noteq> None" for u
    using restore_settings_keeps[of "s\<lparr>UserId := u\<rparr>" m env u st] assms by auto
  with assms show "Settings (apply_request env st req s) \<noteq> None" by (cases req) simp_all
qed (cases req; simp add: restore_settings_frame)

lemma run_request_missing:
  "on_session req \<Longrightarrow> map_of (sessions h) (request_sid req) = None \<Longrightarrow>
   \<exists>msg. run_request env req h = Ret ((None, msg), h) \<and> msg \<noteq> []"
  by (cases req) (simp_all add: run_request_def handler_Update_def handler_Bind_def handler_UnBind_def
      handler_Push_def handler_Set_def handler_Remove_def with_agent_def)

lemma run_request_spec:
  assumes ok: "handler_ok h" and req: "on_session req"
    and a: "map_of (sessions h) (request_sid req) = Some a" "ag_session a = Some s"
  shows "\<exists>h'. run_request env req h = Ret ((Some (Res_Session (apply_request env (h_store h) req s)), []), h') \<and>
    handler_ok h' \<and> agentNum h' = agentNum h \<and>
    map_of (sessions h') (request_sid req) =
      Some (a\<lparr>ag_session := Some (apply_request env (h_store h) req s)\<rparr>) \<and>
    (\<forall>sid. sid \<noteq> request_sid req \<longrightarrow> map_of (sessions h') sid = map_of (sessions h) sid)"
proof -
  obtain m where m: "Settings s = Some m" "SessionId s = request_sid req"
    using handler_ok_lookup[OF ok a(1)] a(2) by auto
  let ?s = "apply_request env (h_store h) req s"
  have keep: "agent_ok (request_sid req) (a\<lparr>ag_session := Some ?s\<rparr>)"
    using apply_request_frame[OF m(1)] m(2) by (auto simp: agent_ok_def)
  let ?h = "set_session (request_sid req) a ?s h"
  have h: "handler_ok ?h" using handler_ok_put[OF ok keep] by (simp add: set_session_def)
  have same: "a\<lparr>ag_session := Some s\<rparr> = a" using a(2) by (cases a) simp
  have s_id: "s\<lparr>Settings := Some m\<rparr> = s" using m by (cases s) simp
  have "(\<exists>h'. h' = ?h \<and> run_request env req h = Ret ((Some (Res_Session ?s), []), h')) \<or>
    run_request env req h = Ret ((Some (Res_Session ?s), []), persist env ?s ?h) \<or>
    run_request env req h = Ret ((Some (Res_Session ?s), []), h) \<and> ?s = s"
    using a m req
    by (cases req) (simp_all add: s_id run_request_def handler_Update_def handler_Bind_def
        handler_UnBind_def handler_Push_def handler_Set_def handler_Remove_def with_agent_def
        with_session_def SetUserID_def SetLocalKV_def RemoveLocalKV_def push_settings_def
        settings_of_def Let_def)
  then show ?thesis
    using h ok a same
    by (auto simp: handler_ok_persist set_session_def put_agent_lookup) (simp_all add: put_agent_def)
qed

section \<open>Every request keeps the invariant, and none panics\<close>

lemma agent_WriteMsg_session:
  "agent_WriteMsg env topic body ag = Ret (e, ag') \<Longrightarrow> ag_session ag' = ag_session ag"
  by (auto simp: agent_WriteMsg_def Let_def outcome_bind_Ret_iff split: option.splits sum.splits)

lemma agent_WriteMsg_no_panic: "agent_WriteMsg env topic body ag \<noteq> Panic p"
  by (auto simp: agent_WriteMsg_def Let_def WriteMsg_def WritePack_no_panic dest!: outcome_bind_Panic
      split: option.splits sum.splits if_splits prod.splits)

lemma handler_ok_member: "handler_ok h \<Longrightarrow> map_of (sessions h) sid = Some a \<Longrightarrow> agent_ok sid a"
  by (fastforce simp: handler_ok_def dest: map_of_SomeD)

lemma handler_ok_write:
  assumes "handler_ok h" "map_of (sessions h) sid = Some a" "agent_WriteMsg env topic body a = Ret (e, a')"
  shows "handler_ok (put_agent sid a' h)"
  using handler_ok_put[OF assms(1)] handler_ok_member[OF assms(1,2)] agent_WriteMsg_session[OF assms(3)]
  by (simp add: agent_ok_def)

lemma send_each_ok:
  "handler_ok h \<Longrightarrow> send_each env topic body sids n h = Ret (n', h') \<Longrightarrow> handler_ok h' \<and> agentNum h' = agentNum h"
proof (induction env topic body sids n h rule: send_each.induct)
  case (2 env topic body sid sids n h)
  show ?case
  proof (cases "map_of (sessions h) sid")
    case None
    with 2 show ?thesis by simp
  next
    case (Some a)
    with "2.prems"(2) obtain e a' where w: "agent_WriteMsg env topic body a = Ret (e, a')"
      "send_each env topic body sids (if e = None then n + 1 else n) (put_agent sid a' h) = Ret (n', h')"
      by (auto simp: outcome_bind_Ret_iff)
    have "handler_ok (put_agent sid a' h)" using handler_ok_write[OF "2.prems"(1) Some w(1)] .
    from "2.IH"(2)[OF Some this w(2)] show ?thesis by (simp add: put_agent_def)
  qed
qed simp

lemma send_each_no_panic: "send_each env topic body sids n h \<noteq> Panic p"
proof (induction env topic body sids n h rule: send_each.induct)
  case (2 env topic body sid sids n h)
  then show ?case
    by (auto simp: agent_WriteMsg_no_panic dest!: outcome_bind_Panic split: option.splits)
qed simp

lemma find_user_no_panic:
  "\<forall>a \<in> set as. ag_session a \<noteq> None \<Longrightarrow> find_user u as \<noteq> Panic p"
  by (induction as) (auto simp: with_session_def split: if_splits)

lemma handler_ok_sessions: "handler_ok h \<Longrightarrow> \<forall>a \<in> set (map snd (sessions h)). ag_session a \<noteq> None"
  by (auto simp: handler_ok_def agent_ok_def split: option.splits)

lemma run_request_no_panic:
  assumes "handler_ok h"
  shows "run_request env req h \<noteq> Panic p"
proof (cases "on_session req")
  case True
  show ?thesis
  proof (cases "map_of (sessions h) (request_sid req)")
    case None
    with run_request_missing[OF True None, of env] show ?thesis by auto
  next
    case (Some a)
    then obtain s where "ag_session a = Some s" using handler_ok_lookup[OF assms] by blast
    from run_request_spec[OF assms True Some this, of env] show ?thesis by auto
  qed
next
  case False
  from False handler_ok_sessions[OF assms] show ?thesis
    by (cases req) (auto simp: run_request_def handler_Send_def handler_SendBatch_def
        handler_IsConnect_def handler_Close_def send_each_no_panic find_user_no_panic with_agent_def
        agent_WriteMsg_no_panic Let_def dest!: outcome_bind_Panic split: option.splits)
qed

lemma put_agent_num [simp]: "agentNum (put_agent sid a h) = agentNum h" "h_store (put_agent sid a h) = h_store h"
  by (simp_all add: put_agent_def)

lemma run_request_ok:
  assumes "handler_ok h" "run_request env req h = Ret (res, h')"
  shows "handler_ok h' \<and> agentNum h' = agentNum h"
proof (cases "on_session req")
  case True
  show ?thesis
  proof (cases "map_of (sessions h) (request_sid req)")
    case None
    with run_request_missing[OF True None, of env] assms show ?thesis by auto
  next
    case (Some a)
    then obtain s where "ag_session a = Some s" using handler_ok_lookup[OF assms(1)] by blast
    from run_request_spec[OF assms(1) True Some this, of env] assms(2) show ?thesis by auto
  qed
next
  case False
  have close: "map_of (sessions h) sid = Some a \<Longrightarrow> handler_ok (put_agent sid (agent_Close a) h)" for sid a
    using handler_ok_put[OF assms(1), of sid "agent_Close a"] handler_ok_member[OF assms(1), of sid a]
    by (simp add: agent_ok_def agent_Close_def)
  from False assms show ?thesis
    by (cases req) (auto simp: run_request_def handler_Send_def handler_SendBatch_def
        handler_IsConnect_def handler_Close_def with_agent_def outcome_bind_Ret_iff Let_def
        put_agent_num dest: send_each_ok handler_ok_write close split: option.splits)
qed

text \<open>The table over time: agents connect and disconnect, and requests arrive.\<close>

inductive handler_step :: "'st genv \<Rightarrow> 'st handler \<Rightarrow> 'st handler \<Rightarrow> bool" for env where
  connecting: "ag_session a = Some s \<Longrightarrow> Settings s \<noteq> None \<Longrightarrow> handler_step env h (handler_Connect env a h)"
| disconnecting: "handler_step env h (handler_DisConnect env a h)"
| request: "run_request env req h = Ret (res, h') \<Longrightarrow> handler_step env h h'"
| destroying: "handler_step env h (snd (handler_OnDestroy h))"

inductive_cases handler_stepE: "handler_step env h h'"

lemma handler_ok_Connect:
  "handler_ok h \<Longrightarrow> ag_session a = Some s \<Longrightarrow> Settings s \<noteq> None \<Longrightarrow> handler_ok (handler_Connect env a h)"
  using set_update_subset[of "SessionId s" a "sessions h"]
  by (auto simp: handler_Connect_def handler_ok_def agent_ok_def distinct_update Let_def)

lemma handler_ok_DisConnect: "handler_ok h \<Longrightarrow> handler_ok (handler_DisConnect env a h)"
  by (auto simp: handler_DisConnect_def handler_ok_def distinct_delete Let_def
      dest!: subsetD[OF set_delete_subset] split: option.splits)

lemma handler_ok_step [inv_rules]: "handler_ok h \<Longrightarrow> handler_step env h h' \<Longrightarrow> handler_ok h'"
  by (erule handler_stepE)
    (auto dest: run_request_ok intro: handler_ok_Connect handler_ok_DisConnect
      simp: handler_OnDestroy_def, simp add: handler_ok_def)

lemma handler_ok_init [inv_rules]: "h = NewGateHandler st \<Longrightarrow> handler_ok h"
  by (simp add: NewGateHandler_def handler_ok_def)

interpretation gate_table: invariant_system "\<lambda>h. h = NewGateHandler st" "handler_step env" handler_ok for st env
  by unfold_locales (rule inv_rules, assumption+)+

section \<open>Properties\<close>

text \<open>C7: A session operation through the gate. For every reachable table of the gate and every
  request on one session (\<open>Update\<close>, \<open>Bind\<close>, \<open>UnBind\<close>, \<open>Push\<close>, \<open>Set\<close>, \<open>Remove\<close>) from a session
  agent whose gate is found and knows it, the call succeeds, the gate's session becomes exactly
  what the request specifies, the caller's copy afterwards agrees with the gate's session, no
  other session of the gate changes, and no agent is added or removed.\<close>

theorem session_request_refines:
  assumes "reach (\<lambda>h. h = NewGateHandler st) (handler_step env) h"
    and "gateServer a = Inr srv" "on_session req" "request_sid req = SessionId (session a)"
    and "map_of (sessions h) (SessionId (session a)) = Some ag" "ag_session ag = Some s"
    and s': "s' = apply_request env (h_store h) req s"
  shows "\<exists>a' h'. through_gate (gate_call env span) req a h = Ret (None, a', h') \<and>
    map_of (sessions h') (SessionId (session a)) = Some (ag\<lparr>ag_session := Some s'\<rparr>) \<and>
    UserId (session a') = UserId s' \<and> settings_of (session a') = settings_of s' \<and>
    SessionId (session a') = SessionId (session a) \<and> TraceId (session a') = TraceId (session a) \<and>
    agentNum h' = agentNum h \<and>
    (\<forall>sid. sid \<noteq> SessionId (session a) \<longrightarrow> map_of (sessions h') sid = map_of (sessions h) sid)"
proof -
  have ok: "handler_ok h" using assms(1) by (rule gate_table.inv_reach)
  have app: "app a \<noteq> None" using assms(2) by (auto simp: gateServer_def split: option.splits)
  obtain m where m: "Settings s = Some m" "SessionId s = SessionId (session a)"
    using handler_ok_lookup[OF ok assms(5)] assms(6) by auto
  have sid: "SessionId s' = SessionId (session a)"
    using apply_request_frame(1)[OF m(1)] m(2) s' by simp
  from run_request_spec[OF ok assms(3), of ag s env] assms(4-6) obtain h' where
    h': "run_request env req h = Ret ((Some (Res_Session s'), []), h')" "agentNum h' = agentNum h"
      "map_of (sessions h') (SessionId (session a)) = Some (ag\<lparr>ag_session := Some s'\<rparr>)"
      "\<forall>sid. sid \<noteq> SessionId (session a) \<longrightarrow> map_of (sessions h') sid = map_of (sessions h) sid"
    unfolding s' by auto
  have "through_gate (gate_call env span) req a h =
      Ret (None, a\<lparr>session := update_session (Clone_imp span s') (session a)\<rparr>, h')"
    using app assms(2) h'(1)
    by (simp add: through_gate_def ask_gate_def gate_call_def transport_def)
  then show ?thesis
    using h' sid by (auto simp: update_session_def Clone_imp_def settings_of_def)
qed

definition demo_session :: session_imp where
  "demo_session = new_SessionImp\<lparr>SessionId := ''s1'', GateInstanceId := ''gate-1'', Settings := Some Map.empty\<rparr>"

definition demo_agent :: gate_agent where
  "demo_agent = \<lparr>ag_session = Some demo_session, ag_client = None, ag_isclose = False,
     ag_protocol_ok = True, ag_sendNum = 0, ag_revNum = 0, ag_connClosed = False\<rparr>"

definition demo_env :: "unit genv" where
  "demo_env = \<lparr>StorageHandler = None, SendMessageHook = None, SessionLearner = False,
     env_unmarshal = (\<lambda>_. Inl EOF)\<rparr>"

definition demo_caller :: "(unit, unit) sessionagent" where
  "demo_caller = \<lparr>app = Some (\<lambda>i. Inr ()), session = demo_session, userdata = None, judgeGuest = None\<rparr>"

definition demo_handler :: "unit handler" where
  "demo_handler = handler_Connect demo_env demo_agent (NewGateHandler ())"

lemma demo_reachable: "reach (\<lambda>h. h = NewGateHandler ()) (handler_step demo_env) demo_handler"
  unfolding demo_handler_def
proof (rule reach_step[where s = "NewGateHandler ()"], rule reach_init, rule refl)
  show "handler_step demo_env (NewGateHandler ()) (handler_Connect demo_env demo_agent (NewGateHandler ()))"
    by (rule handler_step.connecting[where s = demo_session]) (simp_all add: demo_agent_def demo_session_def)
qed

lemma demo_lookup: "map_of (sessions demo_handler) ''s1'' = Some demo_agent"
  by (simp add: demo_handler_def handler_Connect_def demo_agent_def demo_session_def demo_env_def
      NewGateHandler_def Let_def)

theorem session_request_refines_witness:
  "\<exists>a' h'. through_gate (gate_call demo_env ''x'') (Req_Bind ''s1'' ''alice'') demo_caller demo_handler =
      Ret (None, a', h') \<and> UserId (session a') = ''alice''"
  using session_request_refines[OF demo_reachable, of demo_caller "()" "Req_Bind ''s1'' ''alice''"
      demo_agent demo_session _ "''x''"] demo_lookup
  by (auto simp: demo_caller_def demo_session_def demo_agent_def gateServer_def restore_settings_def
      demo_env_def)



text \<open>Binding a user restores the settings stored for that user without losing any the
  session already has: after \<open>Bind\<close> every key has the session's own value if it had one, and the
  stored value otherwise; and the merged session is what is stored.\<close>

theorem bind_merges_stored_settings:
  assumes "handler_ok h" "map_of (sessions h) sid = Some ag" "ag_session ag = Some s"
    and "StorageHandler env = Some store" "userid \<noteq> []"
    and "st_Query store userid (h_store h) = Inr (Some data)" "env_unmarshal env data = Inr imp"
  shows "\<exists>s' h'. handler_Bind env sid userid h = Ret ((Some (Res_Session s'), []), h') \<and>
    UserId s' = userid \<and> settings_of s' = settings_of imp ++ settings_of s \<and>
    h_store h' = snd (st_Storage store s' (h_store h)) \<and>
    map_of (sessions h') sid = Some (ag\<lparr>ag_session := Some s'\<rparr>)"
proof -
  obtain m where "Settings s = Some m" using handler_ok_lookup[OF assms(1,2)] assms(3) by auto
  then show ?thesis
    using assms
    by (simp add: handler_Bind_def with_agent_def with_session_def Let_def SetUserID_def
        restore_settings_def ImportSettings_def settings_of_def CloneSettings_def fill_settings_def
        persist_def set_session_def put_agent_lookup split: option.splits)
qed

definition demo_storage :: "session_imp option storage" where
  "demo_storage = \<lparr>st_Query = (\<lambda>u st. Inr (case st of None \<Rightarrow> None | Some s \<Rightarrow> Some [])),
     st_Storage = (\<lambda>s st. (None, Some s))\<rparr>"

definition stored_session :: session_imp where
  "stored_session = new_SessionImp\<lparr>Settings := Some [''lang'' \<mapsto> ''en'', ''room'' \<mapsto> ''7'']\<rparr>"

definition stored_env :: "session_imp option genv" where
  "stored_env = \<lparr>StorageHandler = Some demo_storage, SendMessageHook = None, SessionLearner = False,
     env_unmarshal = (\<lambda>_. Inr stored_session)\<rparr>"

definition stored_handler :: "session_imp option handler" where
  "stored_handler = handler_Connect stored_env demo_agent (NewGateHandler (Some stored_session))"

theorem bind_merges_stored_settings_witness:
  "\<exists>s' h'. handler_Bind stored_env ''s1'' ''alice'' stored_handler = Ret ((Some (Res_Session s'), []), h') \<and>
    UserId s' = ''alice'' \<and> settings_of s' = settings_of stored_session ++ settings_of demo_session \<and>
    h_store h' = snd (st_Storage demo_storage s' (h_store stored_handler)) \<and>
    map_of (sessions h') ''s1'' = Some (demo_agent\<lparr>ag_session := Some s'\<rparr>)"
proof (rule bind_merges_stored_settings)
  show "handler_ok stored_handler"
    by (simp add: stored_handler_def handler_ok_def handler_Connect_def agent_ok_def demo_agent_def
        demo_session_def NewGateHandler_def stored_env_def Let_def)
qed (simp_all add: stored_handler_def handler_Connect_def demo_agent_def demo_session_def
    NewGateHandler_def stored_env_def demo_storage_def Let_def)

end
