(* ===== verification/Mqtt_Requests.thy ===== *)
theory Mqtt_Requests
  imports Mqtt_Codec
begin

text \<open>
  The requests a client sends, in the format of the MQTT specification (CONNECT, SUBSCRIBE,
  UNSUBSCRIBE), against \<open>ReadPack\<close> of \<^verbatim>\<open>src/gate/base/mqtt/mqtt.go\<close>; and the properties of the
  codec as a whole.
\<close>

section \<open>CONNECT\<close>

text \<open>The fields of a CONNECT packet as a client chooses them; \<open>None\<close> clears the flag.\<close>

record connect_request =
  rq_protocol :: string
  rq_version :: byte
  rq_clean :: bool
  rq_will :: "(string \<times> string \<times> byte \<times> bool) option"
  rq_user :: "string option"
  rq_pass :: "string option"
  rq_keepalive :: int
  rq_id :: string

definition request_flags :: "connect_request \<Rightarrow> byte" where
  "request_flags q =
     (if rq_user q \<noteq> None then 128 else 0) OR (if rq_pass q \<noteq> None then 64 else 0) OR
     (case rq_will q of None \<Rightarrow> 0
      | Some (_, _, qos, ret) \<Rightarrow> (if ret then 32 else 0) OR push_bit 3 qos OR 4) OR
     (if rq_clean q then 2 else 0)"

definition enc_opt :: "string option \<Rightarrow> bytes" where
  "enc_opt s = (case s of None \<Rightarrow> [] | Some s \<Rightarrow> enc_string s)"

definition enc_will :: "(string \<times> string \<times> byte \<times> bool) option \<Rightarrow> bytes" where
  "enc_will w = (case w of None \<Rightarrow> [] | Some (t, m, _, _) \<Rightarrow> enc_string t @ enc_string m)"

definition enc_connect :: "connect_request \<Rightarrow> bytes" where
  "enc_connect q =
     enc_string (rq_protocol q) @ [rq_version q, request_flags q] @ enc_mid (rq_keepalive q) @
     enc_string (rq_id q) @ enc_will (rq_will q) @ enc_opt (rq_user q) @ enc_opt (rq_pass q)"

definition short :: "string \<Rightarrow> bool" where
  "short s \<longleftrightarrow> length s < 65536"

definition request_ok :: "connect_request \<Rightarrow> bool" where
  "request_ok q \<longleftrightarrow>
     short (rq_protocol q) \<and> mid_ok (rq_keepalive q) \<and> rq_id q \<noteq> [] \<and> length (rq_id q) \<le> 64 \<and>
     (case rq_will q of None \<Rightarrow> True | Some (t, m, qos, _) \<Rightarrow> short t \<and> short m \<and> qos < 4) \<and>
     (case rq_user q of None \<Rightarrow> True | Some s \<Rightarrow> short s) \<and>
     (case rq_pass q of None \<Rightarrow> True | Some s \<Rightarrow> short s)"

text \<open>What the gate should make of it.\<close>

definition connect_of :: "connect_request \<Rightarrow> connect" where
  "connect_of q =
     \<lparr>protocol = Some (rq_protocol q), version = rq_version q, keep_alive_timer = rq_keepalive q,
      return_code = 0, user_name = (rq_user q \<noteq> None), password = (rq_pass q \<noteq> None),
      will_retain = (case rq_will q of None \<Rightarrow> False | Some (_, _, _, ret) \<Rightarrow> ret),
      will_qos = (case rq_will q of None \<Rightarrow> 0 | Some (_, _, qos, _) \<Rightarrow> uint qos),
      will_flag = (rq_will q \<noteq> None), clean_session = rq_clean q, rserved = False,
      conn_id = Some (rq_id q), will_topic = map_option fst (rq_will q),
      will_msg = map_option (fst \<circ> snd) (rq_will q), uname = rq_user q, upassword = rq_pass q\<rparr>"

lemma length_enc_string [simp]: "length (enc_string s) = 2 + length s"
  by (simp add: enc_string_def)

lemma length_enc_mid [simp]: "length (enc_mid i) = 2"
  by (simp add: enc_mid_def)

lemma readString_short:
  "short s \<Longrightarrow> readString (r\<lparr>rd_data := enc_string s @ rest\<rparr>) =
     ((s, int (length s), None), r\<lparr>rd_data := rest\<rparr>)"
  by (subst readString_enc) (simp_all add: short_def)

lemma readConnect_password_enc:
  assumes "case p of None \<Rightarrow> True | Some s \<Rightarrow> short s" "l \<ge> int (length (enc_opt p))"
    "password c = (p \<noteq> None)" "upassword c = None"
  shows "readConnect_password c l (r\<lparr>rd_data := enc_opt p @ rest\<rparr>) =
    ((c\<lparr>upassword := p\<rparr>, None), r\<lparr>rd_data := rest\<rparr>)"
  using assms
  by (cases p) (auto simp: readConnect_password_def enc_opt_def readString_short)

lemma readConnect_uname_enc:
  assumes "case u of None \<Rightarrow> True | Some s \<Rightarrow> short s" "case p of None \<Rightarrow> True | Some s \<Rightarrow> short s"
    "l \<ge> int (length (enc_opt u @ enc_opt p))"
    "user_name c = (u \<noteq> None)" "password c = (p \<noteq> None)" "uname c = None" "upassword c = None"
  shows "readConnect_uname c l (r\<lparr>rd_data := enc_opt u @ enc_opt p @ rest\<rparr>) =
    ((c\<lparr>uname := u, upassword := p\<rparr>, None), r\<lparr>rd_data := rest\<rparr>)"
proof (cases u)
  case None
  with assms show ?thesis
    by (simp add: readConnect_uname_def readConnect_password_enc enc_opt_def[of None])
next
  case (Some s)
  with assms show ?thesis
    by (simp add: readConnect_uname_def enc_opt_def[of "Some s"] readString_short
        readConnect_password_enc)
qed

lemma readConnect_will_enc:
  assumes "case wl of None \<Rightarrow> True | Some (t, m, _, _) \<Rightarrow> short t \<and> short m"
    "case u of None \<Rightarrow> True | Some s \<Rightarrow> short s" "case p of None \<Rightarrow> True | Some s \<Rightarrow> short s"
    "l \<ge> int (length (enc_will wl @ enc_opt u @ enc_opt p))" "will_flag c = (wl \<noteq> None)"
    "user_name c = (u \<noteq> None)" "password c = (p \<noteq> None)" "uname c = None" "upassword c = None"
    "will_topic c = None" "will_msg c = None"
  shows "readConnect_will c l (r\<lparr>rd_data := enc_will wl @ enc_opt u @ enc_opt p @ rest\<rparr>) =
    ((c\<lparr>will_topic := map_option fst wl, will_msg := map_option (fst \<circ> snd) wl,
        uname := u, upassword := p\<rparr>, None), r\<lparr>rd_data := rest\<rparr>)"
proof (cases wl)
  case None
  with assms show ?thesis
    by (simp add: readConnect_will_def readConnect_uname_enc enc_will_def)
next
  case (Some x)
  with assms show ?thesis
    by (cases x) (simp add: readConnect_will_def enc_will_def readString_short
        readConnect_uname_enc)
qed

lemma bit_byte_exp: "bit (2 ^ k :: byte) i \<longleftrightarrow> i = k \<and> k < 8"
  by (auto simp: bit_exp_iff possible_bit_def)

lemma flag_constant_bits:
  "bit (128 :: byte) i \<longleftrightarrow> i = 7" "bit (64 :: byte) i \<longleftrightarrow> i = 6" "bit (32 :: byte) i \<longleftrightarrow> i = 5"
  "bit (4 :: byte) i \<longleftrightarrow> i = 2" "bit (2 :: byte) i \<longleftrightarrow> i = 1"
  using bit_byte_exp[of 7 i] bit_byte_exp[of 6 i] bit_byte_exp[of 5 i] bit_byte_exp[of 2 i]
    bit_byte_exp[of 1 i]
  by simp_all

lemma flag_mask_bits: "bit (31 :: byte) i \<longleftrightarrow> i < 5"
  using bit_mask_iff[where ?'a = byte, of 5 i] by (auto simp: mask_numeral possible_bit_def)

lemma flags_qos:
  assumes "request_ok q"
  shows "drop_bit 3 (request_flags q AND 31) =
    (case rq_will q of None \<Rightarrow> 0 | Some (_, _, qos, _) \<Rightarrow> qos)"
proof (cases "rq_will q")
  case None
  then show ?thesis
    by (intro bit_word_eqI)
      (auto simp: request_flags_def bit_drop_bit_eq bit_and_iff bit_or_iff bit_push_bit_iff
        flag_constant_bits flag_mask_bits simp del: bit_numeral_word_iff drop_bit_and)
next
  case (Some w)
  obtain t m qos ret where w: "w = (t, m, qos, ret)" by (cases w) auto
  have q2: "bit qos i \<Longrightarrow> i < 2" for i
    using assms Some w bit_less_2_pow[of qos 2 i] by (simp add: request_ok_def)
  show ?thesis
    using Some w
    by (intro bit_word_eqI)
      (auto simp: request_flags_def bit_drop_bit_eq bit_and_iff bit_or_iff bit_push_bit_iff
        flag_constant_bits flag_mask_bits dest: q2 simp del: bit_numeral_word_iff drop_bit_and)
qed

lemma flags_bits:
  assumes "request_ok q"
  shows "bit (request_flags q) 7 \<longleftrightarrow> rq_user q \<noteq> None"
    and "bit (request_flags q) 6 \<longleftrightarrow> rq_pass q \<noteq> None"
    and "bit (request_flags q) 5 \<longleftrightarrow> (case rq_will q of None \<Rightarrow> False | Some (_, _, _, ret) \<Rightarrow> ret)"
    and "bit (request_flags q) 2 \<longleftrightarrow> rq_will q \<noteq> None"
    and "bit (request_flags q) 1 \<longleftrightarrow> rq_clean q"
    and "\<not> bit (request_flags q) 0"
proof -
  have q2: "rq_will q = Some (t, m, qos, ret) \<Longrightarrow> bit qos i \<Longrightarrow> i < 2" for t m qos ret i
    using assms bit_less_2_pow[of qos 2 i] by (simp add: request_ok_def)
  show "bit (request_flags q) 7 \<longleftrightarrow> rq_user q \<noteq> None"
    "bit (request_flags q) 6 \<longleftrightarrow> rq_pass q \<noteq> None"
    "bit (request_flags q) 5 \<longleftrightarrow> (case rq_will q of None \<Rightarrow> False | Some (_, _, _, ret) \<Rightarrow> ret)"
    "bit (request_flags q) 2 \<longleftrightarrow> rq_will q \<noteq> None"
    "bit (request_flags q) 1 \<longleftrightarrow> rq_clean q"
    "\<not> bit (request_flags q) 0"
    by (auto simp: request_flags_def bit_or_iff bit_push_bit_iff flag_constant_bits
        dest: q2 split: option.splits)
qed

lemma parse_request_flags:
  assumes "request_ok q"
  shows "parse_flags (request_flags q)
      (new_Connect\<lparr>protocol := Some (rq_protocol q), version := rq_version q,
        keep_alive_timer := rq_keepalive q\<rparr>) =
    (connect_of q)\<lparr>conn_id := None, will_topic := None, will_msg := None, uname := None,
      upassword := None\<rparr>"
  unfolding parse_flags_eq flags_qos[OF assms] flags_bits(1-5)[OF assms]
  using flags_bits(6)[OF assms]
  by (simp add: connect_of_def new_Connect_def split: option.splits)

lemma readConnect_enc:
  assumes ok: "request_ok q" and l: "l = int (length (enc_connect q))"
  shows "readConnect l (r\<lparr>rd_data := enc_connect q @ rest\<rparr>) =
    ((connect_of q, None), r\<lparr>rd_data := rest\<rparr>)"
proof -
  let ?rest = "enc_will (rq_will q) @ enc_opt (rq_user q) @ enc_opt (rq_pass q) @ rest"
  let ?c = "(connect_of q)\<lparr>conn_id := None, will_topic := None, will_msg := None, uname := None,
      upassword := None\<rparr>"
  have id: "short (rq_id q)" "0 < length (rq_id q)" "length (rq_id q) \<le> 64"
    using ok by (auto simp: request_ok_def short_def)
  have mid: "readInt (r\<lparr>rd_data := enc_mid (rq_keepalive q) @ xs\<rparr>) 2 =
      ((rq_keepalive q, None), r\<lparr>rd_data := xs\<rparr>)" for xs
    using ok by (subst readInt_mid) (simp_all add: request_ok_def)
  have will: "readConnect_will (?c\<lparr>conn_id := Some (rq_id q)\<rparr>)
      (2 + int (length (enc_will (rq_will q) @ enc_opt (rq_user q) @ enc_opt (rq_pass q))))
      (r\<lparr>rd_data := ?rest\<rparr>) = ((connect_of q, None), r\<lparr>rd_data := rest\<rparr>)"
    using ok by (subst readConnect_will_enc)
      (auto simp: request_ok_def connect_of_def split: option.splits)
  then have rid: "readConnect_id ?c
      (2 + int (length (rq_id q)) +
        int (length (enc_will (rq_will q) @ enc_opt (rq_user q) @ enc_opt (rq_pass q))))
      (r\<lparr>rd_data := enc_string (rq_id q) @ ?rest\<rparr>) = ((connect_of q, None), r\<lparr>rd_data := rest\<rparr>)"
    using id by (simp add: readConnect_id_def readString_short add.commute add.left_commute)
  show ?thesis
    using ok rid parse_request_flags[OF ok] mid l
    by (simp add: readConnect_def enc_connect_def readString_short request_ok_def ReadByte_def
        new_Connect_def add.commute add.left_commute)
qed

section \<open>SUBSCRIBE and UNSUBSCRIBE\<close>

definition enc_filter :: "string \<times> byte \<Rightarrow> bytes" where
  "enc_filter f = enc_string (fst f) @ [snd f]"

definition enc_subscribe :: "int \<Rightarrow> (string \<times> byte) list \<Rightarrow> bytes" where
  "enc_subscribe mid fs = enc_mid mid @ concat (map enc_filter fs)"

definition enc_unsubscribe :: "int \<Rightarrow> string list \<Rightarrow> bytes" where
  "enc_unsubscribe mid ts = enc_mid mid @ concat (map enc_string ts)"

definition topic_of :: "string \<times> byte \<Rightarrow> topics" where
  "topic_of f = \<lparr>top_name = Some (fst f), top_Qos = snd f\<rparr>"

lemma readInt_len:
  "short s \<Longrightarrow> readInt (r\<lparr>rd_data := enc_string s @ rest\<rparr>) 2 =
     ((int (length s), None), r\<lparr>rd_data := bytes_of_str s @ rest\<rparr>)"
  by (subst int16.rd_enc[of "int (length s)"]) (simp_all add: short_def enc_string_def)

lemma ReadFull_str:
  "ReadFull (length s) (r\<lparr>rd_data := bytes_of_str s @ rest\<rparr>) =
     ((bytes_of_str s, None), r\<lparr>rd_data := rest\<rparr>)"
  by (subst ReadFull_append) simp_all

text \<open>The loop counts the two bytes of the message id as part of the topics and stops at them.\<close>

lemma readTopics_sub_enc:
  "\<forall>f \<in> set fs. short (fst f) \<Longrightarrow> l = 2 + int (length (concat (map enc_filter fs))) \<Longrightarrow>
   readTopics_sub sub l (r\<lparr>rd_data := concat (map enc_filter fs) @ rest\<rparr>) =
     (sub\<lparr>sub_topics := sub_topics sub @ map topic_of fs\<rparr>, r\<lparr>rd_data := rest\<rparr>)"
proof (induction fs arbitrary: sub l)
  case Nil
  then show ?case by (subst readTopics_sub.simps) simp
next
  case (Cons f fs)
  let ?rest = "concat (map enc_filter fs) @ rest"
  obtain s b where f: "f = (s, b)" by (cases f)
  have "readInt (r\<lparr>rd_data := enc_string s @ b # ?rest\<rparr>) 2 =
      ((int (length s), None), r\<lparr>rd_data := bytes_of_str s @ b # ?rest\<rparr>)"
    using Cons.prems(1) f by (intro readInt_len) simp
  moreover note ReadFull_str[where s = s and r = r and rest = "b # ?rest"]
    Cons.IH[of "l - 3 - int (length s)" "sub_addTopics sub (topic_of f)"]
  moreover have "enc_filter f = enc_string s @ [b]" "topic_of f = \<lparr>top_name = Some s, top_Qos = b\<rparr>"
    by (simp_all add: f enc_filter_def topic_of_def)
  ultimately show ?case
    using Cons.prems
    by (subst readTopics_sub.simps) (simp add: ReadByte_def sub_addTopics_def algebra_simps)
qed

lemma readTopics_unsub_enc:
  "\<forall>t \<in> set ts. short t \<Longrightarrow> l = 2 + int (length (concat (map enc_string ts))) \<Longrightarrow>
   readTopics_unsub sub l (r\<lparr>rd_data := concat (map enc_string ts) @ rest\<rparr>) =
     (sub\<lparr>unsub_topics := unsub_topics sub @ map (\<lambda>t. topic_of (t, 0)) ts\<rparr>, r\<lparr>rd_data := rest\<rparr>)"
proof (induction ts arbitrary: sub l)
  case Nil
  then show ?case by (subst readTopics_unsub.simps) simp
next
  case (Cons t ts)
  let ?rest = "concat (map enc_string ts) @ rest"
  have "readInt (r\<lparr>rd_data := enc_string t @ ?rest\<rparr>) 2 =
      ((int (length t), None), r\<lparr>rd_data := bytes_of_str t @ ?rest\<rparr>)"
    using Cons.prems(1) by (intro readInt_len) simp
  moreover note ReadFull_str[where s = t and r = r and rest = ?rest]
    Cons.IH[of "l - 2 - int (length t)" "unsub_addTopics sub (topic_of (t, 0))"]
  ultimately show ?case
    using Cons.prems
    by (subst readTopics_unsub.simps)
      (simp add: unsub_addTopics_def topic_of_def algebra_simps)
qed

section \<open>Frames\<close>

text \<open>The fixed header of a request, its length and its body, in the standard's format.\<close>

definition frame :: "byte \<Rightarrow> byte \<Rightarrow> bytes \<Rightarrow> bytes" where
  "frame t q body =
     fixed_byte (new_Pack\<lparr>msg_type := t, qos_level := q\<rparr>) # mqtt_varint (length body) @ body"

definition framed :: "byte \<Rightarrow> byte \<Rightarrow> bytes \<Rightarrow> pvariable \<Rightarrow> pack" where
  "framed t q body v = new_Pack\<lparr>msg_type := t, qos_level := q, pk_length := int (length body), variable := v\<rparr>"

definition frame_fits :: "int \<Rightarrow> bytes \<Rightarrow> bool" where
  "frame_fits m body \<longleftrightarrow> length body < 128 ^ 3 \<and> int (length body) \<le> m"

lemma ReadPack_frame:
  assumes "t < 16" "q < 4" "frame_fits m body"
    and v: "readVariable t q (int (length body)) (r\<lparr>rd_data := body @ rest\<rparr>) =
      ((v, None), r\<lparr>rd_data := rest\<rparr>)"
  shows "ReadPack (r\<lparr>rd_data := frame t q body @ rest\<rparr>) m =
    ((Some (framed t q body v), None), r\<lparr>rd_data := rest\<rparr>)"
proof -
  let ?r = "r\<lparr>rd_data := mqtt_varint (length body) @ body @ rest\<rparr>"
  obtain c r' where c: "ReadByte ?r = (Inr c, r')" and
    l: "readLength 1 0 1 c r' = ((int (length body), None), r\<lparr>rd_data := body @ rest\<rparr>)"
    using readLength_varint3[of "length body" ?r "body @ rest"] assms(3) by (auto simp: frame_fits_def)
  have "parse_fixed (fixed_byte (new_Pack\<lparr>msg_type := t, qos_level := q\<rparr>)) =
      new_Pack\<lparr>msg_type := t, qos_level := q\<rparr>"
    using assms by (subst parse_fixed_fixed_byte) (simp_all add: new_Pack_def)
  with c l v assms(3) show ?thesis
    by (simp add: ReadPack_def frame_def framed_def frame_fits_def ReadByte_Cons new_Pack_def)
qed

section \<open>Properties of the codec\<close>


definition sample_conn :: tcp_conn where
  "sample_conn = \<lparr>closeFlag = False, tc_sent = [], tc_left = None, tc_netClosed = False\<rparr>"

definition sample_writer :: bwriter where
  "sample_writer = \<lparr>bw_buf = [], bw_size = 16, bw_err = None, bw_conn = sample_conn\<rparr>"

definition sample_packs :: "pack list" where
  "sample_packs =
     [GetConnAckPack 0, GetPubPack 1 0 7 (Some ''room/join'') [1, 2, 3], GetPubAckPack 9]"


lemma ReadPack_connect:
  assumes "request_ok q" "frame_fits m (enc_connect q)"
  shows "ReadPack \<lparr>rd_data = frame CONNECT 0 (enc_connect q) @ rest, rd_end = e\<rparr> m =
    ((Some (framed CONNECT 0 (enc_connect q) (VConnect (connect_of q))), None),
     \<lparr>rd_data = rest, rd_end = e\<rparr>)"
  using ReadPack_frame[where r = "\<lparr>rd_data = [], rd_end = e\<rparr>" and rest = rest and t = CONNECT
      and q = 0 and m = m and body = "enc_connect q" and v = "VConnect (connect_of q)"] assms
    readConnect_enc[OF assms(1) refl, where r = "\<lparr>rd_data = [], rd_end = e\<rparr>" and rest = rest]
  by (simp add: readVariable_def wrapVariable_def pack_types)

text \<open>C24: A CONNECT packet in the standard's format, with any combination of will, user name and
  password, is decoded to exactly the fields the client chose, and no byte after it is consumed.\<close>

theorem connect_decoded:
  assumes "request_ok q" "frame_fits m (enc_connect q)"
  shows "ReadPack \<lparr>rd_data = frame CONNECT 0 (enc_connect q) @ rest, rd_end = e\<rparr> m =
    ((Some (framed CONNECT 0 (enc_connect q) (VConnect (connect_of q))), None),
     \<lparr>rd_data = rest, rd_end = e\<rparr>)"
  using assms by (rule ReadPack_connect)

definition sample_request :: connect_request where
  "sample_request = \<lparr>rq_protocol = ''MQTT'', rq_version = 4, rq_clean = True,
     rq_will = Some (''bye'', ''x'', 1, False), rq_user = Some ''alice'', rq_pass = None,
     rq_keepalive = 60, rq_id = ''c1''\<rparr>"

theorem connect_decoded_witness:
  "ReadPack \<lparr>rd_data = frame CONNECT 0 (enc_connect sample_request) @ [1], rd_end = EOF\<rparr> 1024 =
    ((Some (framed CONNECT 0 (enc_connect sample_request) (VConnect (connect_of sample_request))), None),
     \<lparr>rd_data = [1], rd_end = EOF\<rparr>)"
  by (rule connect_decoded)
    (simp_all add: sample_request_def request_ok_def short_def mid_ok_def frame_fits_def enc_connect_def
      enc_will_def enc_opt_def)

lemma readSubscribe_enc:
  assumes "mid_ok mid" "\<forall>f \<in> set fs. short (fst f)"
  shows "readSubscribe (int (length (enc_subscribe mid fs))) (r\<lparr>rd_data := enc_subscribe mid fs @ rest\<rparr>) =
    ((\<lparr>sub_mid = mid, sub_topics = map topic_of fs\<rparr>, None), r\<lparr>rd_data := rest\<rparr>)"
  using assms(2) readInt_mid[OF assms(1), of "r\<lparr>rd_data := enc_subscribe mid fs @ rest\<rparr>"
      "concat (map enc_filter fs) @ rest"]
  by (simp add: readSubscribe_def enc_subscribe_def readTopics_sub_enc)

lemma readUNSubscribe_enc:
  assumes "mid_ok mid" "\<forall>t \<in> set ts. short t"
  shows "readUNSubscribe (int (length (enc_unsubscribe mid ts)))
      (r\<lparr>rd_data := enc_unsubscribe mid ts @ rest\<rparr>) =
    ((\<lparr>unsub_mid = mid, unsub_topics = map (\<lambda>t. topic_of (t, 0)) ts\<rparr>, None), r\<lparr>rd_data := rest\<rparr>)"
  using assms(2) readInt_mid[OF assms(1), of "r\<lparr>rd_data := enc_unsubscribe mid ts @ rest\<rparr>"
      "concat (map enc_string ts) @ rest"]
  by (simp add: readUNSubscribe_def enc_unsubscribe_def readTopics_unsub_enc)

text \<open>SUBSCRIBE and UNSUBSCRIBE packets in the standard's format are decoded to their message
  id and their topics in order, and no byte after them is consumed.\<close>

theorem subscriptions_decoded:
  assumes "mid_ok mid" "\<forall>f \<in> set fs. short (fst f)" "frame_fits m (enc_subscribe mid fs)"
    "\<forall>t \<in> set ts. short t" "frame_fits m (enc_unsubscribe mid ts)"
  shows "ReadPack (r\<lparr>rd_data := frame SUBSCRIBE 1 (enc_subscribe mid fs) @ rest\<rparr>) m =
      ((Some (framed SUBSCRIBE 1 (enc_subscribe mid fs)
         (VSubscribe \<lparr>sub_mid = mid, sub_topics = map topic_of fs\<rparr>)), None),
       r\<lparr>rd_data := rest\<rparr>) \<and>
    ReadPack (r\<lparr>rd_data := frame UNSUBSCRIBE 1 (enc_unsubscribe mid ts) @ rest\<rparr>) m =
      ((Some (framed UNSUBSCRIBE 1 (enc_unsubscribe mid ts)
         (VUNSubscribe \<lparr>unsub_mid = mid, unsub_topics = map (\<lambda>t. topic_of (t, 0)) ts\<rparr>)), None),
       r\<lparr>rd_data := rest\<rparr>)"
  using assms readSubscribe_enc readUNSubscribe_enc
  by (intro conjI ReadPack_frame) (simp_all add: readVariable_def wrapVariable_def pack_types)

theorem subscriptions_decoded_witness:
  "ReadPack (\<lparr>rd_data = [], rd_end = EOF\<rparr>\<lparr>rd_data := frame SUBSCRIBE 1 (enc_subscribe 5 [(''a/b'', 1)]) @ [9]\<rparr>) 1024 =
      ((Some (framed SUBSCRIBE 1 (enc_subscribe 5 [(''a/b'', 1)])
         (VSubscribe \<lparr>sub_mid = 5, sub_topics = map topic_of [(''a/b'', 1)]\<rparr>)), None),
       \<lparr>rd_data = [], rd_end = EOF\<rparr>\<lparr>rd_data := [9]\<rparr>) \<and>
    ReadPack (\<lparr>rd_data = [], rd_end = EOF\<rparr>\<lparr>rd_data := frame UNSUBSCRIBE 1 (enc_unsubscribe 5 [''a/b'']) @ [9]\<rparr>) 1024 =
      ((Some (framed UNSUBSCRIBE 1 (enc_unsubscribe 5 [''a/b''])
         (VUNSubscribe \<lparr>unsub_mid = 5, unsub_topics = map (\<lambda>t. topic_of (t, 0)) [''a/b'']\<rparr>)), None),
       \<lparr>rd_data = [], rd_end = EOF\<rparr>\<lparr>rd_data := [9]\<rparr>)"
  by (rule subscriptions_decoded)
    (simp_all add: mid_ok_def short_def frame_fits_def enc_subscribe_def enc_unsubscribe_def enc_filter_def)

end
