(* ===== verification/Mqtt_Agent.thy ===== *)
theory Mqtt_Agent
  imports Gate_Handler Mqtt_Requests
begin

text \<open>
  The agent of a connection (\<^verbatim>\<open>src/gate/base/mqtt_agent.go\<close>) and the serialization of sessions
  (\<^verbatim>\<open>src/gate/base/mqtt_gate.go\<close>): the handshake of \<open>Run\<close>, the bounded pool of workers
  (\<open>Wait\<close>, \<open>Finish\<close>, \<open>OnRecover\<close>), the routing of a published message to a module
  (\<open>recoverworker\<close>) and the answer (\<open>toResult\<close>). What the agent calls outside the gate is the
  environment \<open>aenv\<close>: routing to a server, the remote calls, JSON syntax, protobuf, the
  application's answer format.
\<close>

section \<open>Sessions as arguments of remote calls\<close>

definition RPCParamSessionType :: string where
  "RPCParamSessionType = ''SESSION''"

definition RPCParamProtocolMarshalType :: string where
  "RPCParamProtocolMarshalType = ''ProtocolMarshal''"

text \<open>The dynamic types \<open>Serialize\<close> distinguishes; \<open>NotPointer\<close> is any value that is not a
  (non-nil) pointer, \<open>OtherPointer\<close> a pointer to any other type.\<close>

datatype gparam = PSession session_imp | PProtocol bytes | NotPointer | OtherPointer

definition Serialize ::
    "(session_imp \<Rightarrow> go_error + bytes) \<Rightarrow> gparam \<Rightarrow> string \<times> bytes \<times> go_error option" where
  "Serialize marshal param =
     (case param of
        NotPointer \<Rightarrow> ([], [], Some (Errorf ''Serialize [%v ] or not pointer type'' []))
      | PSession s \<Rightarrow>
          (case marshal s of
             Inl e \<Rightarrow> (RPCParamSessionType, [], Some e)
           | Inr b \<Rightarrow> (RPCParamSessionType, b, None))
      | PProtocol b \<Rightarrow> (RPCParamProtocolMarshalType, b, None)
      | OtherPointer \<Rightarrow> ([], [], Some (Errorf ''args [%s] Types not allowed'' [])))"

definition Deserialize ::
    "(bytes \<Rightarrow> go_error + session_imp) \<Rightarrow> string \<Rightarrow> string \<Rightarrow> bytes \<Rightarrow> go_error + gparam" where
  "Deserialize unmarshal span ptype b =
     (if ptype = RPCParamSessionType
      then (case unmarshal b of
              Inl e \<Rightarrow> Inl e
            | Inr se \<Rightarrow> Inr (PSession (Clone_imp span (fill_settings se))))
      else if ptype = RPCParamProtocolMarshalType then Inr (PProtocol b)
      else Inl (Errorf ''args [%s] Types not allowed'' [AS ptype]))"

section \<open>The environment and the agent\<close>

text \<open>\<open>'srv\<close> servers, \<open>'r\<close> results of remote calls, \<open>'w\<close> the state of everything remote.\<close>

datatype 'r call_result = Marshalled bytes | Plain 'r | NoResult

record ('srv, 'r, 'w) aenv =
  ae_GetRouteServer :: "string \<Rightarrow> go_error + 'srv"
  ae_json_ok :: "bytes \<Rightarrow> bool"
  ae_marshal :: "session_imp \<Rightarrow> go_error + bytes"
  ae_CallArgs :: "'srv \<Rightarrow> string \<Rightarrow> string list \<Rightarrow> bytes list \<Rightarrow> 'w \<Rightarrow> ('r call_result \<times> go_error option) \<times> 'w"
  ae_CallNRArgs :: "'srv \<Rightarrow> string \<Rightarrow> string list \<Rightarrow> bytes list \<Rightarrow> 'w \<Rightarrow> go_error option \<times> 'w"
  ae_ProtocolMarshal :: "string \<Rightarrow> 'r call_result \<Rightarrow> go_error option \<Rightarrow> bytes option \<times> go_error option"
  ae_Heartbeat :: "(session_imp option \<Rightarrow> 'w \<Rightarrow> 'w) option"
  ae_heartbeat_ns :: int
  ae_OnRoute :: "(session_imp option \<Rightarrow> string \<Rightarrow> bytes \<Rightarrow> 'w \<Rightarrow> (bool \<times> 'r call_result \<times> go_error option) \<times> 'w) option"

record mqtt_agent =
  ma_agent :: gate_agent
  ma_ch :: nat
  ma_cap :: nat
  ma_lastHeartbeat :: int

section \<open>The pool of workers\<close>

definition Wait :: "mqtt_agent \<Rightarrow> go_error option \<times> mqtt_agent" where
  "Wait age =
     (if ma_ch age < ma_cap age then (None, age\<lparr>ma_ch := ma_ch age + 1\<rparr>)
      else (Some (Errorf ''the work queue is full!'' []), age))"

definition Finish :: "mqtt_agent \<Rightarrow> mqtt_agent" where
  "Finish age = (if ma_ch age > 0 then age\<lparr>ma_ch := ma_ch age - 1\<rparr> else age)"

section \<open>Answers\<close>

definition toResult ::
    "'st genv \<Rightarrow> ('srv, 'r, 'w) aenv \<Rightarrow> string \<Rightarrow> 'r call_result \<Rightarrow> go_error option \<Rightarrow> gate_agent
      \<Rightarrow> (go_error option \<times> gate_agent) outcome" where
  "toResult env ae topic result err ag =
     (case result of
        Marshalled d \<Rightarrow> agent_WriteMsg env topic d ag
      | _ \<Rightarrow>
          (case ag_session ag of
             None \<Rightarrow> Panic ''invalid memory address or nil pointer dereference''
           | Some s \<Rightarrow>
               (case ae_ProtocolMarshal ae (TraceId s) result err of
                  (b, None) \<Rightarrow>
                    (case b of None \<Rightarrow> Ret (None, ag) | Some d \<Rightarrow> agent_WriteMsg env topic d ag)
                | (_, Some e) \<Rightarrow>
                    (case ae_ProtocolMarshal ae (TraceId s) NoResult (Some e) of
                       (None, _) \<Rightarrow> Panic ''invalid memory address or nil pointer dereference''
                     | (Some d, _) \<Rightarrow> agent_WriteMsg env topic d ag))))"

section \<open>Routing\<close>

text \<open>
  What a worker does with a published message when the gate has no route handler of its own:
  nothing, answer with an error, call a function of a module and answer with its result, or call
  it without an answer.
\<close>

datatype 'srv route_action =
    Nothing
  | Reply_error go_error
  | Do_call 'srv string "string list" "bytes list"
  | Do_callNR 'srv string "string list" "bytes list"

definition looks_like_json :: "bytes \<Rightarrow> bool" where
  "looks_like_json msg \<longleftrightarrow> msg \<noteq> [] \<and> hd msg = 123 \<and> last msg = 125"

definition topic_msgid :: "string list \<Rightarrow> string" where
  "topic_msgid topics = (if length topics = 3 then topics ! 2 else [])"

definition route_publish ::
    "('srv, 'r, 'w) aenv \<Rightarrow> string \<Rightarrow> session_imp \<Rightarrow> string \<Rightarrow> bytes \<Rightarrow> 'srv route_action" where
  "route_publish ae span s topic msg =
     (let topics = split_on CHR ''/'' topic
      in if length topics < 2
         then Reply_error (Errorf ''Topic must be [moduleType@moduleID]/[handler]|[moduleType@moduleID]/[handler]/[msgid]'' [])
         else
          (let msgid = topic_msgid topics;
               on_error = (\<lambda>e. if msgid \<noteq> [] then Reply_error e else Nothing)
           in if take 3 (topics ! 1) \<noteq> ''HD_''
              then on_error (Errorf (''Method(%s) must begin with 'HD_'' @ [CHR 0x27]) [AS (topics ! 1)])
              else (case ae_GetRouteServer ae (topics ! 0) of
                      Inl _ \<Rightarrow> on_error (Errorf ''Service(type:%s) not found'' [AS (topics ! 0)])
                    | Inr server \<Rightarrow>
                        if looks_like_json msg \<and> \<not> ae_json_ok ae msg
                        then on_error (Errorf ''The JSON format is incorrect'' [])
                        else
                         (let argtype = (if looks_like_json msg then ''map'' else ''bytes'')
                          in case ae_marshal ae (SetTopic topic (Clone_imp span s)) of
                               Inl _ \<Rightarrow> Nothing
                             | Inr b \<Rightarrow>
                                 if msgid \<noteq> []
                                 then Do_call server (topics ! 1) [RPCParamSessionType, argtype] [b, msg]
                                 else Do_callNR server (topics ! 1) [RPCParamSessionType, argtype] [b, msg]))))"

definition run_action ::
    "'st genv \<Rightarrow> ('srv, 'r, 'w) aenv \<Rightarrow> string \<Rightarrow> 'srv route_action \<Rightarrow> gate_agent \<times> 'w
      \<Rightarrow> (gate_agent \<times> 'w) outcome" where
  "run_action env ae topic act agw =
     (case agw of (ag, w) \<Rightarrow>
        case act of
          Nothing \<Rightarrow> Ret (ag, w)
        | Reply_error e \<Rightarrow>
            outcome_bind (toResult env ae topic NoResult (Some e) ag) (\<lambda>(_, ag). Ret (ag, w))
        | Do_call server f types args \<Rightarrow>
            (case ae_CallArgs ae server f types args w of
               ((result, e), w) \<Rightarrow>
                 outcome_bind (toResult env ae topic result e ag) (\<lambda>(_, ag). Ret (ag, w)))
        | Do_callNR server f types args \<Rightarrow>
            (case ae_CallNRArgs ae server f types args w of (_, w) \<Rightarrow> Ret (ag, w)))"

text \<open>\<open>recoverworker\<close> for one packet, without its deferred part.\<close>

definition recoverworker ::
    "'st genv \<Rightarrow> ('srv, 'r, 'w) aenv \<Rightarrow> string \<Rightarrow> pack \<Rightarrow> gate_agent \<times> 'w \<Rightarrow> (gate_agent \<times> 'w) outcome" where
  "recoverworker env ae span pk agw =
     (case agw of (ag, w) \<Rightarrow>
        if msg_type pk = PUBLISH
        then
          (let ag = ag\<lparr>ag_revNum := ag_revNum ag + 1\<rparr>
           in case variable pk of
                VPublish pub \<Rightarrow>
                  (case topic_name pub of
                     None \<Rightarrow> Panic ''invalid memory address or nil pointer dereference''
                   | Some topic \<Rightarrow>
                       (case ae_OnRoute ae of
                          Some onRoute \<Rightarrow>
                            (case onRoute (ag_session ag) topic (pub_msg pub) w of
                               ((needreturn, result, err), w) \<Rightarrow>
                                 if needreturn
                                 then outcome_bind (toResult env ae topic result err ag) (\<lambda>(_, ag). Ret (ag, w))
                                 else Ret (ag, w))
                        | None \<Rightarrow>
                            (case ag_session ag of
                               None \<Rightarrow> Panic ''invalid memory address or nil pointer dereference''
                             | Some s \<Rightarrow>
                                 run_action env ae topic (route_publish ae span s topic (pub_msg pub)) (ag, w))))
              | _ \<Rightarrow> Panic ''interface conversion'')
        else Ret (ag, w))"

text \<open>
  The deferred part tells the storage handler, if there is one and the last time is long enough
  ago, that the session is alive, and runs \<open>Finish\<close>, whether the worker returned or panicked; a
  panic is recovered. Of a worker that panicked, only what the deferred part does is kept.
\<close>

definition storage_heartbeat ::
    "('srv, 'r, 'w) aenv \<Rightarrow> int \<Rightarrow> mqtt_agent \<times> 'w \<Rightarrow> mqtt_agent \<times> 'w" where
  "storage_heartbeat ae now agw =
     (case agw of (age, w) \<Rightarrow>
        if ma_lastHeartbeat age + ae_heartbeat_ns ae < now
        then (case ae_Heartbeat ae of
                Some beat \<Rightarrow> (age\<lparr>ma_lastHeartbeat := now\<rparr>, beat (ag_session (ma_agent age)) w)
              | None \<Rightarrow> (age, w))
        else (age, w))"

definition run_worker ::
    "'st genv \<Rightarrow> ('srv, 'r, 'w) aenv \<Rightarrow> int \<Rightarrow> string \<Rightarrow> pack \<Rightarrow> mqtt_agent \<times> 'w \<Rightarrow> (mqtt_agent \<times> 'w) outcome" where
  "run_worker env ae now span pk agw =
     (case agw of (age, w) \<Rightarrow>
        outcome_bind
          (case recoverworker env ae span pk (ma_agent age, w) of
             Ret (ag, w) \<Rightarrow> Ret (age\<lparr>ma_agent := ag\<rparr>, w)
           | Panic _ \<Rightarrow> Ret (age, w)
           | Hang \<Rightarrow> Hang)
          (\<lambda>agw. case storage_heartbeat ae now agw of (age, w) \<Rightarrow> Ret (Finish age, w)))"

text \<open>
  \<open>OnRecover\<close>: a worker is started (\<open>Inr\<close> the agent with its place taken), or the pool is full and
  the client is told so; that branch asserts that the packet is a PUBLISH.
\<close>

definition OnRecover ::
    "'st genv \<Rightarrow> ('srv, 'r, 'w) aenv \<Rightarrow> pack \<Rightarrow> mqtt_agent \<Rightarrow> (mqtt_agent + mqtt_agent) outcome" where
  "OnRecover env ae pk age =
     (case Wait age of
        (None, age) \<Rightarrow> Ret (Inr age)
      | (Some err, age) \<Rightarrow>
          (case variable pk of
             VPublish pub \<Rightarrow>
               (case topic_name pub of
                  None \<Rightarrow> Panic ''invalid memory address or nil pointer dereference''
                | Some topic \<Rightarrow>
                    outcome_bind (toResult env ae topic NoResult (Some err) (ma_agent age)) (\<lambda>(_, ag).
                      Ret (Inl (age\<lparr>ma_agent := ag\<rparr>))))
           | _ \<Rightarrow> Panic ''interface conversion''))"

section \<open>The handshake\<close>

text \<open>
  What \<open>Run\<close> takes from its surroundings: the limits, the generated ids, the addresses of the
  connection and the ids of the module. The guest function set on the new session is not part of
  its data.
\<close>

record run_params =
  rp_timeout :: int
  rp_maxPackSize :: int
  rp_sessionid :: string
  rp_network :: string
  rp_ip :: string
  rp_serverid :: string
  rp_instanceid :: string
  rp_trace :: string
  rp_span :: string

definition session_map :: "run_params \<Rightarrow> string \<rightharpoonup> any_value" where
  "session_map p =
     [''Sessionid'' \<mapsto> AnyString (rp_sessionid p), ''Network'' \<mapsto> AnyString (rp_network p),
      ''IP'' \<mapsto> AnyString (rp_ip p), ''Serverid'' \<mapsto> AnyString (rp_serverid p),
      ''GateInstanceID'' \<mapsto> AnyString (rp_instanceid p), ''Settings'' \<mapsto> AnyMap Map.empty]"

text \<open>
  \<open>Run\<close> up to the listening loop: \<open>None\<close> when it gives the connection up, otherwise the agent that
  is handed to the agent learner and the rest of the stream.
\<close>

definition Run_handshake ::
    "run_params \<Rightarrow> reader \<Rightarrow> bwriter \<Rightarrow> gate_agent \<Rightarrow> (gate_agent \<times> reader) option outcome" where
  "Run_handshake p r w ag =
     (case ReadPack r (rp_maxPackSize p) of
        ((_, Some err), _) \<Rightarrow> Ret None
      | ((None, None), _) \<Rightarrow> Panic ''invalid memory address or nil pointer dereference''
      | ((Some pk, None), r) \<Rightarrow>
          if msg_type pk \<noteq> CONNECT then Ret None
          else (case variable pk of
                  VConnect conn \<Rightarrow>
                    outcome_bind (updateMap (session_map p) new_SessionImp) (\<lambda>se.
                      let se = CreateTrace (rp_trace p) (rp_span p) (fill_settings se)
                      in outcome_bind (Mqtt_Write.WritePack (GetConnAckPack 0) w) (\<lambda>(err, w).
                           if err \<noteq> None then Ret None
                           else Ret (Some (ag\<lparr>ag_session := Some se,
                             ag_client := Some (NewClient (rp_timeout p) w (fst (GetKeepAlive conn)) (rp_maxPackSize p)),
                             ag_protocol_ok := True\<rparr>, r))))
                | _ \<Rightarrow> Ret None))"

definition session_made :: "run_params \<Rightarrow> session_imp" where
  "session_made p = new_SessionImp\<lparr>SessionId := rp_sessionid p, Network := rp_network p, IP := rp_ip p,
     ServerId := rp_serverid p, GateInstanceId := rp_instanceid p, Settings := Some Map.empty,
     TraceId := rp_trace p, SpanId := rp_span p\<rparr>"

lemma updateMap_session_map:
  "updateMap (session_map p) new_SessionImp =
     Ret ((session_made p)\<lparr>TraceId := [], SpanId := []\<rparr>)"
  by (simp add: updateMap_def session_map_def set_if_nonnil_def set_if_there_def set_settings_def
      assert_string_def session_made_def new_SessionImp_def)

lemma Run_handshake_accepts:
  assumes "Run_handshake p r w ag = Ret (Some (ag', r'))"
  shows "\<exists>pk conn w'. ReadPack r (rp_maxPackSize p) = ((Some pk, None), r') \<and> msg_type pk = CONNECT \<and>
    variable pk = VConnect conn \<and> Mqtt_Write.WritePack (GetConnAckPack 0) w = Ret (None, w') \<and>
    ag' = ag\<lparr>ag_session := Some (session_made p),
      ag_client := Some (NewClient (rp_timeout p) w' (fst (GetKeepAlive conn)) (rp_maxPackSize p)),
      ag_protocol_ok := True\<rparr>"
proof -
  have made: "CreateTrace (rp_trace p) (rp_span p)
      (fill_settings ((session_made p)\<lparr>TraceId := [], SpanId := []\<rparr>)) = session_made p"
    by (simp add: CreateTrace_def fill_settings_def session_made_def new_SessionImp_def)
  from assms show ?thesis
    by (auto simp: Run_handshake_def updateMap_session_map Let_def outcome_bind_Ret_iff made
        split: prod.splits option.splits if_splits pvariable.splits)
qed

lemma WritePack_healthy:
  assumes "healthy w" "out_ok m pk" "Mqtt_Write.WritePack pk w = Ret (err, w')"
  shows "err = None \<and> healthy w' \<and> tc_sent (bw_conn w') = stream w @ encode_pack pk"
proof -
  from appendsD[OF appends_DelayWritePack[OF assms(2)] assms(1)] obtain w1 where
    w1: "DelayWritePack pk w = Ret (None, w1)" "healthy w1" "stream w1 = stream w @ encode_pack pk" by blast
  from Flush_healthy[OF w1(2)] obtain w2 where
    "Flush w1 = (None, w2)" "healthy w2" "stream w2 = stream w1" "bw_buf w2 = []" by blast
  with w1 assms(3) show ?thesis by (auto simp: Mqtt_Write.WritePack_def stream_def)
qed

section \<open>The pool as a transition system\<close>

text \<open>The agent and the workers that are running.\<close>

record pool =
  po_agent :: mqtt_agent
  po_running :: nat

inductive pool_step :: "'st genv \<Rightarrow> ('srv, 'r, 'w) aenv \<Rightarrow> pool \<Rightarrow> pool \<Rightarrow> bool" for env ae where
  started: "OnRecover env ae pk (po_agent p) = Ret (Inr age) \<Longrightarrow>
    pool_step env ae p \<lparr>po_agent = age, po_running = po_running p + 1\<rparr>"
| refused: "OnRecover env ae pk (po_agent p) = Ret (Inl age) \<Longrightarrow>
    pool_step env ae p \<lparr>po_agent = age, po_running = po_running p\<rparr>"
| ended: "po_running p > 0 \<Longrightarrow> run_worker env ae now span pk (po_agent p, w) = Ret (age, w') \<Longrightarrow>
    pool_step env ae p \<lparr>po_agent = age, po_running = po_running p - 1\<rparr>"

definition pool_init :: "nat \<Rightarrow> pool \<Rightarrow> bool" where
  "pool_init cap p \<longleftrightarrow> po_running p = 0 \<and> ma_ch (po_agent p) = 0 \<and> ma_cap (po_agent p) = cap"

definition pool_inv :: "nat \<Rightarrow> pool \<Rightarrow> bool" where
  "pool_inv cap p \<longleftrightarrow> po_running p = ma_ch (po_agent p) \<and> ma_ch (po_agent p) \<le> ma_cap (po_agent p) \<and>
     ma_cap (po_agent p) = cap"

lemma OnRecover_Inr:
  "OnRecover env ae pk age = Ret (Inr age') \<Longrightarrow>
   ma_ch age' = ma_ch age + 1 \<and> ma_ch age < ma_cap age \<and> ma_cap age' = ma_cap age \<and> ma_agent age' = ma_agent age"
  by (auto simp: OnRecover_def Wait_def outcome_bind_Ret_iff split: if_splits pvariable.splits option.splits)

lemma OnRecover_Inl:
  "OnRecover env ae pk age = Ret (Inl age') \<Longrightarrow> ma_ch age' = ma_ch age \<and> ma_cap age' = ma_cap age"
  by (auto simp: OnRecover_def Wait_def outcome_bind_Ret_iff split: if_splits pvariable.splits option.splits)

lemma run_worker_finishes:
  "run_worker env ae now span pk (age, w) = Ret (age', w') \<Longrightarrow>
   ma_ch age' = ma_ch age - 1 \<and> ma_cap age' = ma_cap age"
  by (auto simp: run_worker_def Finish_def storage_heartbeat_def outcome_bind_Ret_iff
      split: outcome.splits if_splits option.splits prod.splits)

lemma pool_inv_step [inv_rules]: "pool_inv cap p \<Longrightarrow> pool_step env ae p p' \<Longrightarrow> pool_inv cap p'"
  by (erule pool_step.cases)
    (auto simp: pool_inv_def dest!: OnRecover_Inr OnRecover_Inl run_worker_finishes)

lemma pool_inv_init [inv_rules]: "pool_init cap p \<Longrightarrow> pool_inv cap p"
  by (simp add: pool_init_def pool_inv_def)

interpretation worker_pool: invariant_system "pool_init cap" "pool_step env ae" "pool_inv cap" for cap env ae
  by unfold_locales (rule inv_rules, assumption+)+

section \<open>Properties\<close>

lemma route_publish_call:
  assumes "route_publish ae span s topic msg = act"
    "act = Do_call srv f types args \<or> act = Do_callNR srv f types args"
  shows "\<exists>m rest b. split_on CHR ''/'' topic = m # f # rest \<and> take 3 f = ''HD_'' \<and>
    ae_GetRouteServer ae m = Inr srv \<and> ae_marshal ae (SetTopic topic (Clone_imp span s)) = Inr b \<and>
    types = [RPCParamSessionType, if looks_like_json msg then ''map'' else ''bytes''] \<and> args = [b, msg] \<and>
    (looks_like_json msg \<longrightarrow> ae_json_ok ae msg) \<and>
    (act = Do_call srv f types args) = (topic_msgid (split_on CHR ''/'' topic) \<noteq> [])"
proof -
  obtain m f' rest where t: "split_on CHR ''/'' topic = m # f' # rest"
    using assms
    by (cases "split_on CHR ''/'' topic"; cases "tl (split_on CHR ''/'' topic)")
      (auto simp: route_publish_def split: if_splits)
  with assms show ?thesis
    by (auto simp: route_publish_def Let_def split: if_splits sum.splits)
qed


definition sample_aenv :: "(nat, nat, unit) aenv" where
  "sample_aenv = \<lparr>ae_GetRouteServer = (\<lambda>m. if m = ''chat'' then Inr 1 else Inl EOF),
     ae_json_ok = (\<lambda>_. True), ae_marshal = (\<lambda>_. Inr [1]),
     ae_CallArgs = (\<lambda>_ _ _ _ w. ((NoResult, None), w)), ae_CallNRArgs = (\<lambda>_ _ _ _ w. (None, w)),
     ae_ProtocolMarshal = (\<lambda>_ _ _. (Some [], None)), ae_Heartbeat = None, ae_heartbeat_ns = 0,
     ae_OnRoute = None\<rparr>"


text \<open>C29: The agent never runs more workers than its channel has places: in every reachable state
  the number of running workers is the number of taken places, at most the configured number of
  concurrent tasks, and a worker gives its place back also when it panics.\<close>

theorem worker_pool_bounded:
  assumes "reach (pool_init cap) (pool_step env ae) p"
  shows "po_running p = ma_ch (po_agent p) \<and> po_running p \<le> cap"
  using worker_pool.inv_reach[OF assms] by (simp add: pool_inv_def)

definition idle_pool :: pool where
  "idle_pool = \<lparr>po_agent = \<lparr>ma_agent = demo_agent, ma_ch = 0, ma_cap = 1, ma_lastHeartbeat = 0\<rparr>, po_running = 0\<rparr>"

definition busy_pool :: pool where
  "busy_pool = \<lparr>po_agent = \<lparr>ma_agent = demo_agent, ma_ch = 1, ma_cap = 1, ma_lastHeartbeat = 0\<rparr>, po_running = 1\<rparr>"

lemma busy_pool_reachable:
  "reach (pool_init 1) (pool_step demo_env sample_aenv) busy_pool"
proof (rule reach_step[where s = idle_pool])
  show "reach (pool_init 1) (pool_step demo_env sample_aenv) idle_pool"
    by (rule reach_init) (simp add: pool_init_def idle_pool_def)
  have "OnRecover demo_env sample_aenv (new_Pack\<lparr>msg_type := PINGREQ\<rparr>) (po_agent idle_pool) =
      Ret (Inr \<lparr>ma_agent = demo_agent, ma_ch = 1, ma_cap = 1, ma_lastHeartbeat = 0\<rparr>)"
    by (simp add: OnRecover_def Wait_def idle_pool_def)
  from pool_step.started[OF this] show "pool_step demo_env sample_aenv idle_pool busy_pool"
    by (simp add: busy_pool_def idle_pool_def)
qed

theorem worker_pool_bounded_witness:
  "po_running busy_pool = ma_ch (po_agent busy_pool) \<and> po_running busy_pool \<le> 1"
  by (rule worker_pool_bounded[OF busy_pool_reachable])

text \<open>A full pool and anything but a PUBLISH: \<open>OnRecover\<close> then panics on its type assertion,
  so a PINGREQ, SUBSCRIBE or UNSUBSCRIBE that arrives while all workers are busy ends the
  connection's read loop.\<close>

theorem full_pool_panics_on_ping:
  assumes "ma_cap age \<le> ma_ch age" "msg_type pk \<in> {PINGREQ, SUBSCRIBE, UNSUBSCRIBE}" "pack_ok pk"
    "msg_type pk = PINGREQ \<Longrightarrow> variable pk = VNil"
  shows "OnRecover env ae pk age = Panic ''interface conversion''"
  using assms
  by (cases "variable pk") (auto simp: OnRecover_def Wait_def pack_ok_def variable_ok_def pack_types)

theorem full_pool_panics_on_ping_witness:
  "OnRecover demo_env sample_aenv (new_Pack\<lparr>msg_type := PINGREQ\<rparr>) (po_agent busy_pool) =
     Panic ''interface conversion''"
  by (rule full_pool_panics_on_ping)
    (simp_all add: busy_pool_def pack_ok_def variable_ok_def new_Pack_def pack_types)

text \<open>C30: The handshake. A connection becomes an agent only when its first packet is a well-formed
  CONNECT; the agent's session then has exactly the ids and addresses it was created with, empty
  settings and no user, the first bytes the client receives are the CONNACK, and the packets
  after the CONNECT are still unread.\<close>

theorem handshake_accepts_only_connect:
  assumes "Run_handshake p r w ag = Ret (Some (ag', r'))" "healthy w" "stream w = []"
  shows "\<exists>pk conn c. ReadPack r (rp_maxPackSize p) = ((Some pk, None), r') \<and> msg_type pk = CONNECT \<and>
    variable pk = VConnect conn \<and> ag_session ag' = Some (session_made p) \<and> ag_protocol_ok ag' \<and>
    UserId (session_made p) = [] \<and> SessionId (session_made p) = rp_sessionid p \<and>
    ag_client ag' = Some c \<and> isConnected (queue c) \<and>
    tc_sent (bw_conn (pq_w (queue c))) = encode_pack (GetConnAckPack 0)"
proof -
  obtain pk conn w' where h: "ReadPack r (rp_maxPackSize p) = ((Some pk, None), r')" "msg_type pk = CONNECT"
    "variable pk = VConnect conn" "Mqtt_Write.WritePack (GetConnAckPack 0) w = Ret (None, w')"
    "ag' = ag\<lparr>ag_session := Some (session_made p),
      ag_client := Some (NewClient (rp_timeout p) w' (fst (GetKeepAlive conn)) (rp_maxPackSize p)),
      ag_protocol_ok := True\<rparr>"
    using Run_handshake_accepts[OF assms(1)] by (elim exE conjE) (rule that)
  have ok: "out_ok 2 (GetConnAckPack 0)"
    by (simp add: out_ok_def pack_constructors body_length_def pack_types)
  have "tc_sent (bw_conn w') = encode_pack (GetConnAckPack 0)"
    using WritePack_healthy[OF assms(2) ok h(4)] assms(3) by simp
  then show ?thesis
    using h by (auto simp: session_made_def new_SessionImp_def NewClient_def NewPackQueue_def
        isConnected_def Let_def)
qed

definition sample_params :: run_params where
  "sample_params = \<lparr>rp_timeout = 10, rp_maxPackSize = 1024, rp_sessionid = ''s1'', rp_network = ''tcp'',
     rp_ip = ''10.0.0.1:4000'', rp_serverid = ''gate@1'', rp_instanceid = ''gate-1'', rp_trace = ''t'',
     rp_span = ''p''\<rparr>"

definition connecting_reader :: reader where
  "connecting_reader = \<lparr>rd_data = frame CONNECT 0 (enc_connect sample_request) @ [192, 0], rd_end = EOF\<rparr>"

lemma connecting_read:
  "ReadPack connecting_reader 1024 =
    ((Some (framed CONNECT 0 (enc_connect sample_request) (VConnect (connect_of sample_request))), None),
     \<lparr>rd_data = [192, 0], rd_end = EOF\<rparr>)"
  unfolding connecting_reader_def
  by (rule ReadPack_connect)
    (simp_all add: sample_request_def request_ok_def short_def mid_ok_def frame_fits_def enc_connect_def
      enc_will_def enc_opt_def)

lemma fresh_healthy: "healthy fresh_writer" "stream fresh_writer = []"
  by (simp_all add: fresh_writer_def fresh_conn_def healthy_def stream_def)

lemma connack_written: "\<exists>w. Mqtt_Write.WritePack (GetConnAckPack 0) fresh_writer = Ret (None, w)"
proof -
  have ok: "out_ok 2 (GetConnAckPack 0)"
    by (simp add: out_ok_def pack_constructors body_length_def pack_types)
  obtain w1 where w1: "DelayWritePack (GetConnAckPack 0) fresh_writer = Ret (None, w1)" "healthy w1"
    using appendsD[OF appends_DelayWritePack[OF ok] fresh_healthy(1)] by blast
  obtain w2 where "Flush w1 = (None, w2)" using Flush_healthy[OF w1(2)] by blast
  with w1 show ?thesis by (simp add: Mqtt_Write.WritePack_def)
qed

lemma sample_handshake:
  "\<exists>ag' r'. Run_handshake sample_params connecting_reader fresh_writer demo_agent = Ret (Some (ag', r'))"
proof -
  obtain w where "Mqtt_Write.WritePack (GetConnAckPack 0) fresh_writer = Ret (None, w)" using connack_written by blast
  then show ?thesis
    by (simp add: Run_handshake_def sample_params_def connecting_read framed_def new_Pack_def
        updateMap_session_map[of sample_params, unfolded sample_params_def] Let_def)
qed

theorem handshake_accepts_only_connect_witness:
  "\<exists>ag' r'. Run_handshake sample_params connecting_reader fresh_writer demo_agent = Ret (Some (ag', r')) \<and>
    ag_session ag' = Some (session_made sample_params) \<and> ag_protocol_ok ag'"
  using sample_handshake
    handshake_accepts_only_connect[of sample_params connecting_reader fresh_writer demo_agent,
      OF _ fresh_healthy] by blast

text \<open>C31: A session sent as an argument of a remote call arrives with the same user, session,
  server, gate, address, trace and settings (given that protobuf decodes what it encoded, an
  empty map as nil), so the receiver acts on the same client; but without its topic, which
  \<open>Deserialize\<close> drops by cloning although the gate has just set it.\<close>

theorem session_argument_roundtrip:
  assumes "marshal s = Inr b"
    and "unmarshal b = Inr (s\<lparr>Settings := (if settings_of s = Map.empty then None else Settings s)\<rparr>)"
  shows "\<exists>ptype s'. Serialize marshal (PSession s) = (ptype, b, None) \<and>
    Deserialize unmarshal span ptype b = Inr (PSession s') \<and>
    UserId s' = UserId s \<and> SessionId s' = SessionId s \<and> ServerId s' = ServerId s \<and>
    GateInstanceId s' = GateInstanceId s \<and> IP s' = IP s \<and> Network s' = Network s \<and>
    TraceId s' = TraceId s \<and> settings_of s' = settings_of s \<and> Topic s' = []"
  using assms
  by (auto simp: Serialize_def Deserialize_def Clone_imp_def fill_settings_def settings_of_def
      new_SessionImp_def split: option.splits)

theorem session_argument_roundtrip_witness:
  "\<exists>ptype s'. Serialize (\<lambda>_. Inr [1]) (PSession (demo_session\<lparr>Topic := ''a''\<rparr>)) = (ptype, [1], None) \<and>
    Deserialize (\<lambda>_. Inr (demo_session\<lparr>Topic := ''a'', Settings := None\<rparr>)) ''x'' ptype [1] = Inr (PSession s') \<and>
    UserId s' = UserId demo_session \<and> SessionId s' = ''s1'' \<and> Topic s' = []"
  using session_argument_roundtrip[of "\<lambda>_. Inr [1]" "demo_session\<lparr>Topic := ''a''\<rparr>" "[1]"
      "\<lambda>_. Inr (demo_session\<lparr>Topic := ''a'', Settings := None\<rparr>)" "''x''"]
  by (auto simp: demo_session_def settings_of_def)

end
