(* ===== verification/Agent_Life.thy ===== *)
theory Agent_Life
  imports Mqtt_Agent
begin

text \<open>
  The life of the agents of a gate (\<^verbatim>\<open>src/gate/base/mqtt_agent.go\<close>: \<open>OnInit\<close>, \<open>Run\<close> with its time limit for the
  handshake, \<open>OnClose\<close>) beside the table of the gate (\<^verbatim>\<open>src/gate/base/gate_handler.go\<close>): the goroutines of the
  connections, the remote requests and the stop of the gate as interleaved steps. The table and its
  counter follow the connections.
\<close>

section \<open>The parts of \<open>Run\<close>\<close>

definition agent_OnInit :: gate_agent where
  "agent_OnInit = \<lparr>ag_session = None, ag_client = None, ag_isclose = False, ag_protocol_ok = False,
     ag_sendNum = 0, ag_revNum = 0, ag_connClosed = False\<rparr>"

text \<open>
  From the first packet to the session, and from there to the end of the handshake; the client that is made in the
  first part shares the writer that the second part writes to.
\<close>

definition Run_open :: "run_params \<Rightarrow> reader \<Rightarrow> bwriter \<Rightarrow> gate_agent \<Rightarrow> (gate_agent \<times> connect \<times> reader) option outcome" where
  "Run_open p r w ag =
     (case ReadPack r (rp_maxPackSize p) of
        ((_, Some err), _) \<Rightarrow> Ret None
      | ((None, None), _) \<Rightarrow> Panic ''invalid memory address or nil pointer dereference''
      | ((Some pk, None), r) \<Rightarrow>
          if msg_type pk \<noteq> CONNECT then Ret None
          else (case variable pk of
                  VConnect conn \<Rightarrow>
                    outcome_bind (updateMap (session_map p) new_SessionImp) (\<lambda>se.
                      Ret (Some (ag\<lparr>ag_client := Some (NewClient (rp_timeout p) w (fst (GetKeepAlive conn)) (rp_maxPackSize p)),
                        ag_session := Some (CreateTrace (rp_trace p) (rp_span p) (fill_settings se))\<rparr>, conn, r)))
                | _ \<Rightarrow> Ret None))"

definition Run_ack :: "run_params \<Rightarrow> connect \<Rightarrow> bwriter \<Rightarrow> gate_agent \<Rightarrow> gate_agent option outcome" where
  "Run_ack p conn w ag =
     outcome_bind (Mqtt_Write.WritePack (GetConnAckPack 0) w) (\<lambda>(err, w).
       if err \<noteq> None then Ret None
       else Ret (Some (ag\<lparr>ag_client := Some (NewClient (rp_timeout p) w (fst (GetKeepAlive conn)) (rp_maxPackSize p)),
                         ag_protocol_ok := True\<rparr>)))"

text \<open>Together they are the handshake.\<close>

lemma Run_handshake_split:
  "Run_handshake p r w ag =
     outcome_bind (Run_open p r w ag) (\<lambda>opened.
       case opened of
         None \<Rightarrow> Ret None
       | Some (ag, conn, r) \<Rightarrow> outcome_bind (Run_ack p conn w ag) (\<lambda>ag. Ret (map_option (\<lambda>ag. (ag, r)) ag)))"
  by (cases "Mqtt_Write.WritePack (GetConnAckPack 0) w")
    (auto simp: Run_handshake_def Run_open_def Run_ack_def updateMap_session_map Let_def
      split: prod.splits option.splits pvariable.splits)

definition agent_OnClose :: "'st genv \<Rightarrow> gate_agent \<Rightarrow> 'st handler \<Rightarrow> gate_agent \<times> 'st handler" where
  "agent_OnClose env a h = (let a = a\<lparr>ag_isclose := True\<rparr> in (a, handler_DisConnect env a h))"

section \<open>The gate over time\<close>

text \<open>
  Where the goroutine of a connection stands: before \<open>OnInit\<close>, before the session is made, before the CONNACK is
  written, before the table is told, in the listening loop, after \<open>Run\<close>, after \<open>OnClose\<close>; and where the
  goroutine for the time limit of the handshake stands.
\<close>

datatype life_pc = LP_new | LP_reading | LP_acking connect | LP_acked | LP_listening | LP_returned | LP_gone
datatype limit_pc = OT_waiting | OT_closing | OT_done

text \<open>
  An agent that is in the table is the entry of the table; \<open>gl_agent\<close> has it while it is not. Every connection
  has its parameters, the generated session id among them.
\<close>

record 'st gate_life =
  gl_handler :: "'st handler"
  gl_pc :: "nat \<Rightarrow> life_pc"
  gl_agent :: "nat \<Rightarrow> gate_agent"
  gl_limit :: "nat \<Rightarrow> limit_pc"

definition agent_now :: "(nat \<Rightarrow> run_params) \<Rightarrow> 'st gate_life \<Rightarrow> nat \<Rightarrow> gate_agent" where
  "agent_now P s i =
     (case map_of (sessions (gl_handler s)) (rp_sessionid (P i)) of Some a \<Rightarrow> a | None \<Rightarrow> gl_agent s i)"

definition close_agent :: "(nat \<Rightarrow> run_params) \<Rightarrow> nat \<Rightarrow> 'st gate_life \<Rightarrow> 'st gate_life" where
  "close_agent P i s =
     (case map_of (sessions (gl_handler s)) (rp_sessionid (P i)) of
        Some a \<Rightarrow> s\<lparr>gl_handler := put_agent (rp_sessionid (P i)) (agent_Close a) (gl_handler s)\<rparr>
      | None \<Rightarrow> s\<lparr>gl_agent := (gl_agent s)(i := agent_Close (gl_agent s i))\<rparr>)"

text \<open>
  \<open>returned\<close> is the deferred end of \<open>Run\<close>, after a refused or failed handshake, a panic, or the listening loop.
  The goroutine for the time limit reads the session and then closes the connection, in two steps.
\<close>

inductive gate_step :: "'st genv \<Rightarrow> (nat \<Rightarrow> run_params) \<Rightarrow> 'st gate_life \<Rightarrow> 'st gate_life \<Rightarrow> bool" for env P where
  started: "gl_pc s i = LP_new \<Longrightarrow>
    gate_step env P s (s\<lparr>gl_pc := (gl_pc s)(i := LP_reading), gl_agent := (gl_agent s)(i := agent_OnInit),
      gl_limit := (gl_limit s)(i := OT_waiting)\<rparr>)"
| limit_found: "gl_pc s i \<noteq> LP_new \<Longrightarrow> gl_limit s i = OT_waiting \<Longrightarrow>
    gate_step env P s (s\<lparr>gl_limit := (gl_limit s)(i := if ag_session (agent_now P s i) = None then OT_closing else OT_done)\<rparr>)"
| limit_closed: "gl_pc s i \<noteq> LP_new \<Longrightarrow> gl_limit s i = OT_closing \<Longrightarrow>
    gate_step env P s (close_agent P i (s\<lparr>gl_limit := (gl_limit s)(i := OT_done)\<rparr>))"
| opened: "gl_pc s i = LP_reading \<Longrightarrow> Run_open (P i) r w (gl_agent s i) = Ret (Some (ag, conn, r')) \<Longrightarrow>
    gate_step env P s (s\<lparr>gl_pc := (gl_pc s)(i := LP_acking conn), gl_agent := (gl_agent s)(i := ag)\<rparr>)"
| refused: "gl_pc s i = LP_reading \<Longrightarrow> Run_open (P i) r w (gl_agent s i) \<in> insert (Ret None) (range Panic) \<Longrightarrow>
    gate_step env P s (close_agent P i (s\<lparr>gl_pc := (gl_pc s)(i := LP_returned)\<rparr>))"
| acked: "gl_pc s i = LP_acking conn \<Longrightarrow> Run_ack (P i) conn w (gl_agent s i) = Ret (Some ag) \<Longrightarrow>
    gate_step env P s (s\<lparr>gl_pc := (gl_pc s)(i := LP_acked), gl_agent := (gl_agent s)(i := ag)\<rparr>)"
| ack_failed: "gl_pc s i = LP_acking conn \<Longrightarrow> Run_ack (P i) conn w (gl_agent s i) \<in> insert (Ret None) (range Panic) \<Longrightarrow>
    gate_step env P s (close_agent P i (s\<lparr>gl_pc := (gl_pc s)(i := LP_returned)\<rparr>))"
| connected: "gl_pc s i = LP_acked \<Longrightarrow>
    gate_step env P s (s\<lparr>gl_pc := (gl_pc s)(i := LP_listening),
      gl_handler := handler_Connect env (gl_agent s i) (gl_handler s)\<rparr>)"
| returned: "gl_pc s i = LP_listening \<Longrightarrow>
    gate_step env P s (close_agent P i (s\<lparr>gl_pc := (gl_pc s)(i := LP_returned)\<rparr>))"
| closed: "gl_pc s i = LP_returned \<Longrightarrow> agent_OnClose env (agent_now P s i) (gl_handler s) = (a, h) \<Longrightarrow>
    gate_step env P s (s\<lparr>gl_pc := (gl_pc s)(i := LP_gone), gl_agent := (gl_agent s)(i := a), gl_handler := h\<rparr>)"
| requested: "run_request env req (gl_handler s) = Ret (res, h) \<Longrightarrow> gate_step env P s (s\<lparr>gl_handler := h\<rparr>)"
| broadcast: "handler_BroadCast env topic body (gl_handler s) = Ret (res, h) \<Longrightarrow>
    gate_step env P s (s\<lparr>gl_handler := h\<rparr>)"
| destroyed: "handler_OnDestroy (gl_handler s) = (as, h) \<Longrightarrow>
    gate_step env P s (s\<lparr>gl_handler := h, gl_agent := (\<lambda>i.
      case map_of (sessions (gl_handler s)) (rp_sessionid (P i)) of Some a \<Rightarrow> agent_Close a | None \<Rightarrow> gl_agent s i)\<rparr>)"

inductive_cases gate_stepE: "gate_step env P s t"

text \<open>The generated session ids differ.\<close>

definition gate_init :: "'st \<Rightarrow> (nat \<Rightarrow> run_params) \<Rightarrow> 'st gate_life \<Rightarrow> bool" where
  "gate_init st P s \<longleftrightarrow> inj (\<lambda>i. rp_sessionid (P i)) \<and> gl_handler s = NewGateHandler st \<and> (\<forall>i. gl_pc s i = LP_new)"

section \<open>The invariant\<close>

text \<open>A connection that has completed the handshake and has not been reported as closed.\<close>

definition is_connected :: "'st gate_life \<Rightarrow> nat \<Rightarrow> bool" where
  "is_connected s i \<longleftrightarrow> gl_pc s i = LP_listening \<or> gl_pc s i = LP_returned \<and> ag_protocol_ok (gl_agent s i)"

fun pc_ok :: "string \<Rightarrow> life_pc \<Rightarrow> gate_agent \<Rightarrow> bool" where
  "pc_ok sid LP_reading a = (ag_session a = None \<and> \<not> ag_protocol_ok a)"
| "pc_ok sid (LP_acking _) a = (agent_ok sid a \<and> \<not> ag_protocol_ok a)"
| "pc_ok sid LP_acked a = (agent_ok sid a \<and> ag_protocol_ok a)"
| "pc_ok sid LP_listening a = (agent_ok sid a \<and> ag_protocol_ok a)"
| "pc_ok sid LP_returned a = (agent_ok sid a \<or> ag_session a = None \<and> \<not> ag_protocol_ok a)"
| "pc_ok sid _ a = True"

definition gate_inv :: "(nat \<Rightarrow> run_params) \<Rightarrow> 'st gate_life \<Rightarrow> bool" where
  "gate_inv P s \<longleftrightarrow> inj (\<lambda>i. rp_sessionid (P i)) \<and> handler_ok (gl_handler s) \<and>
     (\<forall>sid a. map_of (sessions (gl_handler s)) sid = Some a \<longrightarrow>
        ag_protocol_ok a \<and> (\<exists>i. sid = rp_sessionid (P i) \<and> is_connected s i)) \<and>
     finite {i. gl_pc s i \<noteq> LP_new} \<and> agentNum (gl_handler s) = int (card {i. is_connected s i}) \<and>
     (\<forall>i. pc_ok (rp_sessionid (P i)) (gl_pc s i) (gl_agent s i))"

text \<open>Requests neither add nor remove agents, and leave their handshake as it is.\<close>

definition same_agents :: "'st handler \<Rightarrow> 'st handler \<Rightarrow> bool" where
  "same_agents h h' \<longleftrightarrow>
     (\<forall>sid. map_option ag_protocol_ok (map_of (sessions h') sid) = map_option ag_protocol_ok (map_of (sessions h) sid))"

lemma same_agents_refl [simp]: "same_agents h h"
  by (simp add: same_agents_def)

lemma same_agents_trans: "same_agents h h' \<Longrightarrow> same_agents h' h'' \<Longrightarrow> same_agents h h''"
  by (simp add: same_agents_def)

lemma same_agents_put:
  "map_of (sessions h) sid = Some a \<Longrightarrow> ag_protocol_ok a' = ag_protocol_ok a \<Longrightarrow> same_agents h (put_agent sid a' h)"
  by (simp add: same_agents_def put_agent_lookup)

lemma WriteMsg_protocol: "agent_WriteMsg env topic body a = Ret (e, a') \<Longrightarrow> ag_protocol_ok a' = ag_protocol_ok a"
  by (auto simp: agent_WriteMsg_def Let_def outcome_bind_Ret_iff split: option.splits sum.splits)

lemma send_each_same: "send_each env topic body sids n h = Ret (n', h') \<Longrightarrow> same_agents h h'"
proof (induction env topic body sids n h rule: send_each.induct)
  case (2 env topic body sid sids n h)
  show ?case
  proof (cases "map_of (sessions h) sid")
    case (Some a)
    with "2.prems" obtain e a' where w: "agent_WriteMsg env topic body a = Ret (e, a')"
      "send_each env topic body sids (if e = None then n + 1 else n) (put_agent sid a' h) = Ret (n', h')"
      by (auto simp: outcome_bind_Ret_iff)
    show ?thesis
      using same_agents_trans[OF same_agents_put[OF Some WriteMsg_protocol[OF w(1)]] "2.IH"(2)[OF Some w(2)]] .
  qed (use 2 in simp)
qed simp

lemma run_request_same:
  assumes "handler_ok h" "run_request env req h = Ret (res, h')"
  shows "same_agents h h'"
proof (cases "on_session req")
  case True
  show ?thesis
  proof (cases "map_of (sessions h) (request_sid req)")
    case None
    with run_request_missing[OF True None, of env] assms show ?thesis by auto
  next
    case (Some a)
    then obtain s where "ag_session a = Some s" using handler_ok_lookup[OF assms(1)] by blast
    from run_request_spec[OF assms(1) True Some this, of env] assms(2) have
      "map_of (sessions h') (request_sid req) = Some (a\<lparr>ag_session := Some (apply_request env (h_store h) req s)\<rparr>)"
      "\<forall>sid. sid \<noteq> request_sid req \<longrightarrow> map_of (sessions h') sid = map_of (sessions h) sid" by auto
    then have "map_option ag_protocol_ok (map_of (sessions h') sid) = map_option ag_protocol_ok (map_of (sessions h) sid)" for sid
      using Some by (cases "sid = request_sid req") simp_all
    then show ?thesis by (simp add: same_agents_def)
  qed
next
  case False
  with assms(2) show ?thesis
  proof (cases req)
    case (Req_Send sid t b)
    with assms(2) show ?thesis
      by (auto simp: run_request_def handler_Send_def with_agent_def outcome_bind_Ret_iff Let_def
          intro!: same_agents_put dest: WriteMsg_protocol split: option.splits)
  next
    case (Req_Close sid)
    with assms(2) show ?thesis
      by (auto simp: run_request_def handler_Close_def with_agent_def agent_Close_def intro!: same_agents_put split: option.splits)
  qed (auto simp: run_request_def handler_SendBatch_def handler_IsConnect_def outcome_bind_Ret_iff
      dest: send_each_same split: option.splits)
qed

lemma broadcast_same: "handler_BroadCast env topic body h = Ret (res, h') \<Longrightarrow> same_agents h h'"
  by (auto simp: handler_BroadCast_def outcome_bind_Ret_iff dest: send_each_same)

lemma broadcast_ok:
  "handler_ok h \<Longrightarrow> handler_BroadCast env topic body h = Ret (res, h') \<Longrightarrow> handler_ok h' \<and> agentNum h' = agentNum h"
  by (auto simp: handler_BroadCast_def outcome_bind_Ret_iff dest: send_each_ok)

lemma agent_ok_close [simp]: "agent_ok sid (agent_Close a) = agent_ok sid a"
  "ag_protocol_ok (agent_Close a) = ag_protocol_ok a" "ag_session (agent_Close a) = ag_session a"
  by (simp_all add: agent_ok_def agent_Close_def)

lemma pc_ok_close [simp]: "pc_ok sid pc (agent_Close a) = pc_ok sid pc a"
  by (cases pc) simp_all

lemma gate_invD:
  assumes "gate_inv P s"
  shows "inj (\<lambda>i. rp_sessionid (P i))" "handler_ok (gl_handler s)"
    "map_of (sessions (gl_handler s)) (rp_sessionid (P i)) = Some a \<Longrightarrow> is_connected s i \<and> ag_protocol_ok a \<and> agent_ok (rp_sessionid (P i)) a"
    "finite {i. is_connected s i}" "pc_ok (rp_sessionid (P i)) (gl_pc s i) (gl_agent s i)"
proof -
  show "is_connected s i \<and> ag_protocol_ok a \<and> agent_ok (rp_sessionid (P i)) a"
    if "map_of (sessions (gl_handler s)) (rp_sessionid (P i)) = Some a"
    using assms that handler_ok_member[OF _ that] unfolding gate_inv_def by (metis (no_types, lifting) injD)
  have "{i. is_connected s i} \<subseteq> {i. gl_pc s i \<noteq> LP_new}" by (auto simp: is_connected_def)
  then show "finite {i. is_connected s i}" using assms by (auto simp: gate_inv_def intro: finite_subset)
qed (use assms in \<open>auto simp: gate_inv_def\<close>)

lemma gate_inv_handler:
  assumes "gate_inv P s" "same_agents (gl_handler s) h" "handler_ok h" "agentNum h = agentNum (gl_handler s)"
  shows "gate_inv P (s\<lparr>gl_handler := h\<rparr>)"
proof -
  have "ag_protocol_ok a \<and> (\<exists>i. sid = rp_sessionid (P i) \<and> is_connected s i)"
    if "map_of (sessions h) sid = Some a" for sid a
  proof -
    have "map_option ag_protocol_ok (map_of (sessions (gl_handler s)) sid) = Some (ag_protocol_ok a)"
      using assms(2) that unfolding same_agents_def by (metis option.simps(9))
    then obtain a0 where "map_of (sessions (gl_handler s)) sid = Some a0" "ag_protocol_ok a = ag_protocol_ok a0" by auto
    then show ?thesis using assms(1) unfolding gate_inv_def by metis
  qed
  then show ?thesis using assms by (auto simp: gate_inv_def is_connected_def)
qed

text \<open>Steps that do not touch the table: one connection moves on and stays connected or not.\<close>

lemma gate_inv_local:
  assumes "gate_inv P s" "gl_handler t = gl_handler s" "\<forall>j. is_connected t j = is_connected s j"
    and "\<forall>j. j \<noteq> i \<longrightarrow> gl_pc t j = gl_pc s j \<and> gl_agent t j = gl_agent s j"
    and "pc_ok (rp_sessionid (P i)) (gl_pc t i) (gl_agent t i)"
  shows "gate_inv P t"
proof -
  have "{j. gl_pc t j \<noteq> LP_new} \<subseteq> insert i {j. gl_pc s j \<noteq> LP_new}" using assms(4) by auto
  then have "finite {j. gl_pc t j \<noteq> LP_new}" using assms(1) by (auto simp: gate_inv_def intro: finite_subset)
  moreover have "pc_ok (rp_sessionid (P j)) (gl_pc t j) (gl_agent t j)" for j
    using assms(4,5) gate_invD(5)[OF assms(1), of j] by (cases "j = i") auto
  ultimately show ?thesis using assms(1-3) by (simp add: gate_inv_def)
qed

lemma gate_inv_close:
  assumes "gate_inv P s"
  shows "gate_inv P (close_agent P i s)"
proof (cases "map_of (sessions (gl_handler s)) (rp_sessionid (P i))")
  case None
  then show ?thesis
    using gate_invD(5)[OF assms, of i]
    by (intro gate_inv_local[OF assms, where i = i]) (auto simp: close_agent_def is_connected_def)
next
  case (Some a)
  have "handler_ok (put_agent (rp_sessionid (P i)) (agent_Close a) (gl_handler s))"
    using gate_invD(2,3)[OF assms] Some by (simp add: handler_ok_put)
  with gate_inv_handler[OF assms same_agents_put[OF Some]] Some show ?thesis by (simp add: close_agent_def)
qed

lemma gate_inv_connect:
  assumes "gate_inv P s" "gl_pc s i = LP_acked"
  shows "gate_inv P (s\<lparr>gl_pc := (gl_pc s)(i := LP_listening), gl_handler := handler_Connect env (gl_agent s i) (gl_handler s)\<rparr>)"
    (is "gate_inv P ?t")
proof -
  have ag: "agent_ok (rp_sessionid (P i)) (gl_agent s i)" "ag_protocol_ok (gl_agent s i)"
    using gate_invD(5)[OF assms(1), of i] assms(2) by auto
  then obtain se where se: "ag_session (gl_agent s i) = Some se" "SessionId se = rp_sessionid (P i)" "Settings se \<noteq> None"
    by (auto simp: agent_ok_def split: option.splits)
  have conn: "is_connected ?t j \<longleftrightarrow> j = i \<or> is_connected s j" for j by (simp add: is_connected_def)
  have "\<not> is_connected s i" using assms(2) by (simp add: is_connected_def)
  then have "card {j. is_connected ?t j} = Suc (card {j. is_connected s j})"
    using gate_invD(4)[OF assms(1)] by (simp add: conn insert_compr[symmetric] Collect_disj_eq)
  moreover have "sessions (gl_handler ?t) = AList.update (rp_sessionid (P i)) (gl_agent s i) (sessions (gl_handler s))"
    "agentNum (gl_handler ?t) = agentNum (gl_handler s) + 1"
    using se ag by (simp_all add: handler_Connect_def Let_def)
  moreover have "handler_ok (gl_handler ?t)"
    using handler_ok_Connect[OF gate_invD(2)[OF assms(1)] se(1,3)] by simp
  moreover have "{j. gl_pc ?t j \<noteq> LP_new} = {j. gl_pc s j \<noteq> LP_new}" using assms(2) by auto
  moreover have "\<exists>j. sid = rp_sessionid (P j) \<and> is_connected ?t j" if "map_of (sessions (gl_handler s)) sid = Some a" for sid a
    using assms(1) that unfolding gate_inv_def conn by metis
  moreover have "is_connected ?t i" by (simp add: conn)
  ultimately show ?thesis
    using assms(1) ag by (auto simp: gate_inv_def update_conv' simp del: gate_life.simps split: if_splits)
qed

lemma int_card_remove: "finite A \<Longrightarrow> int (card (A - {x})) = int (card A) - (if x \<in> A then 1 else 0)"
  using card_Suc_Diff1[of A x] by auto

lemma gate_inv_OnClose:
  assumes "gate_inv P s" "gl_pc s i = LP_returned" "agent_OnClose env (agent_now P s i) (gl_handler s) = (a, h)"
  shows "gate_inv P (s\<lparr>gl_pc := (gl_pc s)(i := LP_gone), gl_agent := (gl_agent s)(i := a), gl_handler := h\<rparr>)"
    (is "gate_inv P ?t")
proof -
  let ?sid = "rp_sessionid (P i)" and ?a = "agent_now P s i"
  have now: "ag_protocol_ok ?a = is_connected s i" "agent_ok ?sid ?a \<or> ag_session ?a = None \<and> \<not> ag_protocol_ok ?a"
    using gate_invD(3,5)[OF assms(1), of i] assms(2) by (auto simp: agent_now_def is_connected_def split: option.splits)
  have h: "h = handler_DisConnect env (?a\<lparr>ag_isclose := True\<rparr>) (gl_handler s)"
    using assms(3) by (auto simp: agent_OnClose_def Let_def)
  have absent: "ag_session ?a = None \<Longrightarrow> map_of (sessions (gl_handler s)) ?sid = None"
    using gate_invD(3)[OF assms(1), of i] now(1,2)
    by (auto simp: agent_now_def agent_ok_def split: option.splits)
  have table: "map_of (sessions h) sid = (if sid = ?sid then None else map_of (sessions (gl_handler s)) sid)" for sid
    using now(2) absent
    by (auto simp: h handler_DisConnect_def Let_def agent_ok_def delete_conv' split: option.splits)
  have num: "agentNum h = agentNum (gl_handler s) - (if is_connected s i then 1 else 0)"
    using now by (auto simp: h handler_DisConnect_def Let_def agent_ok_def split: option.splits)
  have conn: "is_connected ?t j \<longleftrightarrow> j \<noteq> i \<and> is_connected s j" for j by (simp add: is_connected_def)
  have "{j. is_connected ?t j} = {j. is_connected s j} - {i}" unfolding conn by auto
  then have card: "int (card {j. is_connected ?t j}) = int (card {j. is_connected s j}) - (if is_connected s i then 1 else 0)"
    using int_card_remove[OF gate_invD(4)[OF assms(1)], of i] by simp
  have "handler_ok h" using handler_ok_DisConnect[OF gate_invD(2)[OF assms(1)]] by (simp add: h)
  moreover have "{j. gl_pc ?t j \<noteq> LP_new} = {j. gl_pc s j \<noteq> LP_new}" using assms(2) by auto
  moreover have "ag_protocol_ok b \<and> (\<exists>j. sid = rp_sessionid (P j) \<and> is_connected ?t j)" if "map_of (sessions h) sid = Some b" for sid b
  proof -
    have "map_of (sessions (gl_handler s)) sid = Some b" "sid \<noteq> ?sid" using that by (simp_all add: table split: if_splits)
    then show ?thesis using assms(1) unfolding gate_inv_def conn by metis
  qed
  moreover have "pc_ok (rp_sessionid (P j)) (gl_pc ?t j) (gl_agent ?t j)" for j
    using gate_invD(5)[OF assms(1), of j] by simp
  ultimately show ?thesis
    using assms(1) num card unfolding gate_inv_def by simp
qed

lemma gate_inv_OnDestroy:
  assumes "gate_inv P s" "handler_OnDestroy (gl_handler s) = (as, h)"
  shows "gate_inv P (s\<lparr>gl_handler := h, gl_agent := (\<lambda>i.
      case map_of (sessions (gl_handler s)) (rp_sessionid (P i)) of Some a \<Rightarrow> agent_Close a | None \<Rightarrow> gl_agent s i)\<rparr>)"
    (is "gate_inv P ?t")
proof -
  have h: "sessions h = []" "agentNum h = agentNum (gl_handler s)" using assms(2) by (auto simp: handler_OnDestroy_def)
  have agent: "ag_protocol_ok (gl_agent ?t i) = ag_protocol_ok (gl_agent s i) \<and> pc_ok (rp_sessionid (P i)) (gl_pc s i) (gl_agent ?t i)" for i
  proof (cases "map_of (sessions (gl_handler s)) (rp_sessionid (P i))")
    case None
    then show ?thesis using gate_invD(5)[OF assms(1), of i] by simp
  next
    case (Some a)
    from gate_invD(3)[OF assms(1) this] gate_invD(5)[OF assms(1), of i] Some show ?thesis
      by (auto simp: is_connected_def)
  qed
  then have "is_connected ?t i = is_connected s i" for i by (simp add: is_connected_def)
  then show ?thesis
    using assms(1) h agent by (simp add: gate_inv_def handler_ok_def del: gate_life.select_convs(3))
qed

lemma Run_open_opened:
  "Run_open p r w ag = Ret (Some (ag', conn, r')) \<Longrightarrow>
   agent_ok (rp_sessionid p) ag' \<and> ag_protocol_ok ag' = ag_protocol_ok ag"
  by (auto simp: Run_open_def updateMap_session_map agent_ok_def CreateTrace_def fill_settings_def session_made_def
      split: prod.splits option.splits if_splits pvariable.splits)

lemma Run_ack_acked:
  "Run_ack p conn w ag = Ret (Some ag') \<Longrightarrow> ag_session ag' = ag_session ag \<and> ag_protocol_ok ag'"
  by (auto simp: Run_ack_def outcome_bind_Ret_iff split: if_splits)

lemma gate_inv_step [inv_rules]:
  assumes "gate_inv P s" "gate_step env P s t"
  shows "gate_inv P t"
  using assms(2)
proof cases
  case (started i)
  then show ?thesis by (intro gate_inv_local[OF assms(1), where i = i]) (auto simp: is_connected_def agent_OnInit_def)
next
  case (limit_found i)
  then show ?thesis using gate_invD(5)[OF assms(1)]
    by (intro gate_inv_local[OF assms(1), where i = i]) (auto simp: is_connected_def)
next
  case (limit_closed i)
  have "gate_inv P (s\<lparr>gl_limit := (gl_limit s)(i := OT_done)\<rparr>)"
    using gate_invD(5)[OF assms(1)] by (intro gate_inv_local[OF assms(1), where i = i]) (auto simp: is_connected_def)
  then show ?thesis using gate_inv_close limit_closed(1) by blast
next
  case (opened i r w ag conn r')
  then show ?thesis using gate_invD(5)[OF assms(1), of i] Run_open_opened[OF opened(3)]
    by (intro gate_inv_local[OF assms(1), where i = i]) (auto simp: is_connected_def)
next
  case (refused i r w)
  have "gate_inv P (s\<lparr>gl_pc := (gl_pc s)(i := LP_returned)\<rparr>)"
    using refused(2) gate_invD(5)[OF assms(1), of i] by (intro gate_inv_local[OF assms(1), where i = i]) (auto simp: is_connected_def)
  then show ?thesis using gate_inv_close refused(1) by blast
next
  case (acked i conn w ag)
  then show ?thesis using gate_invD(5)[OF assms(1), of i] Run_ack_acked[OF acked(3)]
    by (intro gate_inv_local[OF assms(1), where i = i]) (auto simp: is_connected_def agent_ok_def)
next
  case (ack_failed i conn w)
  have "gate_inv P (s\<lparr>gl_pc := (gl_pc s)(i := LP_returned)\<rparr>)"
    using ack_failed(2) gate_invD(5)[OF assms(1), of i] by (intro gate_inv_local[OF assms(1), where i = i]) (auto simp: is_connected_def)
  then show ?thesis using gate_inv_close ack_failed(1) by blast
next
  case (connected i)
  then show ?thesis using gate_inv_connect[OF assms(1)] by blast
next
  case (returned i)
  have "gate_inv P (s\<lparr>gl_pc := (gl_pc s)(i := LP_returned)\<rparr>)"
    using returned(2) gate_invD(5)[OF assms(1), of i] by (intro gate_inv_local[OF assms(1), where i = i]) (auto simp: is_connected_def)
  then show ?thesis using gate_inv_close returned(1) by blast
next
  case (closed i a h)
  then show ?thesis using gate_inv_OnClose[OF assms(1)] by blast
next
  case (requested req res h)
  then show ?thesis
    using gate_inv_handler[OF assms(1)] run_request_same run_request_ok gate_invD(2)[OF assms(1)] by blast
next
  case (broadcast topic body res h)
  then show ?thesis
    using gate_inv_handler[OF assms(1)] broadcast_same broadcast_ok gate_invD(2)[OF assms(1)] by blast
next
  case (destroyed as h)
  then show ?thesis using gate_inv_OnDestroy[OF assms(1)] by blast
qed

lemma gate_inv_init [inv_rules]: "gate_init st P s \<Longrightarrow> gate_inv P s"
  by (simp add: gate_init_def gate_inv_def is_connected_def NewGateHandler_def handler_ok_def)

interpretation life_sys: invariant_system "gate_init st P" "gate_step env P" "gate_inv P" for st P env
  by unfold_locales (rule inv_rules, assumption+)+

section \<open>Properties\<close>


text \<open>A client connects; the goroutine for the time limit has seen no session before the handshake was complete.\<close>

definition numbered :: "nat \<Rightarrow> run_params" where
  "numbered i = sample_params\<lparr>rp_sessionid := replicate i CHR ''a''\<rparr>"

lemma one_connected:
  "\<exists>s. reach (gate_init () numbered) (gate_step demo_env numbered) s \<and> gl_limit s 0 = OT_closing \<and>
     (\<forall>i. gl_pc s i = (if i = 0 then LP_listening else LP_new))"
proof -
  let ?r = "reach (gate_init () numbered) (gate_step demo_env numbered)"
  define s0 where "s0 = \<lparr>gl_handler = NewGateHandler (), gl_pc = (\<lambda>_. LP_new), gl_agent = (\<lambda>_. agent_OnInit), gl_limit = (\<lambda>_. OT_done)\<rparr>"
  have "inj (\<lambda>i. rp_sessionid (numbered i))" by (auto simp: numbered_def inj_def dest: arg_cong[where f = length])
  then have r0: "?r s0" by (intro reach_init) (simp add: gate_init_def s0_def)
  have "gl_pc s0 0 = LP_new" by (simp add: s0_def)
  from reach_step[OF r0 gate_step.started[OF this]]
  obtain s1 where s1: "?r s1" "gl_handler s1 = NewGateHandler ()" "gl_pc s1 = (\<lambda>_. LP_new)(0 := LP_reading)"
      "gl_agent s1 0 = agent_OnInit" "gl_limit s1 0 = OT_waiting" by (fastforce simp: s0_def)
  have none: "ag_session (agent_now numbered s1 0) = None" by (simp add: agent_now_def s1 NewGateHandler_def agent_OnInit_def)
  obtain s2 where s2: "?r s2" "gl_pc s2 = gl_pc s1" "gl_agent s2 = gl_agent s1" "gl_limit s2 0 = OT_closing"
    using reach_step[OF s1(1) gate_step.limit_found[of s1 0]] s1 none by fastforce
  obtain ag conn r where open': "Run_open (numbered 0) connecting_reader fresh_writer (gl_agent s2 0) = Ret (Some (ag, conn, r))"
    by (simp add: Run_open_def numbered_def sample_params_def connecting_read framed_def new_Pack_def
        updateMap_session_map[of "numbered 0", unfolded numbered_def sample_params_def, simplified] Let_def)
  have "gate_step demo_env numbered s2 (s2\<lparr>gl_pc := (gl_pc s2)(0 := LP_acking conn), gl_agent := (gl_agent s2)(0 := ag)\<rparr>)"
    using s2 s1 open' by (intro gate_step.opened) simp_all
  from reach_step[OF s2(1) this] s2 obtain s3 where s3: "?r s3" "gl_pc s3 = (gl_pc s1)(0 := LP_acking conn)"
      "gl_limit s3 0 = OT_closing" by fastforce
  obtain ag' where ack: "Run_ack (numbered 0) conn fresh_writer (gl_agent s3 0) = Ret (Some ag')"
    using connack_written by (auto simp: Run_ack_def)
  have "gate_step demo_env numbered s3 (s3\<lparr>gl_pc := (gl_pc s3)(0 := LP_acked), gl_agent := (gl_agent s3)(0 := ag')\<rparr>)"
    using s3 ack by (intro gate_step.acked) simp_all
  from reach_step[OF s3(1) this] s3 obtain s4 where s4: "?r s4" "gl_pc s4 = (gl_pc s1)(0 := LP_acked)" "gl_limit s4 0 = OT_closing"
    by fastforce
  from reach_step[OF s4(1) gate_step.connected[of s4 0]] s4 s1(3) show ?thesis by fastforce
qed


text \<open>The time limit may close a connection whose handshake is complete.\<close>

lemma limit_closes_connected:
  "\<exists>s t. reach (gate_init () numbered) (gate_step demo_env numbered) s \<and> gl_pc s 0 = LP_listening \<and>
     gate_step demo_env numbered s t \<and> ag_connClosed (agent_now numbered t 0)"
proof -
  obtain s where s: "reach (gate_init () numbered) (gate_step demo_env numbered) s" "gl_limit s 0 = OT_closing"
      "gl_pc s 0 = LP_listening" using one_connected by fastforce
  have "ag_connClosed (agent_now numbered (close_agent numbered 0 x) 0)" for x :: "unit gate_life"
    by (simp add: close_agent_def agent_now_def put_agent_lookup agent_Close_def split: option.splits)
  with s gate_step.limit_closed[of s 0 demo_env numbered] show ?thesis by fastforce
qed

text \<open>
  A client whose CONNACK cannot be written has a session but was never announced: its end is reported to the
  session learner, its beginning was not.
\<close>

lemma unannounced_disconnect:
  assumes "gl_pc s i = LP_returned" "agent_now P s i = a" "ag_session a = Some se" "\<not> ag_protocol_ok a" "SessionLearner env"
  shows "\<exists>t. gate_step env P s t \<and> h_events (gl_handler t) = h_events (gl_handler s) @ [LDisConnect se] \<and>
    agentNum (gl_handler t) = agentNum (gl_handler s)"
proof -
  obtain a' h where c: "agent_OnClose env (agent_now P s i) (gl_handler s) = (a', h)" by fastforce
  then have "h_events h = h_events (gl_handler s) @ [LDisConnect se]" "agentNum h = agentNum (gl_handler s)"
    using assms(2-5) by (auto simp: agent_OnClose_def handler_DisConnect_def Let_def)
  with gate_step.closed[OF assms(1) c] show ?thesis by fastforce
qed

end
