(* ===== verification/Rpc_Args.thy ===== *)
theory Rpc_Args
  imports Mqant_Prelude
begin

text \<open>
  Arguments and results of remote calls as bytes (\<^verbatim>\<open>src/rpc/util/argsutil.go\<close>,
  \<^verbatim>\<open>src/utils/params_bytes.go\<close>, \<^verbatim>\<open>src/log/span.go\<close>): the fixed-width encodings and the tagged
  encoding of Go values. Numbers keep their width; a float is its IEEE bit pattern, which
  \<open>math.Float32bits\<close> and \<open>math.Float32frombits\<close> leave alone. JSON, protobuf, reflection and the
  serializers the application registers are the environment \<open>arg_env\<close>.
\<close>

section \<open>Fixed-width values\<close>

definition BoolToBytes :: "bool \<Rightarrow> bytes" where
  "BoolToBytes v = [if v then 1 else 0]"

definition index_panic :: string where
  "index_panic = ''index out of range''"

definition BytesToBool :: "bytes \<Rightarrow> bool outcome" where
  "BytesToBool buf = (case buf of [] \<Rightarrow> Panic index_panic | b # _ \<Rightarrow> Ret (b \<noteq> 0))"

text \<open>\<open>binary.BigEndian\<close> and \<open>binary.LittleEndian\<close>.\<close>

definition PutUint32_be :: "32 word \<Rightarrow> bytes" where
  "PutUint32_be v = [ucast (drop_bit 24 v), ucast (drop_bit 16 v), ucast (drop_bit 8 v), ucast v]"

fun Uint32_be :: "bytes \<Rightarrow> 32 word outcome" where
  "Uint32_be (a # b # c # d # _) =
     Ret (ucast d OR push_bit 8 (ucast c) OR push_bit 16 (ucast b) OR push_bit 24 (ucast a))"
| "Uint32_be _ = Panic index_panic"

definition PutUint64_be :: "64 word \<Rightarrow> bytes" where
  "PutUint64_be v = [ucast (drop_bit 56 v), ucast (drop_bit 48 v), ucast (drop_bit 40 v), ucast (drop_bit 32 v),
     ucast (drop_bit 24 v), ucast (drop_bit 16 v), ucast (drop_bit 8 v), ucast v]"

fun Uint64_be :: "bytes \<Rightarrow> 64 word outcome" where
  "Uint64_be (a # b # c # d # e # f # g # h # _) =
     Ret (ucast h OR push_bit 8 (ucast g) OR push_bit 16 (ucast f) OR push_bit 24 (ucast e) OR
       push_bit 32 (ucast d) OR push_bit 40 (ucast c) OR push_bit 48 (ucast b) OR push_bit 56 (ucast a))"
| "Uint64_be _ = Panic index_panic"

definition PutUint32_le :: "32 word \<Rightarrow> bytes" where
  "PutUint32_le v = rev (PutUint32_be v)"

definition Uint32_le :: "bytes \<Rightarrow> 32 word outcome" where
  "Uint32_le b = (if length b < 4 then Panic index_panic else Uint32_be (rev (take 4 b)))"

definition PutUint64_le :: "64 word \<Rightarrow> bytes" where
  "PutUint64_le v = rev (PutUint64_be v)"

definition Uint64_le :: "bytes \<Rightarrow> 64 word outcome" where
  "Uint64_le b = (if length b < 8 then Panic index_panic else Uint64_be (rev (take 8 b)))"

definition Int32ToBytes :: "32 word \<Rightarrow> bytes" where
  "Int32ToBytes i = PutUint32_be i"

definition BytesToInt32 :: "bytes \<Rightarrow> 32 word outcome" where
  "BytesToInt32 buf = Uint32_be buf"

definition Int64ToBytes :: "64 word \<Rightarrow> bytes" where
  "Int64ToBytes i = PutUint64_be i"

definition BytesToInt64 :: "bytes \<Rightarrow> 64 word outcome" where
  "BytesToInt64 buf = Uint64_be buf"

definition Float32ToBytes :: "32 word \<Rightarrow> bytes" where
  "Float32ToBytes bits = PutUint32_le bits"

definition BytesToFloat32 :: "bytes \<Rightarrow> 32 word outcome" where
  "BytesToFloat32 b = Uint32_le b"

definition Float64ToBytes :: "64 word \<Rightarrow> bytes" where
  "Float64ToBytes bits = PutUint64_le bits"

definition BytesToFloat64 :: "bytes \<Rightarrow> 64 word outcome" where
  "BytesToFloat64 b = Uint64_le b"

lemma byte_step:
  "8 \<le> LENGTH('a) \<Longrightarrow> (ucast (ucast v :: byte) :: 'a::len word) OR push_bit 8 (drop_bit 8 v) = v"
  by (rule bit_word_eqI) (auto simp: bit_simps, metis le_add_diff_inverse not_less)

lemma byte_top: "drop_bit 24 v = (ucast (ucast (drop_bit 24 v) :: byte) :: 32 word)" for v :: "32 word"
  by (rule bit_word_eqI) (auto simp: bit_simps dest: bit_imp_le_length)

lemma byte_top_64: "drop_bit 56 v = (ucast (ucast (drop_bit 56 v) :: byte) :: 64 word)" for v :: "64 word"
  by (rule bit_word_eqI) (auto simp: bit_simps dest: bit_imp_le_length)

lemma byte_unfold:
  "push_bit k (drop_bit k v) =
     push_bit k (ucast (ucast (drop_bit k v) :: byte)) OR push_bit (k + 8) (drop_bit (k + 8) v)"
  if "8 \<le> LENGTH('a)" for v :: "'a::len word"
  using arg_cong[OF byte_step[OF that, of "drop_bit k v"], of "push_bit k"]
  by (simp add: push_bit_or add.commute)

lemma Uint32_be_Put [simp]: "Uint32_be (PutUint32_be v @ rest) = Ret v"
proof -
  have "v = ucast (ucast v :: byte) OR push_bit 8 (drop_bit 8 v)" using byte_step[of v] by simp
  also have "\<dots> = ucast (ucast v :: byte) OR push_bit 8 (ucast (ucast (drop_bit 8 v) :: byte)) OR
      push_bit 16 (ucast (ucast (drop_bit 16 v) :: byte)) OR push_bit 24 (drop_bit 24 v)"
    using byte_unfold[of 8 v] byte_unfold[of 16 v] by (simp add: or.assoc)
  also have "push_bit 24 (drop_bit 24 v) = push_bit 24 (ucast (ucast (drop_bit 24 v) :: byte))"
    using byte_top[of v] by metis
  finally show ?thesis by (simp add: PutUint32_be_def)
qed

lemma Uint64_be_Put [simp]: "Uint64_be (PutUint64_be v @ rest) = Ret v"
proof -
  have "v = ucast (ucast v :: byte) OR push_bit 8 (drop_bit 8 v)" using byte_step[of v] by simp
  also have "\<dots> = ucast (ucast v :: byte) OR push_bit 8 (ucast (ucast (drop_bit 8 v) :: byte)) OR
      push_bit 16 (ucast (ucast (drop_bit 16 v) :: byte)) OR push_bit 24 (ucast (ucast (drop_bit 24 v) :: byte)) OR
      push_bit 32 (ucast (ucast (drop_bit 32 v) :: byte)) OR push_bit 40 (ucast (ucast (drop_bit 40 v) :: byte)) OR
      push_bit 48 (ucast (ucast (drop_bit 48 v) :: byte)) OR push_bit 56 (drop_bit 56 v)"
    using byte_unfold[of 8 v] byte_unfold[of 16 v] byte_unfold[of 24 v] byte_unfold[of 32 v] byte_unfold[of 40 v]
      byte_unfold[of 48 v] by (simp add: or.assoc)
  also have "push_bit 56 (drop_bit 56 v) = push_bit 56 (ucast (ucast (drop_bit 56 v) :: byte))"
    using byte_top_64[of v] by metis
  finally show ?thesis by (simp add: PutUint64_be_def)
qed

lemma Put_lengths [simp]: "length (PutUint32_be v) = 4" "length (PutUint64_be v') = 8"
  by (simp_all add: PutUint32_be_def PutUint64_be_def)

lemma Uint32_le_Put [simp]: "Uint32_le (PutUint32_le v) = Ret v"
  using Uint32_be_Put[of v "[]"] by (simp add: Uint32_le_def PutUint32_le_def del: Uint32_be_Put)

lemma Uint64_le_Put [simp]: "Uint64_le (PutUint64_le v) = Ret v"
  using Uint64_be_Put[of v "[]"] by (simp add: Uint64_le_def PutUint64_le_def del: Uint64_be_Put)

section \<open>Values and their tags\<close>

record trace_span =
  Trace :: string
  Span :: string

definition ExtractSpan_trace :: "string \<Rightarrow> trace_span \<Rightarrow> trace_span" where
  "ExtractSpan_trace new_span t = \<lparr>Trace = Trace t, Span = new_span\<rparr>"

text \<open>
  The dynamic types the code distinguishes: \<open>'j\<close> are the values of \<open>map[string]interface{}\<close>, \<open>'o\<close>
  everything else. \<open>RTracePtr\<close> is a non-nil \<open>*log.TraceSpanImp\<close>.
\<close>

datatype ('j, 'o) rarg =
    RNil
  | RBytes bytes
  | RString string
  | RBool bool
  | RInt32 "32 word"
  | RInt64 "64 word"
  | RFloat32 "32 word"
  | RFloat64 "64 word"
  | RMap 'j
  | RMapStr smap
  | RTrace trace_span
  | RTracePtr trace_span
  | ROther 'o

definition NULL :: string where "NULL = ''null''"
definition BOOL :: string where "BOOL = ''bool''"
definition INT_tag :: string where "INT_tag = ''int''"
definition LONG :: string where "LONG = ''long''"
definition FLOAT :: string where "FLOAT = ''float''"
definition DOUBLE :: string where "DOUBLE = ''double''"
definition BYTES :: string where "BYTES = ''bytes''"
definition STRING :: string where "STRING = ''string''"
definition MAP :: string where "MAP = ''map''"
definition MAPSTR :: string where "MAPSTR = ''mapstr''"
definition TRACE :: string where "TRACE = ''trace''"
definition Marshal_tag :: string where "Marshal_tag = ''marshal''"
definition Proto_tag :: string where "Proto_tag = ''proto''"

lemmas tag_defs = NULL_def BOOL_def INT_tag_def LONG_def FLOAT_def DOUBLE_def BYTES_def STRING_def MAP_def
  MAPSTR_def TRACE_def Marshal_tag_def Proto_tag_def

text \<open>
  The serializers are visited in the order of a Go map, that is, in any order; a list in an
  arbitrary order stands for it.
\<close>

record ('j, 'o) arg_env =
  json_map :: "'j \<Rightarrow> go_error + bytes"
  unjson_map :: "bytes \<Rightarrow> go_error + 'j"
  json_mapstr :: "smap \<Rightarrow> go_error + bytes"
  unjson_mapstr :: "bytes \<Rightarrow> go_error + smap"
  json_trace :: "trace_span \<Rightarrow> go_error + bytes"
  unjson_trace :: "bytes \<Rightarrow> go_error + trace_span"
  new_span :: string
  serializes :: "(('o \<Rightarrow> string \<times> bytes \<times> go_error option) \<times> (string \<Rightarrow> bytes \<Rightarrow> go_error + 'o)) list"
  is_pointer :: "'o \<Rightarrow> bool"
  is_nil :: "'o \<Rightarrow> bool"
  as_proto :: "'o \<Rightarrow> (go_error + bytes) option"
  as_marshaler :: "'o \<Rightarrow> (go_error + bytes) option"
  type_name :: "'o \<Rightarrow> string"

definition tagged :: "string \<Rightarrow> go_error + bytes \<Rightarrow> string \<times> bytes \<times> go_error option" where
  "tagged ty r = (case r of Inl e \<Rightarrow> (ty, [], Some e) | Inr b \<Rightarrow> (ty, b, None))"

text \<open>The first serializer that accepts the value, or the type.\<close>

fun first_serialize ::
    "(('o \<Rightarrow> string \<times> bytes \<times> go_error option) \<times> 'd) list \<Rightarrow> 'o \<Rightarrow> (string \<times> bytes) option" where
  "first_serialize [] a = None"
| "first_serialize ((ser, _) # rest) a =
     (case ser a of (ty, b, None) \<Rightarrow> Some (ty, b) | _ \<Rightarrow> first_serialize rest a)"

fun first_deserialize ::
    "('e \<times> (string \<Rightarrow> bytes \<Rightarrow> go_error + 'o)) list \<Rightarrow> string \<Rightarrow> bytes \<Rightarrow> 'o option" where
  "first_deserialize [] ty b = None"
| "first_deserialize ((_, des) # rest) ty b =
     (case des ty b of Inr v \<Rightarrow> Some v | Inl _ \<Rightarrow> first_deserialize rest ty b)"

definition other_to_bytes :: "('j, 'o) arg_env \<Rightarrow> 'o \<Rightarrow> string \<times> bytes \<times> go_error option" where
  "other_to_bytes env a =
     (case first_serialize (serializes env) a of
        Some (ty, b) \<Rightarrow> (ty, b, None)
      | None \<Rightarrow>
          if \<not> is_pointer env a
          then ([], [], Some (Errorf ''Args2Bytes [%v] not registered to app.addrpcserialize(...) structure type or not *mqrpc.marshaler pointer type'' [AS (type_name env a)]))
          else if is_nil env a then (NULL, [], None)
          else (case as_proto env a of
                  Some (Inl e) \<Rightarrow> ([], [], Some (Errorf ''args [%s] proto.Marshal error %v'' [AS (type_name env a), AS (error_text e)]))
                | Some (Inr b) \<Rightarrow> (Proto_tag @ ''@'' @ type_name env a, b, None)
                | None \<Rightarrow>
                    (case as_marshaler env a of
                       Some (Inl e) \<Rightarrow> ([], [], Some (Errorf ''args [%s] marshal error %v'' [AS (type_name env a), AS (error_text e)]))
                     | Some (Inr b) \<Rightarrow> (Marshal_tag @ ''@'' @ type_name env a, b, None)
                     | None \<Rightarrow> ([], [], Some (Errorf ''Args2Bytes [%s] not registered to app.addrpcserialize(...) structure type'' [AS (type_name env a)])))))"

definition ArgsTypeAnd2Bytes ::
    "('j, 'o) arg_env \<Rightarrow> ('j, 'o) rarg \<Rightarrow> string \<times> bytes \<times> go_error option" where
  "ArgsTypeAnd2Bytes env a =
     (case a of
        RNil \<Rightarrow> (NULL, [], None)
      | RBytes b \<Rightarrow> (BYTES, b, None)
      | RString s \<Rightarrow> (STRING, bytes_of_str s, None)
      | RBool v \<Rightarrow> (BOOL, BoolToBytes v, None)
      | RInt32 v \<Rightarrow> (INT_tag, Int32ToBytes v, None)
      | RInt64 v \<Rightarrow> (LONG, Int64ToBytes v, None)
      | RFloat32 v \<Rightarrow> (FLOAT, Float32ToBytes v, None)
      | RFloat64 v \<Rightarrow> (DOUBLE, Float64ToBytes v, None)
      | RMap m \<Rightarrow> tagged MAP (json_map env m)
      | RMapStr m \<Rightarrow> tagged MAPSTR (json_mapstr env m)
      | RTrace t \<Rightarrow> tagged TRACE (json_trace env t)
      | RTracePtr t \<Rightarrow> tagged TRACE (json_trace env t)
      | ROther v \<Rightarrow> other_to_bytes env v)"

definition HasPrefix :: "string \<Rightarrow> string \<Rightarrow> bool" where
  "HasPrefix s p \<longleftrightarrow> take (length p) s = p"

definition read_as :: "('a \<Rightarrow> 'b) \<Rightarrow> 'a outcome \<Rightarrow> (go_error + 'b) outcome" where
  "read_as f r = outcome_bind r (\<lambda>v. Ret (Inr (f v)))"

definition decoded :: "('a \<Rightarrow> 'b) \<Rightarrow> go_error + 'a \<Rightarrow> (go_error + 'b) outcome" where
  "decoded f r = Ret (case r of Inl e \<Rightarrow> Inl e | Inr v \<Rightarrow> Inr (f v))"

definition Bytes2Args ::
    "('j, 'o) arg_env \<Rightarrow> string \<Rightarrow> bytes \<Rightarrow> (go_error + ('j, 'o) rarg) outcome" where
  "Bytes2Args env ty b =
     (if HasPrefix ty Marshal_tag then Ret (Inr (RBytes b))
      else if HasPrefix ty Proto_tag then Ret (Inr (RBytes b))
      else if ty = NULL then Ret (Inr RNil)
      else if ty = STRING then Ret (Inr (RString (str_of_bytes b)))
      else if ty = BOOL then read_as RBool (BytesToBool b)
      else if ty = INT_tag then read_as RInt32 (BytesToInt32 b)
      else if ty = LONG then read_as RInt64 (BytesToInt64 b)
      else if ty = FLOAT then read_as RFloat32 (BytesToFloat32 b)
      else if ty = DOUBLE then read_as RFloat64 (BytesToFloat64 b)
      else if ty = BYTES then Ret (Inr (RBytes b))
      else if ty = MAP then decoded RMap (unjson_map env b)
      else if ty = MAPSTR then decoded RMapStr (unjson_mapstr env b)
      else if ty = TRACE then decoded (\<lambda>t. RTracePtr (ExtractSpan_trace (new_span env) t)) (unjson_trace env b)
      else (case first_deserialize (serializes env) ty b of
              Some v \<Rightarrow> Ret (Inr (ROther v))
            | None \<Rightarrow> Ret (Inl (Errorf ''Bytes2Args [%s] not registered to app.addrpcserialize(...)'' [AS ty]))))"

section \<open>What the tags promise\<close>

text \<open>The shortest encoding a tag allows, and the dynamic type it stands for.\<close>

definition min_length :: "string \<Rightarrow> nat" where
  "min_length ty = (if ty = BOOL then 1 else if ty = INT_tag \<or> ty = FLOAT then 4
     else if ty = LONG \<or> ty = DOUBLE then 8 else 0)"

definition tag_type :: "string \<Rightarrow> ('j, 'o) rarg \<Rightarrow> bool" where
  "tag_type ty v \<longleftrightarrow>
     (if HasPrefix ty Marshal_tag \<or> HasPrefix ty Proto_tag \<or> ty = BYTES then \<exists>b. v = RBytes b
      else if ty = NULL then v = RNil
      else if ty = STRING then \<exists>s. v = RString s
      else if ty = BOOL then \<exists>x. v = RBool x
      else if ty = INT_tag then \<exists>x. v = RInt32 x
      else if ty = LONG then \<exists>x. v = RInt64 x
      else if ty = FLOAT then \<exists>x. v = RFloat32 x
      else if ty = DOUBLE then \<exists>x. v = RFloat64 x
      else if ty = MAP then \<exists>m. v = RMap m
      else if ty = MAPSTR then \<exists>m. v = RMapStr m
      else if ty = TRACE then \<exists>t. v = RTracePtr t
      else \<exists>x. v = ROther x)"

lemma Uint32_be_total: "(\<exists>v. Uint32_be b = Ret v) \<longleftrightarrow> 4 \<le> length b" "Uint32_be b = Panic s \<longleftrightarrow> length b < 4 \<and> s = index_panic"
  "Uint32_be b \<noteq> Hang"
  by (cases b rule: Uint32_be.cases; auto)+

lemma Uint64_be_total: "(\<exists>v. Uint64_be b = Ret v) \<longleftrightarrow> 8 \<le> length b" "Uint64_be b = Panic s \<longleftrightarrow> length b < 8 \<and> s = index_panic"
  "Uint64_be b \<noteq> Hang"
  by (cases b rule: Uint64_be.cases; auto)+

lemma Uint_le_total:
  "Uint32_le b = Panic s \<longleftrightarrow> length b < 4 \<and> s = index_panic" "Uint64_le b = Panic s \<longleftrightarrow> length b < 8 \<and> s = index_panic"
  "Uint32_le b \<noteq> Hang" "Uint64_le b \<noteq> Hang"
  by (auto simp: Uint32_le_def Uint64_le_def Uint32_be_total Uint64_be_total)

lemma BytesToBool_total: "BytesToBool b = Panic s \<longleftrightarrow> length b < 1 \<and> s = index_panic" "BytesToBool b \<noteq> Hang"
  by (auto simp: BytesToBool_def split: list.splits)

lemma read_as_total:
  "read_as f r = Ret x \<longleftrightarrow> (\<exists>v. r = Ret v \<and> x = Inr (f v))" "read_as f r = Panic s \<longleftrightarrow> r = Panic s"
  "read_as f r = Hang \<longleftrightarrow> r = Hang"
  by (cases r; auto simp: read_as_def)+

lemma decoded_total: "decoded f r = Ret x \<longleftrightarrow> x = (case r of Inl e \<Rightarrow> Inl e | Inr v \<Rightarrow> Inr (f v))"
  "decoded f r \<noteq> Panic s" "decoded f r \<noteq> Hang"
  by (auto simp: decoded_def)

lemma Bytes2Args_ends: "Bytes2Args env ty b \<noteq> Hang"
  by (simp add: Bytes2Args_def read_as_total decoded_total BytesToInt32_def BytesToInt64_def BytesToFloat32_def
      BytesToFloat64_def Uint32_be_total Uint64_be_total Uint_le_total BytesToBool_total split: option.splits)

lemma Bytes2Args_tags:
  "Bytes2Args env NULL b = Ret (Inr RNil)" "Bytes2Args env BYTES b = Ret (Inr (RBytes b))"
  "Bytes2Args env STRING b = Ret (Inr (RString (str_of_bytes b)))"
  "Bytes2Args env BOOL b = read_as RBool (BytesToBool b)"
  "Bytes2Args env INT_tag b = read_as RInt32 (BytesToInt32 b)"
  "Bytes2Args env LONG b = read_as RInt64 (BytesToInt64 b)"
  "Bytes2Args env FLOAT b = read_as RFloat32 (BytesToFloat32 b)"
  "Bytes2Args env DOUBLE b = read_as RFloat64 (BytesToFloat64 b)"
  "Bytes2Args env MAP b = decoded RMap (unjson_map env b)"
  "Bytes2Args env MAPSTR b = decoded RMapStr (unjson_mapstr env b)"
  "Bytes2Args env TRACE b = decoded (\<lambda>t. RTracePtr (ExtractSpan_trace (new_span env) t)) (unjson_trace env b)"
  "Bytes2Args env (Proto_tag @ t) b = Ret (Inr (RBytes b))" "Bytes2Args env (Marshal_tag @ t) b = Ret (Inr (RBytes b))"
  by (simp_all add: Bytes2Args_def HasPrefix_def tag_defs)

lemma tag_type_tags:
  "tag_type NULL v = (v = RNil)" "tag_type STRING v = (\<exists>s. v = RString s)" "tag_type BOOL v = (\<exists>x. v = RBool x)"
  "tag_type INT_tag v = (\<exists>x. v = RInt32 x)" "tag_type LONG v = (\<exists>x. v = RInt64 x)"
  "tag_type FLOAT v = (\<exists>x. v = RFloat32 x)" "tag_type DOUBLE v = (\<exists>x. v = RFloat64 x)"
  "tag_type MAP v = (\<exists>m. v = RMap m)" "tag_type MAPSTR v = (\<exists>m. v = RMapStr m)"
  "tag_type TRACE v = (\<exists>t. v = RTracePtr t)"
  by (simp_all add: tag_type_def HasPrefix_def tag_defs)

lemma Bytes2Args_type:
  assumes "Bytes2Args env ty b = Ret (Inr v)"
  shows "tag_type ty v"
proof -
  consider "HasPrefix ty Marshal_tag \<or> HasPrefix ty Proto_tag \<or> ty = BYTES"
    | "ty = NULL" | "ty = STRING" | "ty = BOOL" | "ty = INT_tag" | "ty = LONG" | "ty = FLOAT" | "ty = DOUBLE"
    | "ty = MAP" | "ty = MAPSTR" | "ty = TRACE"
    | "\<not> HasPrefix ty Marshal_tag" "\<not> HasPrefix ty Proto_tag"
      "ty \<notin> {BYTES, NULL, STRING, BOOL, INT_tag, LONG, FLOAT, DOUBLE, MAP, MAPSTR, TRACE}"
    by blast
  then show ?thesis
  proof cases
    case 1
    then have "Bytes2Args env ty b = Ret (Inr (RBytes b))" by (auto simp: Bytes2Args_tags) (simp_all add: Bytes2Args_def)
    with 1 assms show ?thesis by (auto simp: tag_type_def)
  next
    case 12
    then have "tag_type ty v = (\<exists>x. v = ROther x)" by (simp add: tag_type_def)
    with 12 assms show ?thesis by (auto simp: Bytes2Args_def split: option.splits)
  qed (use assms in \<open>auto simp: Bytes2Args_tags tag_type_tags read_as_total decoded_total split: sum.splits\<close>)
qed

lemma Bytes2Args_panic: "(\<exists>s. Bytes2Args env ty b = Panic s) \<longleftrightarrow> length b < min_length ty"
proof -
  consider "ty = BOOL" | "ty = INT_tag" | "ty = LONG" | "ty = FLOAT" | "ty = DOUBLE"
    | "ty \<noteq> BOOL" "ty \<noteq> INT_tag" "ty \<noteq> LONG" "ty \<noteq> FLOAT" "ty \<noteq> DOUBLE" by blast
  then show ?thesis
  proof cases
    case 6
    then have "min_length ty = 0" by (simp add: min_length_def)
    moreover have "Bytes2Args env ty b \<noteq> Panic s" for s
      using 6 by (simp add: Bytes2Args_def decoded_total split: option.splits)
    ultimately show ?thesis by simp
  qed (simp_all add: Bytes2Args_tags min_length_def read_as_total BytesToInt32_def BytesToInt64_def
      BytesToFloat32_def BytesToFloat64_def Uint32_be_total Uint64_be_total Uint_le_total BytesToBool_total,
      simp_all add: tag_defs)
qed

text \<open>What the receiver of an argument sees: a trace arrives with a span of its own, a
  \<open>map[string]interface{}\<close> as JSON gives it back (\<open>norm\<close>: all numbers are floats then).\<close>

definition received :: "('j \<Rightarrow> 'j) \<Rightarrow> ('j, 'o) arg_env \<Rightarrow> bytes \<Rightarrow> ('j, 'o) rarg \<Rightarrow> ('j, 'o) rarg" where
  "received norm env b a =
     (case a of
        RMap m \<Rightarrow> RMap (norm m)
      | RTrace t \<Rightarrow> RTracePtr (ExtractSpan_trace (new_span env) t)
      | RTracePtr t \<Rightarrow> RTracePtr (ExtractSpan_trace (new_span env) t)
      | ROther v \<Rightarrow> if is_nil env v then RNil else RBytes b
      | v \<Rightarrow> v)"

lemma Bytes2Args_roundtrip:
  assumes "\<forall>m j. json_map env m = Inr j \<longrightarrow> unjson_map env j = Inr (norm m)"
    and "\<forall>m j. json_mapstr env m = Inr j \<longrightarrow> unjson_mapstr env j = Inr m"
    and "\<forall>t j. json_trace env t = Inr j \<longrightarrow> unjson_trace env j = Inr t"
    and "ArgsTypeAnd2Bytes env a = (ty, b, None)"
    and "\<forall>v. a = ROther v \<longrightarrow> first_serialize (serializes env) v = None"
  shows "Bytes2Args env ty b = Ret (Inr (received norm env b a))"
proof (cases a)
  case (ROther v)
  with assms(4,5) consider "is_nil env v" "ty = NULL" | t where "\<not> is_nil env v" "ty = Proto_tag @ t"
    | t where "\<not> is_nil env v" "ty = Marshal_tag @ t"
    by (auto simp: ArgsTypeAnd2Bytes_def other_to_bytes_def split: if_splits option.splits sum.splits)
  then show ?thesis using ROther by cases (simp_all add: Bytes2Args_tags received_def)
qed (use assms(1-4) Uint32_be_Put[of _ "[]"] Uint64_be_Put[of _ "[]"] in
    \<open>auto simp: ArgsTypeAnd2Bytes_def tagged_def Bytes2Args_tags received_def read_as_def decoded_def
      BoolToBytes_def BytesToBool_def Int32ToBytes_def BytesToInt32_def Int64ToBytes_def BytesToInt64_def
      Float32ToBytes_def BytesToFloat32_def Float64ToBytes_def BytesToFloat64_def split: sum.splits\<close>)

section \<open>Properties\<close>

text \<open>C33: A value decoded from the wire has the dynamic type its tag names, whatever the bytes are;
  decoding always ends, and it panics exactly when the tag is that of a fixed-width value and
  there are fewer bytes than its width (one for a bool, four or eight for a number).\<close>

theorem decoded_values_are_typed:
  "((\<exists>s. Bytes2Args env ty b = Panic s) = (length b < min_length ty)) \<and> Bytes2Args env ty b \<noteq> Hang \<and>
   (\<forall>v. Bytes2Args env ty b = Ret (Inr v) \<longrightarrow> tag_type ty v)"
  using Bytes2Args_panic Bytes2Args_ends Bytes2Args_type by blast

definition plain_env :: "(unit, unit) arg_env" where
  "plain_env = \<lparr>json_map = (\<lambda>_. Inr [123, 125]), unjson_map = (\<lambda>_. Inr ()), json_mapstr = (\<lambda>_. Inl EOF),
     unjson_mapstr = (\<lambda>_. Inl EOF), json_trace = (\<lambda>_. Inl EOF), unjson_trace = (\<lambda>_. Inl EOF),
     new_span = ''p'', serializes = [], is_pointer = (\<lambda>_. False), is_nil = (\<lambda>_. False), as_proto = (\<lambda>_. None),
     as_marshaler = (\<lambda>_. None), type_name = (\<lambda>_. ''main.T'')\<rparr>"

theorem decoded_values_are_typed_witness:
  "Bytes2Args plain_env INT_tag [0, 0, 1, 2] = Ret (Inr (RInt32 258)) \<and> tag_type INT_tag (RInt32 258 :: (unit, unit) rarg) \<and>
   (\<exists>s. Bytes2Args plain_env INT_tag [1, 2] = Panic s)"
proof -
  have "Bytes2Args plain_env INT_tag [0, 0, 1, 2] = Ret (Inr (RInt32 258))"
    by (simp add: Bytes2Args_tags BytesToInt32_def read_as_def)
  then show ?thesis
    using decoded_values_are_typed[of plain_env INT_tag "[0, 0, 1, 2]"]
      decoded_values_are_typed[of plain_env INT_tag "[1, 2]"]
    by (simp add: min_length_def tag_defs)
qed

text \<open>An argument that was encoded is decoded to the same value, bit for bit for numbers, and for
  maps up to JSON's normal form, given that JSON decodes what it encoded; a trace arrives with the same trace id and a new span, a nil
  pointer as nil, and a protobuf message or Marshaler that no registered serializer takes as its
  encoded bytes, which the called function then decodes.\<close>

theorem rpc_argument_roundtrip:
  assumes "\<forall>m j. json_map env m = Inr j \<longrightarrow> unjson_map env j = Inr (norm m)"
    and "\<forall>m j. json_mapstr env m = Inr j \<longrightarrow> unjson_mapstr env j = Inr m"
    and "\<forall>t j. json_trace env t = Inr j \<longrightarrow> unjson_trace env j = Inr t"
    and "ArgsTypeAnd2Bytes env a = (ty, b, None)"
    and "\<forall>v. a = ROther v \<longrightarrow> first_serialize (serializes env) v = None"
  shows "Bytes2Args env ty b = Ret (Inr (received norm env b a))"
  using assms by (rule Bytes2Args_roundtrip)

theorem rpc_argument_roundtrip_witness:
  "Bytes2Args plain_env INT_tag (Int32ToBytes (- 2)) = Ret (Inr (RInt32 (- 2)))"
proof -
  have "Bytes2Args plain_env INT_tag (Int32ToBytes (- 2)) =
      Ret (Inr (received id plain_env (Int32ToBytes (- 2)) (RInt32 (- 2))))"
    by (rule rpc_argument_roundtrip) (simp_all add: plain_env_def ArgsTypeAnd2Bytes_def)
  then show ?thesis by (simp add: received_def)
qed

end
