(* ===== verification/Nats_Client.thy ===== *)
theory Nats_Client
  imports Rpc_Args "HOL-Library.AList"
begin

text \<open>
  The caller's end of remote calls (\<^verbatim>\<open>src/rpc/base/nats_client.go\<close>, \<^verbatim>\<open>src/rpc/base/rpc_client.go\<close>,
  \<^verbatim>\<open>src/rpc/base/options.go\<close>, \<^verbatim>\<open>src/utils/safemap.go\<close>): the table of calls that wait for an answer,
  the goroutine that receives answers and hands each to the channel of its call, closing, and
  what \<open>CallArgs\<close> makes of the channel. NATS and protobuf are arguments. Channels have an
  identity (the number of the call) and are kept in the state, so that sends and closes of one
  channel by different goroutines can be followed.
\<close>

section \<open>The map with a lock\<close>

text \<open>An association list; \<open>Items\<close> gives a copy, whose order is any order.\<close>

type_synonym ('k, 'v) bee_map = "('k \<times> 'v) list"

definition NewBeeMap :: "('k, 'v) bee_map" where
  "NewBeeMap = []"

definition Bee_Get :: "'k \<Rightarrow> ('k, 'v) bee_map \<Rightarrow> 'v option" where
  "Bee_Get k m = map_of m k"

definition Bee_Set :: "'k \<Rightarrow> 'v \<Rightarrow> ('k, 'v) bee_map \<Rightarrow> bool \<times> ('k, 'v) bee_map" where
  "Bee_Set k v m =
     (case map_of m k of
        None \<Rightarrow> (True, AList.update k v m)
      | Some val \<Rightarrow> if val \<noteq> v then (True, AList.update k v m) else (False, m))"

definition Bee_Check :: "'k \<Rightarrow> ('k, 'v) bee_map \<Rightarrow> bool" where
  "Bee_Check k m = (map_of m k \<noteq> None)"

definition Bee_Delete :: "'k \<Rightarrow> ('k, 'v) bee_map \<Rightarrow> ('k, 'v) bee_map" where
  "Bee_Delete k m = AList.delete k m"

definition Bee_DeleteAll :: "('k, 'v) bee_map \<Rightarrow> ('k, 'v) bee_map" where
  "Bee_DeleteAll m = fold (\<lambda>(k, v). AList.delete k) m m"

definition Bee_Items :: "('k, 'v) bee_map \<Rightarrow> ('k \<times> 'v) list" where
  "Bee_Items m = m"

lemma Bee_Set_map: "map_of (snd (Bee_Set k v m)) = (map_of m)(k \<mapsto> v)"
  by (auto simp: Bee_Set_def update_conv' split: option.splits)

lemma Bee_Set_distinct: "distinct (map fst m) \<Longrightarrow> distinct (map fst (snd (Bee_Set k v m)))"
  by (auto simp: Bee_Set_def distinct_update split: option.splits)

lemma Bee_Delete_map: "map_of (Bee_Delete k m) = (map_of m)(k := None)"
  by (simp add: Bee_Delete_def delete_conv')

lemma Bee_Delete_distinct: "distinct (map fst m) \<Longrightarrow> distinct (map fst (Bee_Delete k m))"
  by (simp add: Bee_Delete_def distinct_delete)

lemma delete_keys: "fold (\<lambda>(k, v). AList.delete k) xs m = filter (\<lambda>kv. fst kv \<notin> fst ` set xs) m"
proof (induction xs arbitrary: m)
  case (Cons x xs)
  have "filter (\<lambda>kv. fst kv \<notin> fst ` set xs) (AList.delete (fst x) m) = filter (\<lambda>kv. fst kv \<notin> fst ` set (x # xs)) m"
    by (induction m) (auto simp: AList.delete_eq split_def)
  with Cons.IH show ?case by (simp add: split_def)
qed simp

lemma Bee_DeleteAll_empty: "Bee_DeleteAll m = []"
  by (simp add: Bee_DeleteAll_def delete_keys filter_empty_conv)

section \<open>The client\<close>

record rpc_info =
  Cid :: string
  Fn :: string
  ReplyTo :: string
  Expired :: int
  Reply :: bool
  ArgsType :: "string list"
  Args :: "bytes list"
  Caller :: string
  Hostname :: string

record result_info =
  r_Cid :: string
  r_Error :: string
  r_ResultType :: string
  r_Result :: bytes

record ClinetCallInfo =
  correlation_id :: string
  timeout :: int
  call :: "nat option"

text \<open>A channel of capacity one.\<close>

record chan =
  ch_buf :: "result_info option"
  ch_closed :: bool

definition new_chan :: chan where
  "new_chan = \<lparr>ch_buf = None, ch_closed = False\<rparr>"

text \<open>\<open>recovered\<close> counts the panics \<open>CloseFch\<close> has recovered from.\<close>

record nats_client =
  callinfos :: "(string, ClinetCallInfo) bee_map"
  callbackqueueName :: string
  isClose :: bool
  stopped :: bool
  chans :: "nat \<Rightarrow> chan"
  recovered :: nat

definition NewNatsClient :: "string \<Rightarrow> nats_client" where
  "NewNatsClient inbox = \<lparr>callinfos = NewBeeMap, callbackqueueName = inbox, isClose = False, stopped = False,
     chans = (\<lambda>_. new_chan), recovered = 0\<rparr>"

definition nats_Delete :: "string \<Rightarrow> nats_client \<Rightarrow> nats_client" where
  "nats_Delete key c = c\<lparr>callinfos := Bee_Delete key (callinfos c)\<rparr>"

definition nats_CloseFch :: "nat \<Rightarrow> nats_client \<Rightarrow> nats_client" where
  "nats_CloseFch fch c =
     (if ch_closed (chans c fch) then c\<lparr>recovered := recovered c + 1\<rparr>
      else c\<lparr>chans := (chans c)(fch := (chans c fch)\<lparr>ch_closed := True\<rparr>)\<rparr>)"

definition nats_stop :: "nats_client \<Rightarrow> nats_client" where
  "nats_stop c = (if isClose c then c else c\<lparr>isClose := True\<rparr>)"

text \<open>
  The part of \<open>finish\<close> under the lock: every channel still in the table is closed. Closing a nil
  channel panics like closing one twice, and is recovered.
\<close>

definition close_item :: "string \<times> ClinetCallInfo \<Rightarrow> nats_client \<Rightarrow> nats_client" where
  "close_item kx c =
     nats_Delete (fst kx)
       (case call (snd kx) of
          Some ch \<Rightarrow> nats_CloseFch ch c
        | None \<Rightarrow> c\<lparr>recovered := recovered c + 1\<rparr>)"

definition nats_drain :: "nats_client \<Rightarrow> nats_client" where
  "nats_drain c = fold close_item (Bee_Items (callinfos c)) c"

definition nats_finish :: "nats_client \<Rightarrow> nats_client" where
  "nats_finish c = (nats_drain c)\<lparr>stopped := True\<rparr>"

definition nats_Call ::
    "(rpc_info \<Rightarrow> go_error + bytes) \<Rightarrow> (bytes \<Rightarrow> go_error option) \<Rightarrow> rpc_info \<Rightarrow> nat option \<Rightarrow> nats_client
      \<Rightarrow> go_error option \<times> nats_client" where
  "nats_Call marshal publish info callback c =
     (if isClose c then (Some (Errorf ''NatsClient is closed'' []), c)
      else (let info = info\<lparr>ReplyTo := callbackqueueName c\<rparr>
            in case marshal info of
                 Inl err \<Rightarrow> (Some err, c)
               | Inr body \<Rightarrow>
                   let correlationID = Cid info;
                       c = c\<lparr>callinfos := snd (Bee_Set correlationID
                           \<lparr>correlation_id = correlationID, timeout = Expired info, call = callback\<rparr> (callinfos c))\<rparr>
                   in case publish body of
                        None \<Rightarrow> (None, c)
                      | Some err \<Rightarrow> (Some err, c\<lparr>callinfos := Bee_Delete correlationID (callinfos c)\<rparr>)))"

definition nats_CallNR ::
    "(rpc_info \<Rightarrow> go_error + bytes) \<Rightarrow> (bytes \<Rightarrow> go_error option) \<Rightarrow> rpc_info \<Rightarrow> nats_client \<Rightarrow> go_error option" where
  "nats_CallNR marshal publish info c =
     (if isClose c then Some (Errorf ''NatsClient is closed'' [])
      else case marshal info of Inl err \<Rightarrow> Some err | Inr body \<Rightarrow> publish body)"

section \<open>Receiving answers\<close>

definition ErrTimeout :: go_error where
  "ErrTimeout = Errorf ''nats: timeout'' []"

datatype after_error = Leave | Again | Back_off

text \<open>
  What the receiver does when \<open>NextMsg\<close> fails: it leaves when the client or the transport is
  closed, renews an invalid subscription, and waits a moment unless it was only a time-out or the
  renewal succeeded. \<open>resubscribe\<close> is the outcome of a renewal.
\<close>

definition receive_error :: "go_error \<Rightarrow> bool \<Rightarrow> bool \<Rightarrow> go_error option \<Rightarrow> nats_client \<Rightarrow> after_error" where
  "receive_error err transportClosed subValid resubscribe c =
     (if isClose c then Leave
      else if transportClosed then Leave
      else (let err = (if subValid then Some err else resubscribe)
            in if err \<noteq> None \<and> err \<noteq> Some ErrTimeout then Back_off else Again))"

text \<open>The critical section that looks an answer up and takes the call out of the table.\<close>

definition take_call :: "result_info \<Rightarrow> nats_client \<Rightarrow> ClinetCallInfo option \<times> nats_client" where
  "take_call res c = (Bee_Get (r_Cid res) (callinfos c), c\<lparr>callinfos := Bee_Delete (r_Cid res) (callinfos c)\<rparr>)"

text \<open>\<open>callback <- resultInfo\<close> when there is room.\<close>

definition send_result :: "nat \<Rightarrow> result_info \<Rightarrow> nats_client \<Rightarrow> nats_client" where
  "send_result ch res c = c\<lparr>chans := (chans c)(ch := (chans c ch)\<lparr>ch_buf := Some res\<rparr>)\<rparr>"

section \<open>The call as its caller sees it\<close>

definition CallArgs_info ::
    "string \<Rightarrow> string list \<Rightarrow> bytes list \<Rightarrow> string \<Rightarrow> string \<Rightarrow> int \<Rightarrow> int \<Rightarrow> bool \<Rightarrow> rpc_info" where
  "CallArgs_info fn argsType args cid caller start expired rep =
     \<lparr>Cid = cid, Fn = fn, ReplyTo = [], Expired = (start + expired) div 1000000, Reply = rep,
      ArgsType = argsType, Args = args, Caller = caller, Hostname = caller\<rparr>"

text \<open>What \<open>CallArgs\<close> returns for what it received from the channel (\<open>None\<close>: closed and empty).\<close>

definition CallArgs_result ::
    "('j, 'o) arg_env \<Rightarrow> result_info option \<Rightarrow> (go_error + ('j, 'o) rarg) outcome" where
  "CallArgs_result env msg =
     (case msg of
        None \<Rightarrow> Ret (Inl (Errorf ''client closed'' []))
      | Some res \<Rightarrow>
          if r_Error res \<noteq> [] then Ret (Inl (Errorf (r_Error res) []))
          else Bytes2Args env (r_ResultType res) (r_Result res))"

text \<open>\<open>Call\<close> and \<open>CallNR\<close> encode their parameters one by one and stop at the first error.\<close>

fun encode_params ::
    "('j, 'o) arg_env \<Rightarrow> nat \<Rightarrow> ('j, 'o) rarg list \<Rightarrow> go_error + (string list \<times> bytes list)" where
  "encode_params env k [] = Inr ([], [])"
| "encode_params env k (p # ps) =
     (case ArgsTypeAnd2Bytes env p of
        (_, _, Some err) \<Rightarrow> Inl (Errorf ''args[%d] error %s'' [AI (int k), AS (error_text err)])
      | (ty, b, None) \<Rightarrow>
          (case encode_params env (k + 1) ps of
             Inl e \<Rightarrow> Inl e
           | Inr (tys, bs) \<Rightarrow> Inr (ty # tys, b # bs)))"

section \<open>Callers and the receiver, interleaved\<close>

datatype call_end = Got result_info | Client_closed | Deadline | Call_error go_error

datatype call_status = Not_called | Waiting | Giving_up | Returned call_end

datatype receiver = Listening | Holding nat result_info | Closing nat | Leaving | Draining | Finished

record rpc_system =
  cl :: nats_client
  calls :: "nat \<Rightarrow> call_status"
  recv :: receiver

text \<open>
  \<open>cid i\<close> is the correlation id of call number \<open>i\<close>. A message may carry any answer at all, also one
  for no call or for one that was answered before.
\<close>

inductive rpc_step :: "(nat \<Rightarrow> string) \<Rightarrow> rpc_system \<Rightarrow> rpc_system \<Rightarrow> bool" for cid where
  called: "calls s i = Not_called \<Longrightarrow> Cid info = cid i \<Longrightarrow> nats_Call marshal publish info (Some i) (cl s) = (err, c) \<Longrightarrow>
    rpc_step cid s (s\<lparr>cl := c, calls := (calls s)(i := (case err of None \<Rightarrow> Waiting | Some e \<Rightarrow> Returned (Call_error e)))\<rparr>)"
| got: "calls s i = Waiting \<Longrightarrow> ch_buf (chans (cl s) i) = Some res \<Longrightarrow>
    rpc_step cid s (s\<lparr>cl := (cl s)\<lparr>chans := (chans (cl s))(i := (chans (cl s) i)\<lparr>ch_buf := None\<rparr>)\<rparr>,
      calls := (calls s)(i := Returned (Got res))\<rparr>)"
| got_closed: "calls s i = Waiting \<Longrightarrow> ch_buf (chans (cl s) i) = None \<Longrightarrow> ch_closed (chans (cl s) i) \<Longrightarrow>
    rpc_step cid s (s\<lparr>calls := (calls s)(i := Returned Client_closed)\<rparr>)"
| expired: "calls s i = Waiting \<Longrightarrow> rpc_step cid s (s\<lparr>calls := (calls s)(i := Giving_up)\<rparr>)"
| forgot: "calls s i = Giving_up \<Longrightarrow>
    rpc_step cid s (s\<lparr>cl := nats_Delete (cid i) (cl s), calls := (calls s)(i := Returned Deadline)\<rparr>)"
| unknown: "recv s = Listening \<Longrightarrow> take_call res (cl s) = (None, c) \<Longrightarrow> rpc_step cid s (s\<lparr>cl := c\<rparr>)"
| answered: "recv s = Listening \<Longrightarrow> take_call res (cl s) = (Some info, c) \<Longrightarrow> call info = Some ch \<Longrightarrow>
    rpc_step cid s (s\<lparr>cl := c, recv := Holding ch res\<rparr>)"
| sent: "recv s = Holding ch res \<Longrightarrow> ch_buf (chans (cl s) ch) = None \<Longrightarrow>
    rpc_step cid s (s\<lparr>cl := send_result ch res (cl s), recv := Closing ch\<rparr>)"
| dropped: "recv s = Holding ch res \<Longrightarrow> isClose (cl s) \<Longrightarrow> rpc_step cid s (s\<lparr>recv := Closing ch\<rparr>)"
| closed: "recv s = Closing ch \<Longrightarrow> rpc_step cid s (s\<lparr>cl := nats_CloseFch ch (cl s), recv := Listening\<rparr>)"
| done_seen: "recv s = Listening \<Longrightarrow> isClose (cl s) \<Longrightarrow> rpc_step cid s (s\<lparr>recv := Leaving\<rparr>)"
| failed: "recv s = Listening \<Longrightarrow> receive_error err transportClosed subValid resubscribe (cl s) = Leave \<Longrightarrow>
    rpc_step cid s (s\<lparr>recv := Leaving\<rparr>)"
| stop: "rpc_step cid s (s\<lparr>cl := nats_stop (cl s)\<rparr>)"
| left: "recv s = Leaving \<Longrightarrow> rpc_step cid s (s\<lparr>cl := nats_stop (cl s), recv := Draining\<rparr>)"
| finished: "recv s = Draining \<Longrightarrow> rpc_step cid s (s\<lparr>cl := nats_finish (cl s), recv := Finished\<rparr>)"

definition rpc_init :: "rpc_system \<Rightarrow> bool" where
  "rpc_init s \<longleftrightarrow> (\<exists>inbox. s = \<lparr>cl = NewNatsClient inbox, calls = (\<lambda>_. Not_called), recv = Listening\<rparr>)"

section \<open>The invariant\<close>

text \<open>
  \<open>slot_ok\<close> is about one call: its entry in the table, the receiver, its channel and its status.
  While the entry is there the channel is untouched; the receiver that took it out is the only
  one to send to it and to close it; and a caller that waits has its channel in the table, with
  the receiver, or closed.
\<close>

definition owns :: "receiver \<Rightarrow> nat \<Rightarrow> bool" where
  "owns r i \<longleftrightarrow> (\<exists>res. r = Holding i res) \<or> r = Closing i"

definition slot_ok ::
    "string \<Rightarrow> nat \<Rightarrow> ClinetCallInfo option \<Rightarrow> receiver \<Rightarrow> chan \<Rightarrow> call_status \<Rightarrow> bool" where
  "slot_ok k i entry r ch st \<longleftrightarrow>
     (\<forall>x. entry = Some x \<longrightarrow> call x = Some i \<and> ch = new_chan \<and> (st = Waiting \<or> st = Giving_up) \<and> \<not> owns r i) \<and>
     (\<forall>res. r = Holding i res \<longrightarrow> r_Cid res = k \<and> ch = new_chan \<and> st \<noteq> Not_called) \<and>
     (r = Closing i \<longrightarrow> \<not> ch_closed ch \<and> st \<noteq> Not_called) \<and>
     (\<forall>res. ch_buf ch = Some res \<longrightarrow> r_Cid res = k) \<and>
     (\<forall>res. st = Returned (Got res) \<longrightarrow> r_Cid res = k) \<and>
     (st = Not_called \<longrightarrow> ch = new_chan \<and> entry = None) \<and>
     (st = Waiting \<longrightarrow> entry \<noteq> None \<or> owns r i \<or> ch_closed ch)"

definition client_ok :: "(nat \<Rightarrow> string) \<Rightarrow> nats_client \<Rightarrow> receiver \<Rightarrow> bool" where
  "client_ok cid c r \<longleftrightarrow>
     recovered c = 0 \<and> distinct (map fst (callinfos c)) \<and> fst ` set (callinfos c) \<subseteq> range cid \<and>
     (r = Draining \<or> r = Finished \<longrightarrow> isClose c) \<and> (r = Finished \<longrightarrow> callinfos c = [])"

definition rpc_inv :: "(nat \<Rightarrow> string) \<Rightarrow> rpc_system \<Rightarrow> bool" where
  "rpc_inv cid s \<longleftrightarrow> client_ok cid (cl s) (recv s) \<and>
     (\<forall>i. slot_ok (cid i) i (map_of (callinfos (cl s)) (cid i)) (recv s) (chans (cl s) i) (calls s i))"

lemma rpc_invI:
  assumes "client_ok cid c r"
    and "\<And>i. slot_ok (cid i) i (map_of (callinfos c) (cid i)) r (chans c i) (st i)"
  shows "rpc_inv cid \<lparr>cl = c, calls = st, recv = r\<rparr>"
  using assms by (simp add: rpc_inv_def)

lemma rpc_invD:
  assumes "rpc_inv cid s"
  shows "client_ok cid (cl s) (recv s)"
    and "slot_ok (cid i) i (map_of (callinfos (cl s)) (cid i)) (recv s) (chans (cl s) i) (calls s i)"
  using assms by (simp_all add: rpc_inv_def)

lemma client_ok_stop: "client_ok cid c r \<Longrightarrow> client_ok cid (nats_stop c) r"
  by (auto simp: client_ok_def nats_stop_def)

lemma client_ok_Delete: "client_ok cid c r \<Longrightarrow> client_ok cid (c\<lparr>callinfos := Bee_Delete k (callinfos c)\<rparr>) r"
  by (auto simp: client_ok_def Bee_Delete_distinct) (auto simp: Bee_Delete_def AList.delete_eq)

text \<open>A call: its outcome, its entry, and nothing else.\<close>

lemma nats_Call_cases:
  assumes "nats_Call marshal publish info cb c = (err, c')"
  obtains (refused) e where "err = Some e" "c' = c"
  | (unpublished) e x where "err = Some e" "\<not> isClose c"
      "c' = c\<lparr>callinfos := Bee_Delete (Cid info) (snd (Bee_Set (Cid info) x (callinfos c)))\<rparr>"
  | (waiting) x where "err = None" "\<not> isClose c" "call x = cb"
      "c' = c\<lparr>callinfos := snd (Bee_Set (Cid info) x (callinfos c))\<rparr>"
proof (cases "isClose c")
  case True
  with assms refused show ?thesis by (auto simp: nats_Call_def)
next
  case False
  let ?info = "info\<lparr>ReplyTo := callbackqueueName c\<rparr>"
  show ?thesis
  proof (cases "marshal ?info")
    case (Inl e)
    with False assms refused show ?thesis by (auto simp: nats_Call_def Let_def)
  next
    case (Inr body)
    show ?thesis
    proof (cases "publish body")
      case None
      with False Inr assms show ?thesis by (intro waiting) (auto simp: nats_Call_def Let_def)
    next
      case (Some e)
      with False Inr assms show ?thesis
        by (intro unpublished[of e]) (auto simp: nats_Call_def Let_def)
    qed
  qed
qed

lemma nats_Call_ok:
  assumes "nats_Call marshal publish info (Some i) c = (err, c')" "Cid info = cid i" "client_ok cid c r"
    "map_of (callinfos c) (cid i) = None"
  shows "client_ok cid c' r \<and> chans c' = chans c \<and>
    (map_of (callinfos c') = (if err = None then (map_of (callinfos c))(cid i := map_of (callinfos c') (cid i)) else map_of (callinfos c))) \<and>
    (err = None \<longrightarrow> (\<exists>x. map_of (callinfos c') (cid i) = Some x \<and> call x = Some i))"
  using assms(1)
proof (cases rule: nats_Call_cases)
  case (refused e)
  with assms show ?thesis by simp
next
  case (unpublished e x)
  have set: "fst ` set (snd (Bee_Set (cid i) x (callinfos c))) \<subseteq> range cid"
    using assms(3) by (auto simp: client_ok_def Bee_Set_def dom_update split: option.splits if_splits)
  have "fst ` set (callinfos c') \<subseteq> range cid"
    using set unpublished(3) assms(2) by (auto simp: Bee_Delete_def AList.delete_eq)
  with unpublished assms show ?thesis
    by (auto simp: client_ok_def Bee_Delete_distinct Bee_Set_distinct Bee_Delete_map Bee_Set_map fun_eq_iff)
next
  case (waiting x)
  have "fst ` set (callinfos c') \<subseteq> range cid"
    using assms(2,3) waiting(4) by (auto simp: client_ok_def Bee_Set_def dom_update split: option.splits if_splits)
  with waiting assms show ?thesis
    by (auto simp: client_ok_def Bee_Set_distinct Bee_Set_map fun_eq_iff)
qed

lemma rpc_inv_called:
  assumes "rpc_inv cid s" "inj cid" "calls s i = Not_called" "Cid info = cid i"
    "nats_Call marshal publish info (Some i) (cl s) = (err, c)"
  shows "rpc_inv cid (s\<lparr>cl := c, calls := (calls s)(i := (case err of None \<Rightarrow> Waiting | Some e \<Rightarrow> Returned (Call_error e)))\<rparr>)"
proof -
  note inv = rpc_invD[OF assms(1)]
  have none: "map_of (callinfos (cl s)) (cid i) = None" "chans (cl s) i = new_chan" "\<not> owns (recv s) i"
    using inv(2)[of i] assms(3) by (auto simp: slot_ok_def owns_def)
  have other: "j \<noteq> i \<Longrightarrow> cid j \<noteq> cid i" for j using assms(2) by (auto dest: injD)
  have ok: "client_ok cid c (recv s)"
    and entry: "map_of (callinfos c) = (if err = None then (map_of (callinfos (cl s)))(cid i := map_of (callinfos c) (cid i)) else map_of (callinfos (cl s)))"
    and mine: "err = None \<Longrightarrow> \<exists>x. map_of (callinfos c) (cid i) = Some x \<and> call x = Some i"
    and chans: "chans c = chans (cl s)"
    using nats_Call_ok[OF assms(5,4) inv(1) none(1)] by auto
  have "slot_ok (cid j) j (map_of (callinfos c) (cid j)) (recv s) (chans (cl s) j)
      (((calls s)(i := (case err of None \<Rightarrow> Waiting | Some e \<Rightarrow> Returned (Call_error e)))) j)" for j
  proof (cases "j = i")
    case True
    show ?thesis
    proof (cases err)
      case None
      from mine[OF this] obtain x where "map_of (callinfos c) (cid i) = Some x" "call x = Some i" by blast
      with None True none show ?thesis by (simp add: slot_ok_def owns_def new_chan_def)
    next
      case (Some e)
      with True none entry show ?thesis by (simp add: slot_ok_def owns_def new_chan_def)
    qed
  next
    case False
    then have "map_of (callinfos c) (cid j) = map_of (callinfos (cl s)) (cid j)"
      using entry other by (metis fun_upd_other)
    with False inv(2)[of j] show ?thesis by simp
  qed
  with ok chans show ?thesis by (simp add: rpc_inv_def)
qed

lemma slot_ok_simps: "ch_buf new_chan = None" "\<not> ch_closed new_chan"
  by (simp_all add: new_chan_def)

text \<open>Steps of a caller on its own channel and of the receiver on the channel it holds.\<close>

lemma slot_okD:
  assumes "slot_ok k i e r ch st"
  shows "e = Some x \<Longrightarrow> call x = Some i \<and> ch = new_chan \<and> (st = Waiting \<or> st = Giving_up) \<and> \<not> owns r i"
    and "r = Holding i res \<Longrightarrow> r_Cid res = k \<and> ch = new_chan \<and> st \<noteq> Not_called"
    and "r = Closing i \<Longrightarrow> \<not> ch_closed ch \<and> st \<noteq> Not_called"
    and "ch_buf ch = Some res \<Longrightarrow> r_Cid res = k"
    and "st = Returned (Got res) \<Longrightarrow> r_Cid res = k"
    and "st = Not_called \<Longrightarrow> ch = new_chan \<and> e = None"
    and "st = Waiting \<Longrightarrow> e \<noteq> None \<or> owns r i \<or> ch_closed ch"
  using assms unfolding slot_ok_def by blast+

lemma slot_okI:
  assumes "\<And>x. e = Some x \<Longrightarrow> call x = Some i \<and> ch = new_chan \<and> (st = Waiting \<or> st = Giving_up) \<and> \<not> owns r i"
    and "\<And>res. r = Holding i res \<Longrightarrow> r_Cid res = k \<and> ch = new_chan \<and> st \<noteq> Not_called"
    and "r = Closing i \<Longrightarrow> \<not> ch_closed ch \<and> st \<noteq> Not_called"
    and "\<And>res. ch_buf ch = Some res \<Longrightarrow> r_Cid res = k"
    and "\<And>res. st = Returned (Got res) \<Longrightarrow> r_Cid res = k"
    and "st = Not_called \<Longrightarrow> ch = new_chan \<and> e = None"
    and "st = Waiting \<Longrightarrow> e \<noteq> None \<or> owns r i \<or> ch_closed ch"
  shows "slot_ok k i e r ch st"
  using assms unfolding slot_ok_def by blast

lemma slot_got:
  assumes "slot_ok k i e r ch Waiting" "ch_buf ch = Some res"
  shows "slot_ok k i e r (ch\<lparr>ch_buf := None\<rparr>) (Returned (Got res))"
proof -
  have used: "ch \<noteq> new_chan" using assms(2) by (auto simp: slot_ok_simps)
  have "e = None" using slot_okD(1)[OF assms(1)] used by (cases e) blast+
  moreover have "\<nexists>res. r = Holding i res" using slot_okD(2)[OF assms(1)] used by blast
  moreover have "r = Closing i \<Longrightarrow> \<not> ch_closed ch" using slot_okD(3)[OF assms(1)] by blast
  moreover have "r_Cid res = k" by (rule slot_okD(4)[OF assms])
  ultimately show ?thesis by (intro slot_okI) auto
qed

lemma slot_giving_up: "slot_ok k i e r ch Waiting \<Longrightarrow> slot_ok k i e r ch Giving_up"
  unfolding slot_ok_def by blast

lemma slot_closed:
  assumes "slot_ok k i e r ch Waiting" "ch_closed ch"
  shows "slot_ok k i e r ch (Returned Client_closed)"
proof -
  have used: "ch \<noteq> new_chan" using assms(2) by (auto simp: slot_ok_simps)
  have "e = None" using slot_okD(1)[OF assms(1)] used by (cases e) blast+
  moreover have "\<nexists>res. r = Holding i res" using slot_okD(2)[OF assms(1)] used by blast
  moreover have "r \<noteq> Closing i" using slot_okD(3)[OF assms(1)] assms(2) by blast
  moreover have "ch_buf ch = Some res \<Longrightarrow> r_Cid res = k" for res by (rule slot_okD(4)[OF assms(1)])
  ultimately show ?thesis by (intro slot_okI) auto
qed

lemma slot_forgot: "slot_ok k i e r ch Giving_up \<Longrightarrow> slot_ok k i None r ch (Returned Deadline)"
  unfolding slot_ok_def by blast

lemma rpc_inv_got:
  assumes "rpc_inv cid s" "calls s i = Waiting" "ch_buf (chans (cl s) i) = Some res"
  shows "rpc_inv cid (s\<lparr>cl := (cl s)\<lparr>chans := (chans (cl s))(i := (chans (cl s) i)\<lparr>ch_buf := None\<rparr>)\<rparr>,
      calls := (calls s)(i := Returned (Got res))\<rparr>)"
proof -
  note inv = rpc_invD[OF assms(1)]
  have "slot_ok (cid j) j (map_of (callinfos (cl s)) (cid j)) (recv s)
      (((chans (cl s))(i := (chans (cl s) i)\<lparr>ch_buf := None\<rparr>)) j) (((calls s)(i := Returned (Got res))) j)" for j
    using inv(2)[of j] slot_got[of "cid i" i _ _ "chans (cl s) i" res] assms(2,3) by (cases "j = i") simp_all
  with inv(1) show ?thesis by (simp add: rpc_inv_def client_ok_def)
qed

lemma rpc_inv_status:
  assumes "rpc_inv cid s" "calls s i = Waiting \<and> (st = Giving_up \<or> st = Returned Client_closed \<and> ch_closed (chans (cl s) i))"
  shows "rpc_inv cid (s\<lparr>calls := (calls s)(i := st)\<rparr>)"
proof -
  note inv = rpc_invD[OF assms(1)]
  have "slot_ok (cid j) j (map_of (callinfos (cl s)) (cid j)) (recv s) (chans (cl s) j) (((calls s)(i := st)) j)" for j
    using inv(2)[of j] slot_giving_up[of "cid i" i _ _ "chans (cl s) i"] slot_closed[of "cid i" i _ _ "chans (cl s) i"] assms(2)
    by (cases "j = i") auto
  with inv(1) show ?thesis by (simp add: rpc_inv_def)
qed

lemma rpc_inv_forgot:
  assumes "rpc_inv cid s" "inj cid" "calls s i = Giving_up"
  shows "rpc_inv cid (s\<lparr>cl := nats_Delete (cid i) (cl s), calls := (calls s)(i := Returned Deadline)\<rparr>)"
proof -
  note inv = rpc_invD[OF assms(1)]
  have "slot_ok (cid j) j (((map_of (callinfos (cl s)))(cid i := None)) (cid j)) (recv s) (chans (cl s) j)
      (((calls s)(i := Returned Deadline)) j)" for j
    using inv(2)[of j] slot_forgot[of "cid i" i] assms(2,3) by (cases "j = i") (auto dest: injD)
  moreover have "client_ok cid (nats_Delete (cid i) (cl s)) (recv s)"
    unfolding nats_Delete_def by (rule client_ok_Delete[OF inv(1)])
  ultimately show ?thesis by (simp add: rpc_inv_def nats_Delete_def Bee_Delete_map del: fun_upd_apply)
qed

lemma rpc_inv_taken:
  assumes "rpc_inv cid s" "inj cid" "recv s = Listening" "take_call res (cl s) = (found, c)"
    "found = None \<and> r = Listening \<or> (\<exists>info ch. found = Some info \<and> call info = Some ch \<and> r = Holding ch res)"
  shows "rpc_inv cid (s\<lparr>cl := c, recv := r\<rparr>)"
proof -
  note inv = rpc_invD[OF assms(1)]
  have c: "c = (cl s)\<lparr>callinfos := Bee_Delete (r_Cid res) (callinfos (cl s))\<rparr>"
    and found: "found = map_of (callinfos (cl s)) (r_Cid res)"
    using assms(4) by (simp_all add: take_call_def Bee_Get_def)
  have "client_ok cid c Listening" unfolding c using client_ok_Delete[OF inv(1)] assms(3) by simp
  then have "client_ok cid c r" using assms(5) by (auto simp: client_ok_def)
  moreover have "slot_ok (cid j) j (((map_of (callinfos (cl s)))(r_Cid res := None)) (cid j)) r (chans (cl s) j) (calls s j)" for j
  proof (cases "found")
    case None
    then show ?thesis using inv(2)[of j] assms(3,5) found by (auto simp: slot_ok_def)
  next
    case (Some info)
    then obtain i where i: "r_Cid res = cid i"
      using inv(1) found by (auto simp: client_ok_def dest!: map_of_SomeD)
    have "call info = Some i" using inv(2)[of i] Some found i by (simp add: slot_ok_def)
    then have r: "r = Holding i res" using assms(5) Some by auto
    show ?thesis
      using inv(2)[of j] assms(2,3) Some found i r by (cases "j = i") (auto simp: slot_ok_def owns_def inj_def)
  qed
  ultimately show ?thesis using c by (simp add: rpc_inv_def Bee_Delete_map del: fun_upd_apply)
qed

lemma rpc_inv_sent:
  assumes "rpc_inv cid s" "recv s = Holding ch res"
  shows "rpc_inv cid (s\<lparr>cl := send_result ch res (cl s), recv := Closing ch\<rparr>)"
    and "rpc_inv cid (s\<lparr>recv := Closing ch\<rparr>)"
proof -
  note inv = rpc_invD[OF assms(1)]
  have "slot_ok (cid j) j (map_of (callinfos (cl s)) (cid j)) (Closing ch)
      (((chans (cl s))(ch := (chans (cl s) ch)\<lparr>ch_buf := Some res\<rparr>)) j) (calls s j)" for j
    using inv(2)[of j] assms(2) by (cases "j = ch") (auto simp: slot_ok_def owns_def slot_ok_simps)
  with inv(1) assms(2) show "rpc_inv cid (s\<lparr>cl := send_result ch res (cl s), recv := Closing ch\<rparr>)"
    by (simp add: rpc_inv_def client_ok_def send_result_def)
  have "slot_ok (cid j) j (map_of (callinfos (cl s)) (cid j)) (Closing ch) (chans (cl s) j) (calls s j)" for j
    using inv(2)[of j] assms(2) by (cases "j = ch") (auto simp: slot_ok_def owns_def slot_ok_simps)
  with inv(1) assms(2) show "rpc_inv cid (s\<lparr>recv := Closing ch\<rparr>)"
    by (simp add: rpc_inv_def client_ok_def)
qed

lemma rpc_inv_closed:
  assumes "rpc_inv cid s" "recv s = Closing ch"
  shows "rpc_inv cid (s\<lparr>cl := nats_CloseFch ch (cl s), recv := Listening\<rparr>)"
proof -
  note inv = rpc_invD[OF assms(1)]
  have open_ch: "\<not> ch_closed (chans (cl s) ch)" using inv(2)[of ch] assms(2) by (simp add: slot_ok_def)
  have "slot_ok (cid j) j (map_of (callinfos (cl s)) (cid j)) Listening
      (((chans (cl s))(ch := (chans (cl s) ch)\<lparr>ch_closed := True\<rparr>)) j) (calls s j)" for j
    using inv(2)[of j] assms(2) by (cases "j = ch") (auto simp: slot_ok_def owns_def slot_ok_simps)
  with inv(1) assms(2) open_ch show ?thesis
    by (simp add: rpc_inv_def client_ok_def nats_CloseFch_def)
qed

lemma close_items:
  assumes "inj cid" "distinct (map fst xs)"
    "\<And>k x. (k, x) \<in> set xs \<Longrightarrow> \<exists>i. k = cid i \<and> call x = Some i \<and> \<not> ch_closed (chans c i)"
  shows "fold close_item xs c = c\<lparr>callinfos := fold (\<lambda>(k, x). AList.delete k) xs (callinfos c),
    chans := (\<lambda>i. if cid i \<in> fst ` set xs then (chans c i)\<lparr>ch_closed := True\<rparr> else chans c i)\<rparr>"
  using assms(2,3)
proof (induction xs arbitrary: c)
  case (Cons kx xs)
  obtain k x where kx: "kx = (k, x)" by force
  obtain i where i: "k = cid i" "call x = Some i" "\<not> ch_closed (chans c i)" using Cons.prems(2) kx by auto
  let ?c = "c\<lparr>callinfos := AList.delete k (callinfos c), chans := (chans c)(i := (chans c i)\<lparr>ch_closed := True\<rparr>)\<rparr>"
  have step: "close_item kx c = ?c"
    using i kx by (simp add: close_item_def nats_CloseFch_def nats_Delete_def Bee_Delete_def)
  have "\<exists>j. k' = cid j \<and> call x' = Some j \<and> \<not> ch_closed (chans ?c j)" if mem: "(k', x') \<in> set xs" for k' x'
  proof -
    obtain j where "k' = cid j" "call x' = Some j" "\<not> ch_closed (chans c j)"
      using Cons.prems(2)[of k' x'] mem by auto
    moreover have "k' \<noteq> k" using Cons.prems(1) kx mem by (auto simp: image_iff)
    ultimately show ?thesis using i(1) by auto
  qed
  with Cons.IH[of ?c] Cons.prems(1) have
    "fold close_item xs ?c = ?c\<lparr>callinfos := fold (\<lambda>(k, x). AList.delete k) xs (callinfos ?c),
      chans := (\<lambda>j. if cid j \<in> fst ` set xs then (chans ?c j)\<lparr>ch_closed := True\<rparr> else chans ?c j)\<rparr>"
    by simp
  moreover have "(\<lambda>j. if cid j \<in> fst ` set xs then (chans ?c j)\<lparr>ch_closed := True\<rparr> else chans ?c j) =
      (\<lambda>j. if cid j \<in> fst ` set (kx # xs) then (chans c j)\<lparr>ch_closed := True\<rparr> else chans c j)"
    using assms(1) i(1) kx by (auto simp: fun_eq_iff dest: injD)
  ultimately show ?case using step kx by simp
qed simp

lemma slot_drained:
  "slot_ok k i e r ch st \<Longrightarrow> r = Draining \<Longrightarrow>
   slot_ok k i None Finished (if e = None then ch else ch\<lparr>ch_closed := True\<rparr>) st"
  by (cases e) (simp_all add: slot_ok_def owns_def slot_ok_simps)

lemma rpc_inv_finished:
  assumes "rpc_inv cid s" "inj cid" "recv s = Draining"
  shows "rpc_inv cid (s\<lparr>cl := nats_finish (cl s), recv := Finished\<rparr>)"
proof -
  note inv = rpc_invD[OF assms(1)]
  let ?m = "callinfos (cl s)"
  have keys: "distinct (map fst ?m)" using inv(1) by (simp add: client_ok_def)
  have items: "\<exists>i. k = cid i \<and> call x = Some i \<and> \<not> ch_closed (chans (cl s) i)" if "(k, x) \<in> set ?m" for k x
  proof -
    have "map_of ?m k = Some x" using that keys by simp
    moreover have "k \<in> range cid" using that inv(1) by (force simp: client_ok_def)
    then obtain i where "k = cid i" by blast
    ultimately show ?thesis using inv(2)[of i] by (auto simp: slot_ok_def slot_ok_simps)
  qed
  let ?chans = "\<lambda>i. if cid i \<in> fst ` set ?m then (chans (cl s) i)\<lparr>ch_closed := True\<rparr> else chans (cl s) i"
  have "nats_drain (cl s) = (cl s)\<lparr>callinfos := [], chans := ?chans\<rparr>"
    using close_items[OF assms(2) keys items] by (simp add: nats_drain_def Bee_Items_def delete_keys filter_empty_conv)
  moreover have "slot_ok (cid i) i None Finished (?chans i) (calls s i)" for i
    using slot_drained[OF inv(2)[of i] assms(3)]
    by (cases "cid i \<in> fst ` set ?m") (simp_all add: map_of_eq_None_iff)
  ultimately show ?thesis
    using inv(1) assms(3) by (simp add: rpc_inv_def nats_finish_def client_ok_def)
qed

lemma rpc_inv_recv:
  assumes "rpc_inv cid s" "\<And>i. \<not> owns (recv s) i" "\<And>i. \<not> owns r i" "recv s \<noteq> Finished" "r \<noteq> Finished"
    "c = cl s \<or> c = nats_stop (cl s)" "r = Draining \<longrightarrow> isClose c"
  shows "rpc_inv cid (s\<lparr>cl := c, recv := r\<rparr>)"
proof -
  note inv = rpc_invD[OF assms(1)]
  have c: "callinfos c = callinfos (cl s)" "chans c = chans (cl s)" "recovered c = recovered (cl s)"
    using assms(6) by (auto simp: nats_stop_def)
  have "client_ok cid c r"
    using inv(1) c assms(5,7) by (auto simp: client_ok_def)
  moreover have "slot_ok (cid i) i (map_of (callinfos (cl s)) (cid i)) r (chans (cl s) i) (calls s i)" for i
    using inv(2)[of i] assms(2,3) by (simp add: slot_ok_def owns_def)
  ultimately show ?thesis using c by (simp add: rpc_inv_def)
qed

lemma rpc_inv_stop: "rpc_inv cid s \<Longrightarrow> rpc_inv cid (s\<lparr>cl := nats_stop (cl s)\<rparr>)"
  by (auto simp: rpc_inv_def client_ok_stop) (simp add: nats_stop_def)

lemma rpc_inv_step:
  assumes "inj cid" "rpc_inv cid s" "rpc_step cid s t"
  shows "rpc_inv cid t"
  using assms(3)
proof cases
  case (called i info marshal publish err c)
  show ?thesis unfolding called(1) by (rule rpc_inv_called[OF assms(2,1) called(2,3,4)])
next
  case (got i res)
  show ?thesis unfolding got(1) by (rule rpc_inv_got[OF assms(2) got(2,3)])
next
  case (got_closed i)
  then show ?thesis using rpc_inv_status[OF assms(2)] by simp
next
  case (expired i)
  then show ?thesis using rpc_inv_status[OF assms(2)] by simp
next
  case (forgot i)
  show ?thesis unfolding forgot(1) by (rule rpc_inv_forgot[OF assms(2,1) forgot(2)])
next
  case (unknown res c)
  show ?thesis
    using rpc_inv_taken[OF assms(2,1) unknown(2,3), of Listening] unknown(1,2) by (simp add: rpc_inv_def)
next
  case (answered res info c ch)
  show ?thesis
    unfolding answered(1) by (rule rpc_inv_taken[OF assms(2,1) answered(2,3)]) (use answered(4) in blast)
next
  case (sent ch res)
  show ?thesis unfolding sent(1) by (rule rpc_inv_sent(1)[OF assms(2) sent(2)])
next
  case (dropped ch res)
  show ?thesis unfolding dropped(1) by (rule rpc_inv_sent(2)[OF assms(2) dropped(2)])
next
  case (closed ch)
  show ?thesis unfolding closed(1) by (rule rpc_inv_closed[OF assms(2) closed(2)])
next
  case done_seen
  then show ?thesis using rpc_inv_recv[OF assms(2), of Leaving "cl s"] by (simp add: owns_def)
next
  case (failed err transportClosed subValid resubscribe)
  then show ?thesis using rpc_inv_recv[OF assms(2), of Leaving "cl s"] by (simp add: owns_def)
next
  case stop
  then show ?thesis using rpc_inv_stop[OF assms(2)] by simp
next
  case left
  then show ?thesis
    using rpc_inv_recv[OF assms(2), of Draining "nats_stop (cl s)"] by (simp add: owns_def nats_stop_def)
next
  case finished
  show ?thesis unfolding finished(1) by (rule rpc_inv_finished[OF assms(2,1) finished(2)])
qed

lemma rpc_inv_init: "rpc_init s \<Longrightarrow> rpc_inv cid s"
  by (auto simp: rpc_init_def rpc_inv_def client_ok_def NewNatsClient_def NewBeeMap_def slot_ok_def slot_ok_simps)

interpretation rpc_system: invariant_system rpc_init "\<lambda>s t. inj cid \<and> rpc_step cid s t" "rpc_inv cid" for cid
  by unfold_locales (auto intro: rpc_inv_init rpc_inv_step)

lemma rpc_inv_reach:
  assumes "inj cid" "reach rpc_init (rpc_step cid) s"
  shows "rpc_inv cid s"
proof (rule rpc_system.inv_reach)
  show "reach rpc_init (\<lambda>s t. inj cid \<and> rpc_step cid s t) s"
    using assms(2) by (induction rule: reach.induct) (auto intro: reach.intros assms(1))
qed

lemma receiver_ends:
  assumes "rpc_inv cid s" "isClose (cl s)"
  shows "\<exists>t. (rpc_step cid)\<^sup>*\<^sup>* s t \<and> recv t = Finished"
proof -
  have fin: "\<exists>t. (rpc_step cid)\<^sup>*\<^sup>* s t \<and> recv t = Finished" if "recv s = Draining" for s
    by (intro exI[of _ "s\<lparr>cl := nats_finish (cl s), recv := Finished\<rparr>"])
      (simp add: finished[OF that] r_into_rtranclp)
  have lev: "\<exists>t. (rpc_step cid)\<^sup>*\<^sup>* s t \<and> recv t = Finished" if "recv s = Leaving" for s
    using fin[of "s\<lparr>cl := nats_stop (cl s), recv := Draining\<rparr>"] left[OF that, of cid]
    by (auto intro: converse_rtranclp_into_rtranclp)
  have lis: "\<exists>t. (rpc_step cid)\<^sup>*\<^sup>* s t \<and> recv t = Finished" if "recv s = Listening" "isClose (cl s)" for s
    using lev[of "s\<lparr>recv := Leaving\<rparr>"] done_seen[OF that, of cid]
    by (auto intro: converse_rtranclp_into_rtranclp)
  have clo: "\<exists>t. (rpc_step cid)\<^sup>*\<^sup>* s t \<and> recv t = Finished" if "recv s = Closing ch" "isClose (cl s)" for s ch
  proof -
    have "isClose (nats_CloseFch ch (cl s))" using that(2) by (simp add: nats_CloseFch_def)
    then show ?thesis
      using lis[of "s\<lparr>cl := nats_CloseFch ch (cl s), recv := Listening\<rparr>"] closed[OF that(1), of cid]
      by (auto intro: converse_rtranclp_into_rtranclp)
  qed
  show ?thesis
  proof (cases "recv s")
    case (Holding ch res)
    then show ?thesis
      using clo[of "s\<lparr>recv := Closing ch\<rparr>" ch] dropped[OF Holding assms(2), of cid] assms(2)
      by (auto intro: converse_rtranclp_into_rtranclp)
  qed (use fin lev lis clo assms(2) in auto)
qed

section \<open>Properties\<close>

text \<open>C3: Every answer reaches the call it belongs to, once. In every interleaving of callers,
  time-outs, arriving messages (also forged, repeated and late ones) and closing: an answer a call
  returns carries that call's correlation id; the receiver that has taken a call out of the table
  finds its channel empty and open, so it never blocks on a caller that has gone away; and no
  channel is closed twice, so the recovery in \<open>CloseFch\<close> never has anything to recover from.\<close>

theorem answers_reach_their_callers:
  assumes "inj cid" "reach rpc_init (rpc_step cid) s"
  shows "recovered (cl s) = 0 \<and>
    (\<forall>i res. calls s i = Returned (Got res) \<longrightarrow> r_Cid res = cid i) \<and>
    (\<forall>ch res. recv s = Holding ch res \<longrightarrow>
       r_Cid res = cid ch \<and> ch_buf (chans (cl s) ch) = None \<and> \<not> ch_closed (chans (cl s) ch)) \<and>
    (\<forall>ch. recv s = Closing ch \<longrightarrow> \<not> ch_closed (chans (cl s) ch))"
proof -
  note ok = rpc_invD[OF rpc_inv_reach[OF assms]]
  have "recovered (cl s) = 0" using ok(1) by (simp add: client_ok_def)
  moreover have "r_Cid res = cid i" if "calls s i = Returned (Got res)" for i res
    using ok(2)[of i] that by (simp add: slot_ok_def)
  moreover have "r_Cid res = cid ch \<and> ch_buf (chans (cl s) ch) = None \<and> \<not> ch_closed (chans (cl s) ch)"
    if "recv s = Holding ch res" for ch res
    using ok(2)[of ch] that by (simp add: slot_ok_def slot_ok_simps)
  moreover have "\<not> ch_closed (chans (cl s) ch)" if "recv s = Closing ch" for ch
    using ok(2)[of ch] that by (simp add: slot_ok_def)
  ultimately show ?thesis by blast
qed

definition sample_answer :: result_info where
  "sample_answer = \<lparr>r_Cid = ''c'', r_Error = [], r_ResultType = STRING, r_Result = bytes_of_str ''hi''\<rparr>"

definition sample_cid :: "nat \<Rightarrow> string" where
  "sample_cid i = ''c'' @ replicate i CHR ''x''"

definition sample_entry :: ClinetCallInfo where
  "sample_entry = \<lparr>correlation_id = ''c'', timeout = 0, call = Some 0\<rparr>"

definition sample_client :: "(string, ClinetCallInfo) bee_map \<Rightarrow> nats_client" where
  "sample_client m = (NewNatsClient ''inbox'')\<lparr>callinfos := m\<rparr>"

definition waiting_state :: rpc_system where
  "waiting_state = \<lparr>cl = sample_client [(''c'', sample_entry)], calls = (\<lambda>_. Not_called)(0 := Waiting), recv = Listening\<rparr>"

definition holding_state :: rpc_system where
  "holding_state = \<lparr>cl = sample_client [], calls = (\<lambda>_. Not_called)(0 := Waiting), recv = Holding 0 sample_answer\<rparr>"

lemma sample_cid_inj: "inj sample_cid"
  by (auto simp: inj_def sample_cid_def dest: arg_cong[where f = length])

lemma waiting_reachable: "reach rpc_init (rpc_step sample_cid) waiting_state"
proof (rule reach_step)
  let ?s = "\<lparr>cl = NewNatsClient ''inbox'', calls = (\<lambda>_. Not_called), recv = Listening\<rparr>"
  let ?info = "CallArgs_info ''HD_f'' [] [] ''c'' ''me'' 0 0 True"
  show "reach rpc_init (rpc_step sample_cid) ?s" by (rule reach_init) (auto simp: rpc_init_def)
  have "nats_Call (\<lambda>_. Inr []) (\<lambda>_. None) ?info (Some 0) (cl ?s) = (None, sample_client [(''c'', sample_entry)])"
    by (simp add: nats_Call_def NewNatsClient_def NewBeeMap_def CallArgs_info_def Bee_Set_def sample_client_def
        sample_entry_def Let_def)
  from called[where cid = sample_cid, OF _ _ this] show "rpc_step sample_cid ?s waiting_state"
    by (simp add: waiting_state_def sample_cid_def CallArgs_info_def)
qed

lemma holding_reachable: "reach rpc_init (rpc_step sample_cid) holding_state"
proof (rule reach_step[OF waiting_reachable])
  have "take_call sample_answer (cl waiting_state) = (Some sample_entry, sample_client [])"
    by (simp add: take_call_def waiting_state_def sample_client_def sample_answer_def Bee_Get_def Bee_Delete_def)
  from answered[where cid = sample_cid, OF _ this] show "rpc_step sample_cid waiting_state holding_state"
    by (simp add: waiting_state_def holding_state_def sample_entry_def)
qed

theorem answers_reach_their_callers_witness:
  "recovered (cl holding_state) = 0 \<and> ch_buf (chans (cl holding_state) 0) = None"
  using answers_reach_their_callers[OF sample_cid_inj holding_reachable] by (simp add: holding_state_def)

text \<open>C34: Closing wakes every caller. A caller that waits has its channel in the table, with the
  receiver or closed, so no call is lost; once the client is being closed the receiver alone can
  bring itself to the end, so \<open>Done\<close> returns; and then the table is empty, later calls fail at
  once, and every caller still waiting can return.\<close>

theorem closing_wakes_every_caller:
  assumes "inj cid" "reach rpc_init (rpc_step cid) s"
  shows "(calls s i = Waiting \<longrightarrow>
      map_of (callinfos (cl s)) (cid i) \<noteq> None \<or> owns (recv s) i \<or> ch_closed (chans (cl s) i)) \<and>
    (isClose (cl s) \<longrightarrow> (\<exists>t. (rpc_step cid)\<^sup>*\<^sup>* s t \<and> recv t = Finished)) \<and>
    (recv s = Finished \<longrightarrow> callinfos (cl s) = [] \<and>
      nats_Call marshal publish info cb (cl s) = (Some (Errorf ''NatsClient is closed'' []), cl s) \<and>
      (calls s i = Waiting \<longrightarrow> (\<exists>t e. rpc_step cid s t \<and> calls t i = Returned e)))"
proof -
  have inv: "rpc_inv cid s" by (rule rpc_inv_reach[OF assms])
  note ok = rpc_invD[OF inv]
  have "\<exists>t e. rpc_step cid s t \<and> calls t i = Returned e" if "recv s = Finished" "calls s i = Waiting"
  proof -
    have "ch_closed (chans (cl s) i)"
      using ok(1) ok(2)[of i] that by (simp add: client_ok_def slot_ok_def owns_def)
    then show ?thesis
      using got[OF that(2), of _ cid] got_closed[OF that(2), of cid]
      by (cases "ch_buf (chans (cl s) i)") force+
  qed
  moreover have "isClose (cl s)" if "recv s = Finished" using ok(1) that by (simp add: client_ok_def)
  ultimately show ?thesis
    using receiver_ends[OF inv] ok(1) ok(2)[of i] by (auto simp: client_ok_def slot_ok_def nats_Call_def)
qed

theorem closing_wakes_every_caller_witness:
  "owns (recv holding_state) 0 \<or> ch_closed (chans (cl holding_state) 0)"
  using closing_wakes_every_caller[OF sample_cid_inj holding_reachable, of 0]
  by (simp add: holding_state_def sample_client_def)

end
