(* ===== verification/Rpc_Server.thy ===== *)
theory Rpc_Server
  imports Nats_Client
begin

text \<open>
  The called end of remote calls (\<^verbatim>\<open>src/rpc/base/rpc_server.go\<close>, \<^verbatim>\<open>src/rpc/pb/new.go\<close>, the message
  handling of \<^verbatim>\<open>src/rpc/base/nats_server.go\<close>, the listener defaults of
  \<^verbatim>\<open>src/module/base/base_module.go\<close>): registration, finding the function, decoding the arguments,
  running it, and the one reply. Reflection is explicit: a parameter type says how its value is
  made from bytes (\<open>in_type\<close>), and a function is a function on values \<open>'v\<close> and a state \<open>'w\<close> of the
  module, which returns or panics. The hooks that only watch calls are events in the state; they
  do not panic.
\<close>

section \<open>Functions and calls\<close>

datatype ('j, 'o, 'v) in_type =
    In_proto "bytes \<Rightarrow> go_error + 'v"
  | In_marshaler "bytes \<Rightarrow> go_error + 'v"
  | In_plain (takes_bytes: bool) (from_json: "bytes \<Rightarrow> 'v option") (zero_value: 'v) (value_of: "('j, 'o) rarg \<Rightarrow> 'v")

text \<open>What a function returns: values, or an error as the second result.\<close>

datatype ('j, 'o) out_value = OValue "('j, 'o) rarg" | OError go_error

record ('j, 'o, 'v, 'w) FunctionInfo =
  InType :: "('j, 'o, 'v) in_type list"
  Function :: "'v list \<Rightarrow> 'w \<Rightarrow> (string + ('j, 'o) out_value list) \<times> 'w"
  Goroutine :: bool

record ('j, 'o, 'v, 'w) listener =
  NoFoundFunction :: "string \<Rightarrow> go_error + ('j, 'o, 'v, 'w) FunctionInfo"
  BeforeHandle :: "string \<Rightarrow> rpc_info \<Rightarrow> go_error option"

datatype rpc_event = On_error string string | On_complete string result_info

text \<open>
  \<open>slots\<close> counts the places of the goroutine control that are taken, \<open>replies\<close> is what was handed to
  the agent's \<open>Callback\<close>, with its subject. The texts of errors leave out the module's type and the
  stack trace.
\<close>

record ('j, 'o, 'v, 'w) RPCServer =
  rs_functions :: "string \<rightharpoonup> ('j, 'o, 'v, 'w) FunctionInfo"
  rs_listener :: "('j, 'o, 'v, 'w) listener option"
  rs_control :: bool
  slots :: int
  wg :: int
  executing :: int
  replies :: "(string \<times> result_info) list"
  events :: "rpc_event list"
  world :: 'w

definition NewRPCServer :: "'w \<Rightarrow> ('j, 'o, 'v, 'w) RPCServer" where
  "NewRPCServer w = \<lparr>rs_functions = Map.empty, rs_listener = None, rs_control = False, slots = 0, wg = 0,
     executing = 0, replies = [], events = [], world = w\<rparr>"

definition register_with ::
    "bool \<Rightarrow> string \<Rightarrow> ('j, 'o, 'v, 'w) FunctionInfo \<Rightarrow> ('j, 'o, 'v, 'w) RPCServer \<Rightarrow> ('j, 'o, 'v, 'w) RPCServer outcome"
where
  "register_with go_routine fid f s =
     (if rs_functions s fid \<noteq> None then Panic (''function id '' @ fid @ '': already registered'')
      else Ret (s\<lparr>rs_functions := (rs_functions s)(fid \<mapsto> f\<lparr>Goroutine := go_routine\<rparr>)\<rparr>))"

definition rpc_Register ::
    "string \<Rightarrow> ('j, 'o, 'v, 'w) FunctionInfo \<Rightarrow> ('j, 'o, 'v, 'w) RPCServer \<Rightarrow> ('j, 'o, 'v, 'w) RPCServer outcome" where
  "rpc_Register = register_with False"

definition rpc_RegisterGO ::
    "string \<Rightarrow> ('j, 'o, 'v, 'w) FunctionInfo \<Rightarrow> ('j, 'o, 'v, 'w) RPCServer \<Rightarrow> ('j, 'o, 'v, 'w) RPCServer outcome" where
  "rpc_RegisterGO = register_with True"

section \<open>Replies\<close>

definition NewResultInfo :: "string \<Rightarrow> string \<Rightarrow> string \<Rightarrow> bytes \<Rightarrow> result_info" where
  "NewResultInfo cid err ty result = \<lparr>r_Cid = cid, r_Error = err, r_ResultType = ty, r_Result = result\<rparr>"

definition doCallback :: "rpc_info \<Rightarrow> result_info \<Rightarrow> ('j, 'o, 'v, 'w) RPCServer \<Rightarrow> ('j, 'o, 'v, 'w) RPCServer" where
  "doCallback info res s = (if Reply info then s\<lparr>replies := replies s @ [(ReplyTo info, res)]\<rparr> else s)"

text \<open>\<open>Callback\<close> of the NATS server; its error is only logged.\<close>

definition nats_Callback ::
    "(result_info \<Rightarrow> go_error + bytes) \<Rightarrow> (string \<Rightarrow> bytes \<Rightarrow> go_error option) \<Rightarrow> string \<times> result_info \<Rightarrow> go_error option" where
  "nats_Callback marshal publish reply =
     (case marshal (snd reply) of Inl err \<Rightarrow> Some err | Inr body \<Rightarrow> publish (fst reply) body)"

definition tell :: "rpc_event \<Rightarrow> ('j, 'o, 'v, 'w) RPCServer \<Rightarrow> ('j, 'o, 'v, 'w) RPCServer" where
  "tell e s = (if rs_listener s \<noteq> None then s\<lparr>events := events s @ [e]\<rparr> else s)"

definition errorCallback :: "rpc_info \<Rightarrow> string \<Rightarrow> ('j, 'o, 'v, 'w) RPCServer \<Rightarrow> ('j, 'o, 'v, 'w) RPCServer" where
  "errorCallback info err s =
     tell (On_error (Fn info) err) (doCallback info (NewResultInfo (Cid info) err NULL []) s)"

section \<open>Arguments\<close>

definition decode_arg ::
    "('j, 'o) arg_env \<Rightarrow> ('j, 'o, 'v) in_type \<Rightarrow> string \<Rightarrow> bytes \<Rightarrow> (go_error + 'v) outcome" where
  "decode_arg env rv ty param =
     (case rv of
        In_proto unmarshal \<Rightarrow> Ret (unmarshal param)
      | In_marshaler unmarshal \<Rightarrow> Ret (unmarshal param)
      | In_plain assignable json zero valueOf \<Rightarrow>
          outcome_bind (Bytes2Args env ty param) (\<lambda>r.
            case r of
              Inl e \<Rightarrow> Ret (Inl e)
            | Inr v \<Rightarrow>
                (case v of
                   RNil \<Rightarrow> Ret (Inr zero)
                 | RBytes b \<Rightarrow>
                     if assignable then Ret (Inr (valueOf v))
                     else (case json b of Some x \<Rightarrow> Ret (Inr x) | None \<Rightarrow> Ret (Inr (valueOf v)))
                 | _ \<Rightarrow> Ret (Inr (valueOf v)))))"

text \<open>The loop over \<open>ArgsType\<close>; places it does not reach keep the zero \<open>reflect.Value\<close> (\<open>None\<close>).\<close>

fun decode_args ::
    "('j, 'o) arg_env \<Rightarrow> ('j, 'o, 'v) in_type list \<Rightarrow> string list \<Rightarrow> bytes list \<Rightarrow> (go_error + 'v option list) outcome" where
  "decode_args env ins [] ps = Ret (Inr (map (\<lambda>_. None) ps))"
| "decode_args env (i # is) (t # ts) (p # ps) =
     outcome_bind (decode_arg env i t p) (\<lambda>r.
       case r of
         Inl e \<Rightarrow> Ret (Inl e)
       | Inr v \<Rightarrow>
           outcome_bind (decode_args env is ts ps) (\<lambda>rest.
             case rest of Inl e \<Rightarrow> Ret (Inl e) | Inr vs \<Rightarrow> Ret (Inr (Some v # vs))))"
| "decode_args env _ (t # ts) _ = Panic index_panic"

definition decode_in ::
    "('j, 'o) arg_env \<Rightarrow> ('j, 'o, 'v) in_type list \<Rightarrow> string list \<Rightarrow> bytes list \<Rightarrow> (go_error + 'v option list) outcome" where
  "decode_in env ins tys ps = (if tys = [] then Ret (Inr []) else decode_args env ins tys ps)"

text \<open>\<open>reflect.Value.Call\<close> panics on a wrong number of arguments and on a zero \<open>Value\<close>.\<close>

definition call_function ::
    "('j, 'o, 'v, 'w) FunctionInfo \<Rightarrow> 'v option list \<Rightarrow> 'w \<Rightarrow> (string + ('j, 'o) out_value list) \<times> 'w" where
  "call_function f ins w =
     (if length ins \<noteq> length (InType f) \<or> None \<in> set ins then (Inl ''reflect: Call'', w)
      else Function f (map the ins) w)"

section \<open>Running a call\<close>

text \<open>The second result: a string, an error or nil; anything else is a wrong signature.\<close>

definition result_error :: "('j, 'o) out_value \<Rightarrow> string option" where
  "result_error r =
     (case r of
        OError e \<Rightarrow> Some (error_text e)
      | OValue (RString s) \<Rightarrow> Some s
      | OValue RNil \<Rightarrow> Some []
      | _ \<Rightarrow> None)"

definition bad_signature :: "string \<Rightarrow> string" where
  "bad_signature fn = ''rpc func('' @ fn @ '') return error func(....)(result interface{}, err error)''"

definition result_value :: "(go_error \<Rightarrow> 'o) \<Rightarrow> ('j, 'o) out_value \<Rightarrow> ('j, 'o) rarg" where
  "result_value err_value r = (case r of OValue v \<Rightarrow> v | OError e \<Rightarrow> ROther (err_value e))"

text \<open>What is left of \<open>_runFunc\<close> once the function has returned.\<close>

definition send_outcome ::
    "('j, 'o) arg_env \<Rightarrow> (go_error \<Rightarrow> 'o) \<Rightarrow> rpc_info \<Rightarrow> ('j, 'o) out_value list \<Rightarrow> ('j, 'o, 'v, 'w) RPCServer
      \<Rightarrow> ('j, 'o, 'v, 'w) RPCServer" where
  "send_outcome env err_value info out s =
     (if length out \<noteq> 2 then errorCallback info (bad_signature (Fn info)) s
      else (case result_error (out ! 1) of
              None \<Rightarrow> errorCallback info (bad_signature (Fn info)) s
            | Some rerr \<Rightarrow>
                (case ArgsTypeAnd2Bytes env (result_value err_value (out ! 0)) of
                   (_, _, Some e) \<Rightarrow> errorCallback info (error_text e) s
                 | (ty, b, None) \<Rightarrow>
                     let res = NewResultInfo (Cid info) rerr ty b
                     in tell (On_complete (Fn info) res) (doCallback info res s))))"

text \<open>The body between the two deferred parts; \<open>Some\<close> is the value of a panic.\<close>

definition run_body ::
    "('j, 'o) arg_env \<Rightarrow> (go_error \<Rightarrow> 'o) \<Rightarrow> ('j, 'o, 'v, 'w) FunctionInfo \<Rightarrow> rpc_info \<Rightarrow> ('j, 'o, 'v, 'w) RPCServer
      \<Rightarrow> string option \<times> ('j, 'o, 'v, 'w) RPCServer" where
  "run_body env err_value f info s =
     (case decode_in env (InType f) (ArgsType info) (Args info) of
        Panic rn \<Rightarrow> (Some rn, s)
      | Hang \<Rightarrow> (Some [], s)
      | Ret (Inl e) \<Rightarrow> (None, errorCallback info (error_text e) s)
      | Ret (Inr ins) \<Rightarrow>
          (case (case rs_listener s of None \<Rightarrow> None | Some l \<Rightarrow> BeforeHandle l (Fn info) info) of
             Some e \<Rightarrow> (None, errorCallback info (error_text e) s)
           | None \<Rightarrow>
               (case call_function f ins (world s) of
                  (Inl rn, w) \<Rightarrow> (Some rn, s\<lparr>world := w\<rparr>)
                | (Inr out, w) \<Rightarrow> (None, send_outcome env err_value info out (s\<lparr>world := w\<rparr>)))))"

definition panic_report :: "string \<Rightarrow> string \<Rightarrow> string" where
  "panic_report fn rn = ''rpc func('' @ fn @ '') error '' @ rn"

definition runFunc_with ::
    "('j, 'o) arg_env \<Rightarrow> (go_error \<Rightarrow> 'o) \<Rightarrow> ('j, 'o, 'v, 'w) FunctionInfo \<Rightarrow> rpc_info \<Rightarrow> ('j, 'o, 'v, 'w) RPCServer
      \<Rightarrow> ('j, 'o, 'v, 'w) RPCServer" where
  "runFunc_with env err_value f info s =
     (if length (Args info) \<noteq> length (InType f)
      then errorCallback info ''The number of params %v is not adapted.%v'' s
      else (case run_body env err_value f info (s\<lparr>wg := wg s + 1, executing := executing s + 1\<rparr>) of
              (ending, s) \<Rightarrow>
                let s = s\<lparr>wg := wg s - 1, executing := executing s - 1,
                      slots := (if rs_control s then slots s - 1 else slots s)\<rparr>
                in case ending of
                     None \<Rightarrow> s
                   | Some rn \<Rightarrow> errorCallback info (panic_report (Fn info) rn) s))"

text \<open>
  \<open>runFunc\<close>: take a place, find the function. Without a listener a missing function is a nil
  pointer, whose dereference panics and is recovered. A function registered with \<open>RegisterGO\<close> runs
  in a goroutine of its own, with the same effect.
\<close>

definition runFunc ::
    "('j, 'o) arg_env \<Rightarrow> (go_error \<Rightarrow> 'o) \<Rightarrow> rpc_info \<Rightarrow> ('j, 'o, 'v, 'w) RPCServer \<Rightarrow> ('j, 'o, 'v, 'w) RPCServer" where
  "runFunc env err_value info s =
     (let s = (if rs_control s then s\<lparr>slots := slots s + 1\<rparr> else s)
      in case rs_functions s (Fn info) of
           Some f \<Rightarrow> runFunc_with env err_value f info s
         | None \<Rightarrow>
             (case rs_listener s of
                None \<Rightarrow> errorCallback info ''runtime error: invalid memory address or nil pointer dereference'' s
              | Some l \<Rightarrow>
                  (case NoFoundFunction l (Fn info) of
                     Inl e \<Rightarrow> errorCallback info (error_text e) s
                   | Inr f \<Rightarrow> runFunc_with env err_value f info s)))"

text \<open>A message of the request subscription; what is not a request is dropped.\<close>

definition on_request ::
    "(bytes \<Rightarrow> go_error + rpc_info) \<Rightarrow> ('j, 'o) arg_env \<Rightarrow> (go_error \<Rightarrow> 'o) \<Rightarrow> bytes \<Rightarrow> ('j, 'o, 'v, 'w) RPCServer
      \<Rightarrow> ('j, 'o, 'v, 'w) RPCServer" where
  "on_request unmarshal env err_value data s =
     (case unmarshal data of Inl _ \<Rightarrow> s | Inr info \<Rightarrow> runFunc env err_value info s)"

text \<open>The listener a module installs when it has none of its own.\<close>

definition module_listener :: "('j, 'o, 'v, 'w) listener option \<Rightarrow> ('j, 'o, 'v, 'w) listener" where
  "module_listener own =
     (case own of
        Some l \<Rightarrow> l
      | None \<Rightarrow> \<lparr>NoFoundFunction = (\<lambda>fn. Inl (Errorf ''Remote function(%s) not found'' [AS fn])),
                  BeforeHandle = (\<lambda>_ _. None)\<rparr>)"

section \<open>One reply, and the books balanced\<close>

text \<open>\<open>answers\<close> says that a step sends exactly the one reply a call asks for and keeps the counters.\<close>

definition answers :: "rpc_info \<Rightarrow> ('j, 'o, 'v, 'w) RPCServer \<Rightarrow> ('j, 'o, 'v, 'w) RPCServer \<Rightarrow> bool" where
  "answers info s s' \<longleftrightarrow>
     (if Reply info then \<exists>res. r_Cid res = Cid info \<and> replies s' = replies s @ [(ReplyTo info, res)]
      else replies s' = replies s) \<and>
     executing s' = executing s \<and> wg s' = wg s \<and> slots s' = slots s \<and> rs_control s' = rs_control s"

lemma tell_simps [simp]:
  "replies (tell e s) = replies s" "executing (tell e s) = executing s" "wg (tell e s) = wg s"
  "slots (tell e s) = slots s" "rs_control (tell e s) = rs_control s" "world (tell e s) = world s"
  by (simp_all add: tell_def)

lemma answers_errorCallback: "answers info s (errorCallback info err s)"
  by (auto simp: answers_def errorCallback_def doCallback_def NewResultInfo_def)

lemma answers_send_outcome: "answers info s (send_outcome env ev info out (s\<lparr>world := w\<rparr>))"
proof -
  have e: "answers info s (errorCallback info err (s\<lparr>world := w\<rparr>))" for err
    using answers_errorCallback[of info "s\<lparr>world := w\<rparr>" err] by (auto simp: answers_def split: if_splits)
  have ok: "answers info s (tell ev' (doCallback info (NewResultInfo (Cid info) rerr ty b) (s\<lparr>world := w\<rparr>)))" for ev' rerr ty b
    by (auto simp: answers_def doCallback_def NewResultInfo_def)
  show ?thesis
    unfolding send_outcome_def Let_def using e ok by (auto split: option.splits prod.splits)
qed

lemma run_body_answers:
  assumes "run_body env ev f info s = (ending, s')"
  shows "(ending = None \<longrightarrow> answers info s s') \<and> (ending \<noteq> None \<longrightarrow> (\<exists>w. s' = s\<lparr>world := w\<rparr>))"
proof (cases "decode_in env (InType f) (ArgsType info) (Args info)")
  case (Ret r)
  show ?thesis
  proof (cases r)
    case (Inl e)
    with Ret assms show ?thesis using answers_errorCallback by (auto simp: run_body_def)
  next
    case (Inr ins)
    show ?thesis
    proof (cases "case rs_listener s of None \<Rightarrow> None | Some l \<Rightarrow> BeforeHandle l (Fn info) info")
      case None
      with Ret Inr assms show ?thesis
        using answers_send_outcome by (auto simp: run_body_def split: prod.splits sum.splits)
    next
      case (Some e)
      with Ret Inr assms show ?thesis using answers_errorCallback by (auto simp: run_body_def)
    qed
  qed
next
  case (Panic rn)
  with assms show ?thesis by (auto simp: run_body_def intro: exI[of _ "world s"])
next
  case Hang
  with assms show ?thesis by (auto simp: run_body_def intro: exI[of _ "world s"])
qed

lemma runFunc_with_answers:
  assumes "length (Args info) = length (InType f)"
  shows "answers info (s\<lparr>slots := (if rs_control s then slots s - 1 else slots s)\<rparr>) (runFunc_with env ev f info s)"
proof -
  let ?s = "s\<lparr>wg := wg s + 1, executing := executing s + 1\<rparr>"
  obtain ending s' where b: "run_body env ev f info ?s = (ending, s')" by fastforce
  let ?t = "s'\<lparr>wg := wg s' - 1, executing := executing s' - 1, slots := (if rs_control s' then slots s' - 1 else slots s')\<rparr>"
  have r: "runFunc_with env ev f info s =
      (case ending of None \<Rightarrow> ?t | Some rn \<Rightarrow> errorCallback info (panic_report (Fn info) rn) ?t)"
    using assms b by (simp add: runFunc_with_def Let_def)
  show ?thesis
  proof (cases ending)
    case None
    with run_body_answers[OF b] show ?thesis unfolding r by (auto simp: answers_def split: if_splits)
  next
    case (Some rn)
    then obtain w where s': "s' = ?s\<lparr>world := w\<rparr>" using run_body_answers[OF b] by auto
    have "answers info ?t (errorCallback info (panic_report (Fn info) rn) ?t)" by (rule answers_errorCallback)
    then show ?thesis unfolding r using Some s' by (auto simp: answers_def split: if_splits)
  qed
qed

text \<open>The function that runs for a call, if there is one.\<close>

definition found_function :: "rpc_info \<Rightarrow> ('j, 'o, 'v, 'w) RPCServer \<Rightarrow> ('j, 'o, 'v, 'w) FunctionInfo option" where
  "found_function info s =
     (case rs_functions s (Fn info) of
        Some f \<Rightarrow> Some f
      | None \<Rightarrow> (case rs_listener s of
                  None \<Rightarrow> None
                | Some l \<Rightarrow> (case NoFoundFunction l (Fn info) of Inl _ \<Rightarrow> None | Inr f \<Rightarrow> Some f)))"

definition runnable :: "rpc_info \<Rightarrow> ('j, 'o, 'v, 'w) RPCServer \<Rightarrow> bool" where
  "runnable info s =
     (case found_function info s of None \<Rightarrow> False | Some f \<Rightarrow> length (Args info) = length (InType f))"

lemma runFunc_answers:
  "answers info (s\<lparr>slots := slots s + (if rs_control s \<and> \<not> runnable info s then 1 else 0)\<rparr>) (runFunc env ev info s)"
proof -
  let ?s = "if rs_control s then s\<lparr>slots := slots s + 1\<rparr> else s"
  have with_f: "answers info (s\<lparr>slots := slots s + (if rs_control s \<and> \<not> runnable info s then 1 else 0)\<rparr>)
      (runFunc_with env ev f info ?s)" if "found_function info s = Some f" for f
  proof (cases "length (Args info) = length (InType f)")
    case True
    then have "runnable info s" using that by (simp add: runnable_def)
    with runFunc_with_answers[OF True, of ?s env ev] show ?thesis
      by (cases "rs_control s") (auto simp: answers_def split: if_splits)
  next
    case False
    then have "\<not> runnable info s" using that by (simp add: runnable_def)
    with False answers_errorCallback[of info ?s] show ?thesis
      by (cases "rs_control s") (auto simp: runFunc_with_def answers_def split: if_splits)
  qed
  have without_f: "answers info (s\<lparr>slots := slots s + (if rs_control s \<and> \<not> runnable info s then 1 else 0)\<rparr>)
      (errorCallback info err ?s)" if "found_function info s = None" for err
    using that answers_errorCallback[of info ?s err]
    by (cases "rs_control s") (auto simp: runnable_def answers_def split: if_splits)
  have "rs_functions ?s = rs_functions s" "rs_listener ?s = rs_listener s" by simp_all
  then show ?thesis
    unfolding runFunc_def Let_def using with_f without_f
    by (auto simp: found_function_def split: option.splits sum.splits)
qed

text \<open>A call that runs: the function's results become the one reply.\<close>

lemma runFunc_ran:
  assumes "rs_functions s (Fn info) = Some f" "length (Args info) = length (InType f)"
    and "\<forall>l. rs_listener s = Some l \<longrightarrow> BeforeHandle l (Fn info) info = None"
    and "decode_in env (InType f) (ArgsType info) (Args info) = Ret (Inr (map Some vals))" "length vals = length (InType f)"
    and "Function f vals (world s) = (Inr [OValue v, r2], w)" "result_error r2 = Some rerr"
    and "ArgsTypeAnd2Bytes env v = (ty, b, None)"
  shows "world (runFunc env ev info s) = w \<and>
    replies (runFunc env ev info s) = (if Reply info then replies s @ [(ReplyTo info, NewResultInfo (Cid info) rerr ty b)] else replies s)"
proof -
  have called: "call_function f (map Some vals) (world s) = (Inr [OValue v, r2], w)"
    using assms(5,6) by (auto simp: call_function_def comp_def)
  have before: "(case rs_listener s of None \<Rightarrow> None | Some l \<Rightarrow> BeforeHandle l (Fn info) info) = None"
    using assms(3) by (simp split: option.splits)
  have "runFunc_with env ev f info t =
      (let res = NewResultInfo (Cid info) rerr ty b; t' = t\<lparr>wg := wg t + 1, executing := executing t + 1, world := w\<rparr>;
           t' = tell (On_complete (Fn info) res) (doCallback info res t')
       in t'\<lparr>wg := wg t' - 1, executing := executing t' - 1, slots := (if rs_control t' then slots t' - 1 else slots t')\<rparr>)"
    if "world t = world s" "rs_listener t = rs_listener s" for t
    using that assms(2,4,7,8) called before
    by (simp add: runFunc_with_def run_body_def send_outcome_def result_value_def Let_def)
  then show ?thesis
    using assms(1) by (simp add: runFunc_def Let_def doCallback_def)
qed

lemma runFunc_result:
  assumes "rs_functions s (Fn info) = Some f" "length (Args info) = length (InType f)"
    and "\<forall>l. rs_listener s = Some l \<longrightarrow> BeforeHandle l (Fn info) info = None" "Reply info"
    and "decode_in env (InType f) (ArgsType info) (Args info) = Ret (Inr (map Some vals))" "length vals = length (InType f)"
    and "Function f vals (world s) = (Inr [OValue v, r2], w)" "result_error r2 = Some rerr"
    and "ArgsTypeAnd2Bytes env v = (ty, b, None)"
  shows "world (runFunc env ev info s) = w \<and>
    replies (runFunc env ev info s) = replies s @ [(ReplyTo info, NewResultInfo (Cid info) rerr ty b)]"
  using runFunc_ran[OF assms(1-3,5-9), of ev] assms(4) by simp

section \<open>From the caller's value to the function's and back\<close>

definition json_ok :: "('j \<Rightarrow> 'j) \<Rightarrow> ('j, 'o) arg_env \<Rightarrow> bool" where
  "json_ok norm env \<longleftrightarrow>
     (\<forall>m j. json_map env m = Inr j \<longrightarrow> unjson_map env j = Inr (norm m)) \<and>
     (\<forall>m j. json_mapstr env m = Inr j \<longrightarrow> unjson_mapstr env j = Inr m) \<and>
     (\<forall>t j. json_trace env t = Inr j \<longrightarrow> unjson_trace env j = Inr t)"

fun is_other :: "('j, 'o) rarg \<Rightarrow> bool" where
  "is_other (ROther _) = True"
| "is_other _ = False"

fun is_plain :: "('j, 'o, 'v) in_type \<Rightarrow> bool" where
  "is_plain (In_plain _ _ _ _) = True"
| "is_plain _ = False"

text \<open>The value a parameter of an ordinary type gets for a decoded argument.\<close>

definition plain_value :: "('j, 'o, 'v) in_type \<Rightarrow> ('j, 'o) rarg \<Rightarrow> 'v" where
  "plain_value i v =
     (case v of
        RNil \<Rightarrow> zero_value i
      | RBytes b \<Rightarrow> if takes_bytes i then value_of i v
                   else (case from_json i b of Some x \<Rightarrow> x | None \<Rightarrow> value_of i v)
      | _ \<Rightarrow> value_of i v)"

lemma roundtrip_plain:
  assumes "json_ok norm env" "ArgsTypeAnd2Bytes env a = (ty, b, None)" "\<not> is_other a"
  shows "Bytes2Args env ty b = Ret (Inr (received norm env [] a))"
proof -
  have "Bytes2Args env ty b = Ret (Inr (received norm env b a))"
    using assms by (intro Bytes2Args_roundtrip) (auto simp: json_ok_def)
  moreover have "received norm env b a = received norm env [] a"
    using assms(3) by (cases a) (simp_all add: received_def)
  ultimately show ?thesis by simp
qed

lemma decode_arg_plain:
  assumes "json_ok norm env" "ArgsTypeAnd2Bytes env a = (ty, b, None)" "\<not> is_other a" "is_plain i"
  shows "decode_arg env i ty b = Ret (Inr (plain_value i (received norm env [] a)))"
  using assms(4) roundtrip_plain[OF assms(1-3)]
  by (cases i) (auto simp: decode_arg_def plain_value_def split: rarg.splits option.splits)

lemma decode_args_plain:
  assumes "json_ok norm env"
  shows "encode_params env k ps = Inr (tys, bs) \<Longrightarrow> \<forall>a \<in> set ps. \<not> is_other a \<Longrightarrow> \<forall>i \<in> set ins. is_plain i \<Longrightarrow>
    length ins = length ps \<Longrightarrow>
    decode_args env ins tys bs = Ret (Inr (map (\<lambda>(i, a). Some (plain_value i (received norm env [] a))) (zip ins ps))) \<and>
    length tys = length ps \<and> length bs = length ps"
proof (induction ps arbitrary: k tys bs ins)
  case (Cons a ps)
  obtain ty b where a: "ArgsTypeAnd2Bytes env a = (ty, b, None)"
    using Cons.prems(1) by (auto split: prod.splits option.splits)
  with Cons.prems(1) obtain tys' bs' where rest: "encode_params env (k + 1) ps = Inr (tys', bs')"
    and eq: "tys = ty # tys'" "bs = b # bs'"
    by (auto split: sum.splits)
  obtain i ins' where ins: "ins = i # ins'" using Cons.prems(4) by (cases ins) auto
  have "decode_arg env i ty b = Ret (Inr (plain_value i (received norm env [] a)))"
    using Cons.prems(2,3) ins by (intro decode_arg_plain[OF assms a]) auto
  with Cons.IH[OF rest, of ins'] Cons.prems(2-4) ins eq show ?case by simp
qed simp

text \<open>Arguments that were encoded are decoded to what the caller passed.\<close>

lemma encoded_args_decode:
  assumes "json_ok norm env" "encode_params env 0 ps = Inr (ArgsType info, Args info)" "\<forall>a \<in> set ps. \<not> is_other a"
    and "length (InType f) = length ps" "\<forall>i \<in> set (InType f). is_plain i"
  defines "vals \<equiv> map (\<lambda>(i, a). plain_value i (received norm env [] a)) (zip (InType f) ps)"
  shows "decode_in env (InType f) (ArgsType info) (Args info) = Ret (Inr (map Some vals))"
    "length (Args info) = length (InType f)" "length vals = length (InType f)"
proof -
  have d: "decode_args env (InType f) (ArgsType info) (Args info) = Ret (Inr (map Some vals))"
      "length (Args info) = length (InType f)" "length (ArgsType info) = length ps"
    using decode_args_plain[OF assms(1,2,3,5,4)] assms(4) by (auto simp: vals_def comp_def split_def)
  then show "decode_in env (InType f) (ArgsType info) (Args info) = Ret (Inr (map Some vals))" "length (Args info) = length (InType f)"
    using assms(4) by (auto simp: decode_in_def)
  show "length vals = length (InType f)" using assms(4) by (simp add: vals_def)
qed

section \<open>Properties\<close>

text \<open>C19: Every call is answered exactly once. Whatever function is asked for, whatever the
  arguments, and whether the function returns, returns too much, or panics: for a call that wants
  a reply exactly one is handed to the transport, with its correlation id and its reply subject,
  and for one that does not none is;
  the counters of running calls are what they were before. A place of the goroutine control is
  given back only if the call got as far as running: for an unknown function and for a wrong
  number of arguments it is taken and never given back.\<close>

theorem every_call_answered_once:
  "(if Reply info
    then \<exists>res. r_Cid res = Cid info \<and> replies (runFunc env ev info s) = replies s @ [(ReplyTo info, res)]
    else replies (runFunc env ev info s) = replies s) \<and>
   executing (runFunc env ev info s) = executing s \<and> wg (runFunc env ev info s) = wg s \<and>
   slots (runFunc env ev info s) = slots s + (if rs_control s \<and> \<not> runnable info s then 1 else 0)"
  using runFunc_answers[of info s env ev] by (auto simp: answers_def split: if_splits)

text \<open>C4: A remote call computes what the local call would. For a registered function with ordinary
  parameter types and a caller whose arguments encode: the function is applied to the values the
  caller passed (numbers bit for bit, maps as JSON gives them back, a trace with a span of its
  own), the module's state becomes what the function makes it, and when the function returns a
  value and no error, the caller's \<open>CallArgs\<close> returns that value.\<close>

theorem remote_call_computes_local_call:
  assumes "json_ok norm env" "encode_params env 0 ps = Inr (ArgsType info, Args info)" "\<forall>a \<in> set ps. \<not> is_other a"
    and "rs_functions s (Fn info) = Some f" "length (InType f) = length ps" "\<forall>i \<in> set (InType f). is_plain i"
    and "\<forall>l. rs_listener s = Some l \<longrightarrow> BeforeHandle l (Fn info) info = None" "Reply info"
    and "Function f (map (\<lambda>(i, a). plain_value i (received norm env [] a)) (zip (InType f) ps)) (world s) =
      (Inr [OValue v, OValue RNil], w)"
    and "ArgsTypeAnd2Bytes env v = (ty, b, None)" "\<not> is_other v"
  shows "world (runFunc env ev info s) = w \<and>
    (\<exists>res. replies (runFunc env ev info s) = replies s @ [(ReplyTo info, res)] \<and>
       CallArgs_result env (Some res) = Ret (Inr (received norm env [] v)))"
proof -
  note d = encoded_args_decode[OF assms(1-3,5,6)]
  from runFunc_result[OF assms(4) d(2) assms(7,8) d(1,3) assms(9) _ assms(10), of "[]" ev]
  show ?thesis using roundtrip_plain[OF assms(1,10,11)]
    by (simp add: result_error_def NewResultInfo_def CallArgs_result_def)
qed

definition next_number :: "(unit, unit, 32 word, nat) FunctionInfo" where
  "next_number = \<lparr>InType = [In_plain True (\<lambda>_. None) 0 (\<lambda>v. case v of RInt32 n \<Rightarrow> n | _ \<Rightarrow> 0)],
     Function = (\<lambda>vs w. (Inr [OValue (RInt32 (hd vs + 1)), OValue RNil], w + 1)), Goroutine = False\<rparr>"

definition number_server :: "(unit, unit, 32 word, nat) RPCServer" where
  "number_server = (NewRPCServer 0)\<lparr>rs_functions := [''next'' \<mapsto> next_number]\<rparr>"

definition number_call :: rpc_info where
  "number_call = CallArgs_info ''next'' [INT_tag] [Int32ToBytes 41] ''c'' ''me'' 0 0 True"

theorem remote_call_computes_local_call_witness:
  "world (runFunc plain_env (\<lambda>_. ()) number_call number_server) = 1 \<and>
   (\<exists>res. replies (runFunc plain_env (\<lambda>_. ()) number_call number_server) = [([], res)] \<and>
      CallArgs_result plain_env (Some res) = Ret (Inr (RInt32 42)))"
proof -
  have "world (runFunc plain_env (\<lambda>_. ()) number_call number_server) = 1 \<and>
    (\<exists>res. replies (runFunc plain_env (\<lambda>_. ()) number_call number_server) =
         replies number_server @ [(ReplyTo number_call, res)] \<and>
       CallArgs_result plain_env (Some res) = Ret (Inr (received id plain_env [] (RInt32 42))))"
    by (rule remote_call_computes_local_call[where ps = "[RInt32 41]" and f = next_number and ty = INT_tag
          and b = "Int32ToBytes 42"])
      (simp_all add: json_ok_def plain_env_def ArgsTypeAnd2Bytes_def number_call_def CallArgs_info_def
        number_server_def NewRPCServer_def next_number_def plain_value_def received_def)
  then show ?thesis by (simp add: received_def number_server_def NewRPCServer_def number_call_def CallArgs_info_def)
qed

end
