(* ===== verification/Registry.thy ===== *)
theory Registry
  imports Mqant_Prelude "HOL-Library.Sublist" "HOL-Library.Char_ord" "HOL-Library.List_Lexorder"
    "HOL-Library.Product_Lexorder"
begin

text \<open>
  Service discovery data (\<^verbatim>\<open>src/registry/service.go\<close>), the choice of the newest instance of each
  server (\<^verbatim>\<open>src/registry/latest.go\<close>), and the registry kept in memory
  (\<^verbatim>\<open>src/registry/mock/mock.go\<close>, \<^verbatim>\<open>src/registry/mock/helper.go\<close>). Pointers to services and nodes
  are values: no operation here changes a node in place. Strings are compared byte by byte
  (\<open>List_Lexorder\<close>), as Go does.
\<close>

section \<open>The data\<close>

datatype rvalue = Value (v_name: string) (v_type: string) (v_values: "rvalue list")

record endpoint =
  ep_Name :: string
  ep_Request :: "rvalue option"
  ep_Response :: "rvalue option"
  ep_Metadata :: "smap option"

record node =
  StartedAt :: int
  ServerID :: string
  InstanceID :: string
  Address :: string
  Port :: int
  nd_Metadata :: "smap option"

record service =
  Name :: string
  Version :: string
  sv_Metadata :: "smap option"
  Endpoints :: "endpoint list"
  Nodes :: "node list"

section \<open>The newest instance of every server\<close>

definition route_key :: "string \<Rightarrow> node \<Rightarrow> string" where
  "route_key nm n = nm @ CHR 0x00 # ServerID n"

text \<open>The positions of the nodes, in the order of the two loops.\<close>

definition positions :: "service list \<Rightarrow> ((nat \<times> nat) \<times> string \<times> node) list" where
  "positions services =
     concat (map (\<lambda>(si, s). map (\<lambda>(ni, n). ((si, ni), Name s, n)) (enumerate 0 (Nodes s)))
       (enumerate 0 services))"

definition node_at :: "service list \<Rightarrow> nat \<times> nat \<Rightarrow> node" where
  "node_at services p = Nodes (services ! fst p) ! snd p"

definition latest_step ::
    "service list \<Rightarrow> (nat \<times> nat) \<times> string \<times> node \<Rightarrow> (string \<rightharpoonup> nat \<times> nat) \<Rightarrow> string \<rightharpoonup> nat \<times> nat" where
  "latest_step services e latest =
     (case e of (p, nm, n) \<Rightarrow>
        if ServerID n = [] then latest
        else (let key = route_key nm n
              in case latest key of
                   Some current \<Rightarrow>
                     (let previous = node_at services current
                      in if StartedAt n < StartedAt previous \<or>
                            StartedAt n = StartedAt previous \<and> InstanceID n \<le> InstanceID previous
                         then latest else latest(key \<mapsto> p))
                 | None \<Rightarrow> latest(key \<mapsto> p)))"

definition latest_map :: "service list \<Rightarrow> string \<rightharpoonup> nat \<times> nat" where
  "latest_map services = fold (latest_step services) (positions services) Map.empty"

text \<open>A missing key of a Go map reads as the zero position.\<close>

definition keep_node :: "(string \<rightharpoonup> nat \<times> nat) \<Rightarrow> nat \<times> nat \<Rightarrow> string \<Rightarrow> node \<Rightarrow> bool" where
  "keep_node latest p nm n \<longleftrightarrow>
     \<not> (ServerID n \<noteq> [] \<and> (case latest (route_key nm n) of None \<Rightarrow> (0, 0) | Some q \<Rightarrow> q) \<noteq> p)"

definition latest_nodes :: "(string \<rightharpoonup> nat \<times> nat) \<Rightarrow> nat \<Rightarrow> service \<Rightarrow> node list" where
  "latest_nodes latest si s =
     map snd (filter (\<lambda>(ni, n). keep_node latest (si, ni) (Name s) n) (enumerate 0 (Nodes s)))"

definition LatestServices :: "service list \<Rightarrow> service list" where
  "LatestServices services =
     (let latest = latest_map services
      in concat (map (\<lambda>(si, s).
           let nodes = latest_nodes latest si s
           in if length nodes > 0 then [s\<lparr>Nodes := nodes\<rparr>] else []) (enumerate 0 services)))"

subsection \<open>Its specification\<close>

text \<open>The nodes with the name of their service, in order.\<close>

definition all_nodes :: "service list \<Rightarrow> (string \<times> node) list" where
  "all_nodes services = concat (map (\<lambda>s. map (Pair (Name s)) (Nodes s)) services)"

definition node_rank :: "node \<Rightarrow> int \<times> string" where
  "node_rank n = (StartedAt n, InstanceID n)"

definition labelled :: "string \<times> node \<Rightarrow> bool" where
  "labelled x \<longleftrightarrow> ServerID (snd x) \<noteq> []"

definition key_of :: "string \<times> node \<Rightarrow> string" where
  "key_of x = route_key (fst x) (snd x)"

lemma rank_le_iff:
  "node_rank n \<le> node_rank m \<longleftrightarrow>
     StartedAt n < StartedAt m \<or> StartedAt n = StartedAt m \<and> InstanceID n \<le> InstanceID m"
  by (auto simp: node_rank_def less_eq_prod_def)

lemma positions_mem:
  "(p, nm, n) \<in> set (positions services) \<longleftrightarrow>
     fst p < length services \<and> snd p < length (Nodes (services ! fst p)) \<and>
     nm = Name (services ! fst p) \<and> n = node_at services p"
proof (cases p)
  case (Pair si ni)
  have "((si, ni), nm, n) \<in> set (positions services) \<longleftrightarrow>
      (\<exists>s. (si, s) \<in> set (enumerate 0 services) \<and> nm = Name s \<and> (ni, n) \<in> set (enumerate 0 (Nodes s)))"
    by (force simp: positions_def)
  then show ?thesis
    using Pair by (auto simp: in_set_enumerate_eq node_at_def)
qed

lemma latest_fold_inv:
  assumes "set xs \<subseteq> set (positions services)"
  shows "(fold (latest_step services) xs Map.empty k = None \<longleftrightarrow>
      (\<forall>(p, x) \<in> set xs. labelled x \<longrightarrow> key_of x \<noteq> k)) \<and>
    (\<forall>p. fold (latest_step services) xs Map.empty k = Some p \<longrightarrow>
      (\<exists>x. (p, x) \<in> set xs \<and> labelled x \<and> key_of x = k \<and>
        (\<forall>(q, y) \<in> set xs. labelled y \<and> key_of y = k \<longrightarrow> node_rank (snd y) \<le> node_rank (snd x))))"
  using assms
proof (induction xs rule: rev_induct)
  case (snoc e xs)
  obtain p nm n where e: "e = (p, nm, n)" by (cases e) auto
  let ?m = "fold (latest_step services) xs Map.empty"
  have IH: "(?m k = None \<longleftrightarrow> (\<forall>(p, x) \<in> set xs. labelled x \<longrightarrow> key_of x \<noteq> k))"
    "\<And>p. ?m k = Some p \<Longrightarrow> (\<exists>x. (p, x) \<in> set xs \<and> labelled x \<and> key_of x = k \<and>
        (\<forall>(q, y) \<in> set xs. labelled y \<and> key_of y = k \<longrightarrow> node_rank (snd y) \<le> node_rank (snd x)))"
    using snoc by auto
  show ?case
  proof (cases "labelled (nm, n) \<and> key_of (nm, n) = k")
    case False
    then have "latest_step services e ?m k = ?m k"
      by (auto simp: e latest_step_def labelled_def key_of_def Let_def split: option.splits)
    with IH False show ?thesis by (fastforce simp: e)
  next
    case True
    then have lab: "ServerID n \<noteq> []" and k: "route_key nm n = k"
      by (simp_all add: labelled_def key_of_def)
    show ?thesis
    proof (cases "?m k")
      case None
      with IH(1) lab k True show ?thesis by (fastforce simp: e latest_step_def)
    next
      case (Some q)
      with IH(2) obtain x where x: "(q, x) \<in> set xs" "labelled x" "key_of x = k"
        "\<forall>(q, y) \<in> set xs. labelled y \<and> key_of y = k \<longrightarrow> node_rank (snd y) \<le> node_rank (snd x)" by blast
      then have q: "node_at services q = snd x"
        using snoc.prems positions_mem[of q "fst x" "snd x"] by auto
      show ?thesis
      proof (cases "node_rank n \<le> node_rank (snd x)")
        case True
        then have "latest_step services e ?m = ?m"
          using Some lab k q by (simp add: e latest_step_def rank_le_iff Let_def)
        with Some x True show ?thesis by (auto simp: e intro!: exI[of _ "fst x"] exI[of _ "snd x"])
      next
        case False
        then have "latest_step services e ?m = ?m(k \<mapsto> p)"
          using Some lab k q by (auto simp: e latest_step_def rank_le_iff Let_def)
        moreover have "node_rank (snd x) \<le> node_rank n" using False by simp
        with x(4) have "\<forall>(q, y) \<in> set xs. labelled y \<and> key_of y = k \<longrightarrow> node_rank (snd y) \<le> node_rank n"
          using order_trans by blast
        ultimately show ?thesis
          using \<open>labelled (nm, n) \<and> key_of (nm, n) = k\<close> by (simp add: e) blast
      qed
    qed
  qed
qed auto

lemma distinct_positions: "distinct (map fst (positions services))"
proof -
  let ?row = "\<lambda>(si, s). map (\<lambda>(ni, n). ((si, ni), Name s, n)) (enumerate 0 (Nodes s))"
  have row: "map fst (?row (si, s)) = map (Pair si) [0..<length (Nodes s)]" for si s
    by (rule nth_equalityI) (simp_all add: nth_enumerate_eq)
  have "distinct (map fst (concat (map ?row (enumerate k services)))) \<and>
      (\<forall>p \<in> set (map fst (concat (map ?row (enumerate k services)))). k \<le> fst p)" for k
  proof (induction services arbitrary: k)
    case (Cons s services)
    have "map fst (concat (map ?row (enumerate k (s # services)))) =
        map (Pair k) [0..<length (Nodes s)] @ map fst (concat (map ?row (enumerate (Suc k) services)))"
      using row[of k s] by simp
    moreover define R where "R = map fst (concat (map ?row (enumerate (Suc k) services)))"
    moreover have "distinct R" "\<forall>p \<in> set R. Suc k \<le> fst p" using Cons[of "Suc k"] by (simp_all add: R_def)
    moreover have "distinct (map (Pair k) [0..<n])" "\<forall>p \<in> set (map (Pair k) [0..<n]). fst p = k" for n
      by (auto simp: distinct_map inj_on_def)
    moreover have "set (map (Pair k) [0..<n]) \<inter> set R = {}" for n
      using \<open>\<forall>p \<in> set R. Suc k \<le> fst p\<close> by fastforce
    ultimately show ?case by (simp only: distinct_append set_append) (metis Suc_leD Un_iff order_refl)
  qed simp
  then show ?thesis unfolding positions_def by blast
qed

lemma all_nodes_positions: "all_nodes services = map snd (positions services)"
proof -
  have row: "map (Pair (Name s)) (Nodes s) = map (\<lambda>(ni, n). (Name s, n)) (enumerate 0 (Nodes s))" for s
    by (rule nth_equalityI) (simp_all add: nth_enumerate_eq)
  have "all_nodes services =
      concat (map ((\<lambda>s. map (\<lambda>(ni, n). (Name s, n)) (enumerate 0 (Nodes s))) \<circ> snd) (enumerate 0 services))"
    unfolding all_nodes_def row map_map[symmetric] by simp
  then show ?thesis
    by (simp add: positions_def map_concat comp_def split_def)
qed

lemma all_nodes_LatestServices:
  "all_nodes (LatestServices services) =
     map snd (filter (\<lambda>(p, nm, n). keep_node (latest_map services) p nm n) (positions services))"
proof -
  let ?m = "latest_map services"
  have row: "map snd (filter (\<lambda>(p, nm, n). keep_node ?m p nm n)
        (map (\<lambda>(ni, n). ((si, ni), Name s, n)) (enumerate 0 (Nodes s)))) =
      map (Pair (Name s)) (latest_nodes ?m si s)" for si s
    by (simp add: latest_nodes_def filter_map comp_def split_def)
  have drop_empty: "all_nodes (concat (map (\<lambda>(si, s).
        let nodes = f si s in if length nodes > 0 then [s\<lparr>Nodes := nodes\<rparr>] else []) xs)) =
      concat (map (\<lambda>(si, s). map (Pair (Name s)) (f si s)) xs)"
    for f :: "nat \<Rightarrow> service \<Rightarrow> node list" and xs
    by (induction xs) (auto simp: all_nodes_def Let_def)
  have "all_nodes (LatestServices services) =
      concat (map (\<lambda>(si, s). map (Pair (Name s)) (latest_nodes ?m si s)) (enumerate 0 services))"
    unfolding LatestServices_def by (subst Let_def) (rule drop_empty)
  with row show ?thesis
    by (simp add: positions_def filter_concat map_concat comp_def split_def)
qed

lemma latest_map_spec:
  "latest_map services k = Some p \<Longrightarrow>
     \<exists>x. (p, x) \<in> set (positions services) \<and> labelled x \<and> key_of x = k \<and>
       (\<forall>y \<in> set (all_nodes services). labelled y \<and> key_of y = k \<longrightarrow> node_rank (snd y) \<le> node_rank (snd x))"
proof -
  assume "latest_map services k = Some p"
  then obtain x where "(p, x) \<in> set (positions services)" "labelled x" "key_of x = k"
    and le: "\<forall>(q, y) \<in> set (positions services). labelled y \<and> key_of y = k \<longrightarrow> node_rank (snd y) \<le> node_rank (snd x)"
    using latest_fold_inv[OF subset_refl, of services k] unfolding latest_map_def by blast
  moreover have "\<forall>y \<in> set (all_nodes services). labelled y \<and> key_of y = k \<longrightarrow> node_rank (snd y) \<le> node_rank (snd x)"
  proof
    fix y assume "y \<in> set (all_nodes services)"
    then obtain q where "(q, y) \<in> set (positions services)" by (auto simp: all_nodes_positions)
    with le show "labelled y \<and> key_of y = k \<longrightarrow> node_rank (snd y) \<le> node_rank (snd x)" by blast
  qed
  ultimately show ?thesis by blast
qed

lemma latest_map_labelled:
  assumes "x \<in> set (all_nodes services)" "labelled x"
  shows "latest_map services (key_of x) \<noteq> None"
proof -
  obtain q where "(q, x) \<in> set (positions services)" using assms(1) by (auto simp: all_nodes_positions)
  with assms(2) show ?thesis
    using latest_fold_inv[OF subset_refl, of services "key_of x"] unfolding latest_map_def by blast
qed

lemma keep_labelled:
  assumes "(p, x) \<in> set (positions services)" "labelled x"
  shows "keep_node (latest_map services) p (fst x) (snd x) \<longleftrightarrow> latest_map services (key_of x) = Some p"
proof -
  have "x \<in> set (all_nodes services)" using assms(1) by (force simp: all_nodes_positions)
  then have "latest_map services (key_of x) \<noteq> None" using assms(2) by (rule latest_map_labelled)
  with assms(2) show ?thesis by (auto simp: keep_node_def labelled_def key_of_def)
qed

lemma LatestServices_newest:
  assumes "x \<in> set (all_nodes (LatestServices services))" "labelled x"
    "y \<in> set (all_nodes services)" "labelled y" "key_of y = key_of x"
  shows "node_rank (snd y) \<le> node_rank (snd x)"
proof -
  obtain p where p: "(p, x) \<in> set (positions services)" "keep_node (latest_map services) p (fst x) (snd x)"
    using assms(1) by (auto simp: all_nodes_LatestServices)
  with keep_labelled assms(2) have "latest_map services (key_of x) = Some p" by blast
  from latest_map_spec[OF this] obtain z where z: "(p, z) \<in> set (positions services)"
    "\<forall>y \<in> set (all_nodes services). labelled y \<and> key_of y = key_of x \<longrightarrow> node_rank (snd y) \<le> node_rank (snd z)"
    by blast
  have "z = x" using p(1) z(1) distinct_positions[of services] by (metis eq_key_imp_eq_value)
  with z(2) assms(3-5) show ?thesis by blast
qed

lemma LatestServices_unique:
  assumes "x \<in> set (all_nodes services)" "labelled x"
  shows "length (filter (\<lambda>y. labelled y \<and> key_of y = key_of x) (all_nodes (LatestServices services))) = 1"
proof -
  obtain p where p: "latest_map services (key_of x) = Some p"
    using latest_map_labelled[OF assms] by blast
  from latest_map_spec[OF p] obtain z where z: "(p, z) \<in> set (positions services)" "labelled z"
    "key_of z = key_of x" by blast
  let ?P = "\<lambda>e. keep_node (latest_map services) (fst e) (fst (snd e)) (snd (snd e)) \<and>
    labelled (snd e) \<and> key_of (snd e) = key_of x"
  have "?P e \<longleftrightarrow> e = (p, z)" if "e \<in> set (positions services)" for e
  proof
    assume "?P e"
    then have "fst e = p" using keep_labelled[of "fst e" "snd e" services] that p by auto
    then show "e = (p, z)"
      using that z(1) distinct_positions[of services] by (metis eq_key_imp_eq_value prod.collapse)
  qed (use keep_labelled[OF z(1,2)] z p in auto)
  then have "filter ?P (positions services) = filter ((=) (p, z)) (positions services)"
    by (intro filter_cong) auto
  moreover have "length (filter ((=) (p, z)) (positions services)) = 1"
    using z(1) distinct_positions[of services]
    by (simp add: distinct_map distinct_length_filter)
  ultimately show ?thesis
    by (simp add: all_nodes_LatestServices filter_map comp_def split_def conj_commute)
qed

section \<open>The registry in memory\<close>

fun replace_node :: "node \<Rightarrow> node list \<Rightarrow> node list option" where
  "replace_node n [] = None"
| "replace_node n (o_n # ns) =
     (if InstanceID o_n = InstanceID n then Some (n # ns)
      else map_option ((#) o_n) (replace_node n ns))"

definition add_node :: "node list \<Rightarrow> node \<Rightarrow> node list" where
  "add_node old n = (case replace_node n old of Some ns \<Rightarrow> ns | None \<Rightarrow> old @ [n])"

definition addNodes :: "node list \<Rightarrow> node list \<Rightarrow> node list" where
  "addNodes old neu = foldl add_node old neu"

fun replace_service :: "service \<Rightarrow> service list \<Rightarrow> service list option" where
  "replace_service s [] = None"
| "replace_service s (o_s # ss) =
     (if Version o_s = Version s then Some (s\<lparr>Nodes := addNodes (Nodes o_s) (Nodes s)\<rparr> # ss)
      else map_option ((#) o_s) (replace_service s ss))"

definition add_service :: "service list \<Rightarrow> service \<Rightarrow> service list" where
  "add_service old s = (case replace_service s old of Some ss \<Rightarrow> ss | None \<Rightarrow> old @ [s])"

definition addServices :: "service list \<Rightarrow> service list \<Rightarrow> service list" where
  "addServices old neu = foldl add_service old neu"

definition delNodes :: "node list \<Rightarrow> node list \<Rightarrow> node list" where
  "delNodes old del = filter (\<lambda>o_n. \<not> (\<exists>n \<in> set del. InstanceID o_n = InstanceID n)) old"

text \<open>One service against the list of deletions: its remaining nodes, and whether it goes.\<close>

definition del_from ::
    "service list \<Rightarrow> service \<Rightarrow> service \<times> bool" where
  "del_from del o_s =
     foldl (\<lambda>(o_s, rem) s.
        if Version o_s = Version s
        then (let o_s = o_s\<lparr>Nodes := delNodes (Nodes o_s) (Nodes s)\<rparr>
              in (o_s, rem \<or> Nodes o_s = []))
        else (o_s, rem)) (o_s, False) del"

definition delServices :: "service list \<Rightarrow> service list \<Rightarrow> service list" where
  "delServices old del =
     concat (map (\<lambda>o_s. case del_from del o_s of (o_s, rem) \<Rightarrow> if rem then [] else [o_s]) old)"

type_synonym mock_registry = "string \<rightharpoonup> service list"

definition mock_services :: "mock_registry \<Rightarrow> string \<Rightarrow> service list" where
  "mock_services m nm = (case m nm of None \<Rightarrow> [] | Some ss \<Rightarrow> ss)"

definition registry_ErrNotFound :: go_error where
  "registry_ErrNotFound = Errorf ''not found'' []"

definition mock_GetService :: "mock_registry \<Rightarrow> string \<Rightarrow> go_error + service list" where
  "mock_GetService m nm =
     (case m nm of
        None \<Rightarrow> Inl registry_ErrNotFound
      | Some s \<Rightarrow> if length s = 0 then Inl registry_ErrNotFound else Inr s)"

definition mock_Register :: "service \<Rightarrow> mock_registry \<Rightarrow> mock_registry" where
  "mock_Register s m = m(Name s \<mapsto> addServices (mock_services m (Name s)) [s])"

definition mock_Deregister :: "service \<Rightarrow> mock_registry \<Rightarrow> mock_registry" where
  "mock_Deregister s m = m(Name s \<mapsto> delServices (mock_services m (Name s)) [s])"

section \<open>Services as maps of maps\<close>

text \<open>
  What a list of services of one name means: for each version, the node of each instance. The
  two stores of service lists, the registry in memory and the selector's cache, are specified by
  what adding and deleting does to this meaning.
\<close>

definition node_map :: "node list \<Rightarrow> string \<rightharpoonup> node" where
  "node_map ns = map_of (map (\<lambda>n. (InstanceID n, n)) ns)"

definition sv_abs :: "service list \<Rightarrow> string \<rightharpoonup> (string \<rightharpoonup> node)" where
  "sv_abs ss = map_of (map (\<lambda>s. (Version s, node_map (Nodes s))) ss)"

definition nodes_ok :: "node list \<Rightarrow> bool" where
  "nodes_ok ns \<longleftrightarrow> ns \<noteq> [] \<and> distinct (map InstanceID ns)"

definition services_ok :: "service list \<Rightarrow> bool" where
  "services_ok ss \<longleftrightarrow> distinct (map Version ss) \<and> (\<forall>s \<in> set ss. nodes_ok (Nodes s))"

definition abs_add :: "service \<Rightarrow> (string \<rightharpoonup> (string \<rightharpoonup> node)) \<Rightarrow> string \<rightharpoonup> (string \<rightharpoonup> node)" where
  "abs_add s v = v(Version s \<mapsto>
     (case v (Version s) of None \<Rightarrow> Map.empty | Some m \<Rightarrow> m) ++ node_map (Nodes s))"

definition abs_del :: "service \<Rightarrow> (string \<rightharpoonup> (string \<rightharpoonup> node)) \<Rightarrow> string \<rightharpoonup> (string \<rightharpoonup> node)" where
  "abs_del s v =
     (case v (Version s) of
        None \<Rightarrow> v
      | Some m \<Rightarrow>
          let m' = m |` (- set (map InstanceID (Nodes s)))
          in v(Version s := (if m' = Map.empty then None else Some m')))"

datatype store_event = Added service | Deleted service

fun event_service :: "store_event \<Rightarrow> service" where
  "event_service (Added s) = s"
| "event_service (Deleted s) = s"

fun abs_event :: "store_event \<Rightarrow> (string \<rightharpoonup> (string \<rightharpoonup> node)) \<Rightarrow> string \<rightharpoonup> (string \<rightharpoonup> node)" where
  "abs_event (Added s) = abs_add s"
| "abs_event (Deleted s) = abs_del s"

definition event_ok :: "store_event \<Rightarrow> bool" where
  "event_ok e \<longleftrightarrow> nodes_ok (Nodes (event_service e))"

fun store_handle ::
    "(service list \<Rightarrow> service \<Rightarrow> service list) \<Rightarrow> (service list \<Rightarrow> service \<Rightarrow> service list)
      \<Rightarrow> service list \<Rightarrow> store_event \<Rightarrow> service list" where
  "store_handle add del ss (Added s) = add ss s"
| "store_handle add del ss (Deleted s) = del ss s"

locale service_store =
  fixes add :: "service list \<Rightarrow> service \<Rightarrow> service list"
    and del :: "service list \<Rightarrow> service \<Rightarrow> service list"
  assumes add_ok: "services_ok ss \<Longrightarrow> nodes_ok (Nodes s) \<Longrightarrow> services_ok (add ss s)"
    and add_abs: "services_ok ss \<Longrightarrow> nodes_ok (Nodes s) \<Longrightarrow> sv_abs (add ss s) = abs_add s (sv_abs ss)"
    and del_ok: "services_ok ss \<Longrightarrow> nodes_ok (Nodes s) \<Longrightarrow> services_ok (del ss s)"
    and del_abs: "services_ok ss \<Longrightarrow> nodes_ok (Nodes s) \<Longrightarrow> sv_abs (del ss s) = abs_del s (sv_abs ss)"
begin

lemma handle_ok: "services_ok ss \<Longrightarrow> event_ok e \<Longrightarrow> services_ok (store_handle add del ss e)"
  by (cases e) (simp_all add: event_ok_def add_ok del_ok)

lemma handle_abs: "services_ok ss \<Longrightarrow> event_ok e \<Longrightarrow> sv_abs (store_handle add del ss e) = abs_event e (sv_abs ss)"
  by (cases e) (simp_all add: event_ok_def add_abs del_abs)

lemma history_abs:
  "services_ok ss \<Longrightarrow> \<forall>e \<in> set es. event_ok e \<Longrightarrow>
   services_ok (foldl (store_handle add del) ss es) \<and> sv_abs (foldl (store_handle add del) ss es) = fold abs_event es (sv_abs ss)"
  by (induction es arbitrary: ss) (simp_all add: handle_ok handle_abs)

end

subsection \<open>The registry in memory implements the store\<close>

lemma replace_node_None: "replace_node n old = None \<longleftrightarrow> InstanceID n \<notin> set (map InstanceID old)"
  by (induction old) auto

lemma replace_node_Some:
  "replace_node n old = Some ns \<Longrightarrow>
   map InstanceID ns = map InstanceID old \<and> node_map ns = (node_map old)(InstanceID n \<mapsto> n)"
  by (induction old arbitrary: ns) (auto simp: node_map_def fun_eq_iff split: if_splits)

lemma node_map_snoc:
  "InstanceID n \<notin> set (map InstanceID old) \<Longrightarrow> node_map (old @ [n]) = (node_map old)(InstanceID n \<mapsto> n)"
  by (induction old) (auto simp: node_map_def fun_eq_iff)

lemma add_node_spec:
  "node_map (add_node old n) = (node_map old)(InstanceID n \<mapsto> n)"
  "distinct (map InstanceID old) \<Longrightarrow> distinct (map InstanceID (add_node old n))"
  "add_node old n \<noteq> []"
proof -
  show "node_map (add_node old n) = (node_map old)(InstanceID n \<mapsto> n)"
    using node_map_snoc replace_node_None[of n old] replace_node_Some[of n old]
    by (auto simp: add_node_def split: option.splits)
  show "distinct (map InstanceID old) \<Longrightarrow> distinct (map InstanceID (add_node old n))"
    using replace_node_None[of n old] replace_node_Some[of n old]
    by (auto simp: add_node_def split: option.splits)
  show "add_node old n \<noteq> []"
    by (cases old) (auto simp: add_node_def split: option.splits)
qed

lemma node_map_dom: "dom (node_map ns) = InstanceID ` set ns"
  by (force simp: node_map_def dom_map_of_conv_image_fst image_iff)

lemma node_map_Cons: "node_map (n # ns) = (node_map ns)(InstanceID n \<mapsto> n)"
  by (simp add: node_map_def)

lemma addNodes_spec:
  "distinct (map InstanceID neu) \<Longrightarrow> node_map (addNodes old neu) = node_map old ++ node_map neu"
  "distinct (map InstanceID old) \<Longrightarrow> distinct (map InstanceID (addNodes old neu))"
  "old \<noteq> [] \<Longrightarrow> addNodes old neu \<noteq> []"
proof -
  show "distinct (map InstanceID neu) \<Longrightarrow> node_map (addNodes old neu) = node_map old ++ node_map neu"
  proof (induction neu arbitrary: old)
    case Nil
    then show ?case by (simp add: addNodes_def node_map_def)
  next
    case (Cons n neu)
    then have "node_map (addNodes old (n # neu)) = (node_map old)(InstanceID n \<mapsto> n) ++ node_map neu"
      by (simp add: addNodes_def add_node_spec)
    moreover have "InstanceID n \<notin> dom (node_map neu)" using Cons.prems by (simp add: node_map_dom)
    then have "(node_map old)(InstanceID n \<mapsto> n) ++ node_map neu = (node_map old ++ node_map neu)(InstanceID n \<mapsto> n)"
      by (rule map_add_upd_left)
    ultimately show ?case by (simp only: node_map_Cons map_add_upd)
  qed
  show "distinct (map InstanceID old) \<Longrightarrow> distinct (map InstanceID (addNodes old neu))"
    unfolding addNodes_def by (induction neu arbitrary: old) (simp_all add: add_node_spec)
  show "old \<noteq> [] \<Longrightarrow> addNodes old neu \<noteq> []"
    unfolding addNodes_def by (induction neu arbitrary: old) (simp_all add: add_node_spec)
qed

lemma sv_abs_Cons: "sv_abs (s # ss) = (sv_abs ss)(Version s \<mapsto> node_map (Nodes s))"
  by (simp add: sv_abs_def)

lemma sv_abs_snoc:
  "Version s \<notin> set (map Version ss) \<Longrightarrow> sv_abs (ss @ [s]) = (sv_abs ss)(Version s \<mapsto> node_map (Nodes s))"
  by (induction ss) (auto simp: sv_abs_def fun_eq_iff)

lemma sv_abs_None: "sv_abs ss v = None \<longleftrightarrow> v \<notin> set (map Version ss)"
  by (force simp: sv_abs_def map_of_eq_None_iff)

lemma replace_service_None: "replace_service s old = None \<longleftrightarrow> Version s \<notin> set (map Version old)"
  by (induction old) auto

lemma replace_service_Some:
  "replace_service s old = Some ss \<Longrightarrow> services_ok old \<Longrightarrow> nodes_ok (Nodes s) \<Longrightarrow>
   map Version ss = map Version old \<and> services_ok ss \<and> sv_abs ss = abs_add s (sv_abs old)"
proof (induction old arbitrary: ss)
  case (Cons o_s old)
  show ?case
  proof (cases "Version o_s = Version s")
    case True
    then have ss: "ss = s\<lparr>Nodes := addNodes (Nodes o_s) (Nodes s)\<rparr> # old" using Cons.prems(1) by simp
    have "nodes_ok (addNodes (Nodes o_s) (Nodes s))"
      using Cons.prems(2) by (auto simp: services_ok_def nodes_ok_def addNodes_spec)
    with True ss Cons.prems(2,3) show ?thesis
      by (auto simp: services_ok_def sv_abs_Cons abs_add_def addNodes_spec nodes_ok_def fun_eq_iff)
  next
    case False
    then obtain ss' where ss': "replace_service s old = Some ss'" "ss = o_s # ss'"
      using Cons.prems(1) by auto
    have "services_ok old" using Cons.prems(2) by (simp add: services_ok_def)
    from Cons.IH[OF ss'(1) this Cons.prems(3)] False ss'(2) Cons.prems(2) show ?thesis
      by (auto simp: services_ok_def sv_abs_Cons abs_add_def fun_eq_iff)
  qed
qed simp

lemma add_service_spec:
  assumes "services_ok ss" "nodes_ok (Nodes s)"
  shows "services_ok (addServices ss [s])" "sv_abs (addServices ss [s]) = abs_add s (sv_abs ss)"
proof -
  show "services_ok (addServices ss [s])"
    using assms replace_service_None[of s ss] replace_service_Some[of s ss]
    by (auto simp: addServices_def add_service_def services_ok_def split: option.splits)
  show "sv_abs (addServices ss [s]) = abs_add s (sv_abs ss)"
    using assms replace_service_None[of s ss] replace_service_Some[of s ss] sv_abs_snoc[of s ss]
      sv_abs_None[of ss "Version s"]
    by (auto simp: addServices_def add_service_def abs_add_def split: option.splits)
qed

lemma node_map_filter:
  "node_map (filter (\<lambda>n. InstanceID n \<notin> I) ns) = node_map ns |` (- I)"
  by (induction ns) (auto simp: node_map_def restrict_map_def fun_eq_iff)

lemma delNodes_eq: "delNodes old del = filter (\<lambda>n. InstanceID n \<notin> set (map InstanceID del)) old"
  by (auto simp: delNodes_def image_iff intro!: filter_cong)

lemma node_map_delNodes: "node_map (delNodes old del) = node_map old |` (- set (map InstanceID del))"
  unfolding delNodes_eq by (rule node_map_filter)

lemma node_map_empty: "node_map ns = Map.empty \<longleftrightarrow> ns = []"
  by (auto simp: node_map_def)

lemma del_service_Cons:
  "delServices (o_s # ss) [s] =
     (if Version o_s = Version s
      then (if delNodes (Nodes o_s) (Nodes s) = [] then []
            else [o_s\<lparr>Nodes := delNodes (Nodes o_s) (Nodes s)\<rparr>])
      else [o_s]) @ delServices ss [s]"
  by (simp add: delServices_def del_from_def Let_def)

lemma delServices_other: "Version s \<notin> set (map Version ss) \<Longrightarrow> delServices ss [s] = ss"
  by (induction ss) (auto simp: del_service_Cons, simp add: delServices_def)

lemma delServices_versions: "set (map Version (delServices ss [s])) \<subseteq> set (map Version ss)"
  by (induction ss) (auto simp: del_service_Cons, simp add: delServices_def)

lemma del_service_spec:
  assumes "services_ok ss"
  shows "services_ok (delServices ss [s]) \<and> sv_abs (delServices ss [s]) = abs_del s (sv_abs ss)"
  using assms
proof (induction ss)
  case Nil
  then show ?case by (simp add: delServices_def abs_del_def sv_abs_def services_ok_def)
next
  case (Cons o_s ss)
  have ok: "services_ok ss" "Version o_s \<notin> set (map Version ss)" "nodes_ok (Nodes o_s)"
    using Cons.prems by (simp_all add: services_ok_def)
  show ?case
  proof (cases "Version o_s = Version s")
    case True
    have rest: "delServices ss [s] = ss" using ok(2) True by (intro delServices_other) simp
    have abs: "sv_abs ss (Version s) = None" using ok(2) True by (simp add: sv_abs_None)
    let ?ns = "delNodes (Nodes o_s) (Nodes s)"
    have ns: "node_map (Nodes o_s) |` (- InstanceID ` set (Nodes s)) = node_map ?ns"
      by (simp add: node_map_delNodes)
    have "abs_del s (sv_abs (o_s # ss)) =
        (if ?ns = [] then sv_abs ss else (sv_abs ss)(Version s \<mapsto> node_map ?ns))"
      using abs by (simp add: abs_del_def sv_abs_Cons True ns node_map_empty Let_def fun_upd_idem)
    moreover have "nodes_ok ?ns" if "?ns \<noteq> []"
      using that ok(3) by (simp add: nodes_ok_def delNodes_def distinct_map_filter)
    ultimately show ?thesis
      using True rest ok Cons.prems by (simp add: del_service_Cons sv_abs_Cons services_ok_def fun_upd_def)
  next
    case False
    have "Version o_s \<notin> set (map Version (delServices ss [s]))"
      using ok(2) delServices_versions[of ss s] by blast
    with False ok Cons.IH show ?thesis
      by (auto simp: del_service_Cons sv_abs_Cons abs_del_def services_ok_def Let_def fun_eq_iff
          split: option.splits)
  qed
qed

interpretation mock_store: service_store "\<lambda>ss s. addServices ss [s]" "\<lambda>ss s. delServices ss [s]"
  by unfold_locales (use del_service_spec in \<open>auto simp: add_service_spec\<close>)

section \<open>Properties\<close>

lemma subseq_filter_snd: "subseq (map snd (filter P xs)) (map snd xs)"
  by (rule subseq_map) simp


definition sample_node :: "string \<Rightarrow> string \<Rightarrow> int \<Rightarrow> node" where
  "sample_node sid iid t = \<lparr>StartedAt = t, ServerID = sid, InstanceID = iid, Address = ''h'', Port = 1,
     nd_Metadata = None\<rparr>"

definition sample_service :: "string \<Rightarrow> node list \<Rightarrow> service" where
  "sample_service v ns = \<lparr>Name = ''chat'', Version = v, sv_Metadata = None, Endpoints = [], Nodes = ns\<rparr>"

definition two_versions :: "service list" where
  "two_versions = [sample_service ''1'' [sample_node ''a'' ''i1'' 5, sample_node [] ''i2'' 1],
     sample_service ''2'' [sample_node ''a'' ''i3'' 7]]"


text \<open>The registry in memory is a map of maps: whatever sequence of registrations and
  deregistrations of services with distinct instance ids, its list of services means exactly the
  result of the same sequence on the map from version and instance id to node, later
  registrations of an instance replacing earlier ones and a version without nodes disappearing.\<close>

theorem mock_registry_refines_maps:
  assumes "\<forall>e \<in> set es. event_ok e"
  shows "sv_abs (foldl (store_handle (\<lambda>ss s. addServices ss [s]) (\<lambda>ss s. delServices ss [s])) [] es) =
    fold abs_event es Map.empty"
  using mock_store.history_abs[of "[]" es] assms by (simp add: services_ok_def sv_abs_def)

theorem mock_registry_refines_maps_witness:
  "sv_abs (foldl (store_handle (\<lambda>ss s. addServices ss [s]) (\<lambda>ss s. delServices ss [s])) []
      [Added (sample_service ''1'' [sample_node ''a'' ''i1'' 5]), Deleted (sample_service ''1'' [sample_node ''a'' ''i1'' 5])]) =
    fold abs_event [Added (sample_service ''1'' [sample_node ''a'' ''i1'' 5]),
      Deleted (sample_service ''1'' [sample_node ''a'' ''i1'' 5])] Map.empty"
  by (rule mock_registry_refines_maps) (simp add: event_ok_def nodes_ok_def sample_service_def)

end
