(* ===== verification/Registry_Encoding.thy ===== *)
theory Registry_Encoding
  imports Registry Go_Strings
begin

text \<open>
  The tags that carry endpoints, metadata and version of a service through Consul
  (\<^verbatim>\<open>src/registry/encoding.go\<close>). Compression and JSON are the environment \<open>tag_env\<close>; an error is
  \<open>None\<close>. \<open>map_items\<close> is the order in which \<open>range\<close> visits a map. A JSON document that is \<open>null\<close>, which
  would decode to a nil endpoint, is not among the values of \<open>unjson_endpoint\<close>.
\<close>

section \<open>Tags\<close>

record tag_env =
  zlib_write :: "bytes \<Rightarrow> bytes option"
  zlib_read :: "bytes \<Rightarrow> bytes option"
  json_endpoint :: "endpoint \<Rightarrow> bytes option"
  unjson_endpoint :: "bytes \<Rightarrow> endpoint option"
  json_pair :: "string \<Rightarrow> string \<Rightarrow> bytes option"
  unjson_strings :: "bytes \<Rightarrow> smap option"
  map_items :: "smap \<Rightarrow> (string \<times> string) list"

definition tag_encode :: "tag_env \<Rightarrow> bytes \<Rightarrow> string" where
  "tag_encode E buf = (case zlib_write E buf of None \<Rightarrow> [] | Some b \<Rightarrow> hex_EncodeToString b)"

definition tag_decode :: "tag_env \<Rightarrow> string \<Rightarrow> bytes" where
  "tag_decode E d =
     (case hex_DecodeString d of
        None \<Rightarrow> []
      | Some hr \<Rightarrow> (case zlib_read E hr of None \<Rightarrow> [] | Some rbuf \<Rightarrow> rbuf))"

definition encodeEndpoints :: "tag_env \<Rightarrow> endpoint list \<Rightarrow> string list" where
  "encodeEndpoints E en =
     concat (map (\<lambda>e. case json_endpoint E e of None \<Rightarrow> [] | Some b \<Rightarrow> [''e-'' @ tag_encode E b]) en)"

text \<open>
  The loop the two decoders share: the buffers of the tags of one kind, in the format of the first
  of them. A tag of one character is indexed beyond its end.
\<close>

definition tag_buf :: "tag_env \<Rightarrow> string \<Rightarrow> bytes" where
  "tag_buf E tag =
     (if tag ! 1 = CHR ''='' then bytes_of_str (drop 2 tag)
      else if tag ! 1 = CHR ''-'' then tag_decode E (drop 2 tag) else [])"

fun scan_tags :: "tag_env \<Rightarrow> char \<Rightarrow> char \<Rightarrow> string list \<Rightarrow> bytes list outcome" where
  "scan_tags E kind ver [] = Ret []"
| "scan_tags E kind ver (tag # tags) =
     (if length tag = 0 \<or> hd tag \<noteq> kind then scan_tags E kind ver tags
      else if length tag = 1 then Panic ''index out of range''
      else if ver \<noteq> CHR 0x00 \<and> tag ! 1 \<noteq> ver then scan_tags E kind ver tags
      else outcome_bind (scan_tags E kind (tag ! 1) tags) (\<lambda>bufs. Ret (tag_buf E tag # bufs)))"

definition decodeEndpoints :: "tag_env \<Rightarrow> string list \<Rightarrow> endpoint list outcome" where
  "decodeEndpoints E tags =
     outcome_bind (scan_tags E CHR ''e'' (CHR 0x00) tags) (\<lambda>bufs.
       Ret (concat (map (\<lambda>b. case unjson_endpoint E b of None \<Rightarrow> [] | Some e \<Rightarrow> [e]) bufs)))"

definition encodeMetadata :: "tag_env \<Rightarrow> smap \<Rightarrow> string list" where
  "encodeMetadata E md =
     concat (map (\<lambda>(k, v). case json_pair E k v of None \<Rightarrow> [] | Some b \<Rightarrow> [''t-'' @ tag_encode E b]) (map_items E md))"

definition decodeMetadata :: "tag_env \<Rightarrow> string list \<Rightarrow> smap outcome" where
  "decodeMetadata E tags =
     outcome_bind (scan_tags E CHR ''t'' (CHR 0x00) tags) (\<lambda>bufs.
       Ret (foldl (\<lambda>md b. case unjson_strings E b of None \<Rightarrow> md | Some kv \<Rightarrow> md ++ kv) Map.empty bufs))"

definition encodeVersion :: "tag_env \<Rightarrow> string \<Rightarrow> string list" where
  "encodeVersion E v = [''v-'' @ tag_encode E (bytes_of_str v)]"

fun decodeVersion :: "tag_env \<Rightarrow> string list \<Rightarrow> string \<times> bool" where
  "decodeVersion E [] = ([], False)"
| "decodeVersion E (tag # tags) =
     (if length tag < 2 \<or> hd tag \<noteq> CHR ''v'' then decodeVersion E tags
      else if tag ! 1 = CHR ''='' then (drop 2 tag, True)
      else if tag ! 1 = CHR ''-'' then (str_of_bytes (tag_decode E (drop 2 tag)), True)
      else decodeVersion E tags)"

section \<open>What is encoded is decoded\<close>

text \<open>What the decoders rely on: zlib and JSON give back what they were given, \<open>range\<close> visits a map's
  entries once each.\<close>

definition zlib_ok :: "tag_env \<Rightarrow> bool" where
  "zlib_ok E \<longleftrightarrow> (\<forall>b. \<exists>z. zlib_write E b = Some z \<and> zlib_read E z = Some b)"

definition endpoint_ok :: "tag_env \<Rightarrow> endpoint \<Rightarrow> bool" where
  "endpoint_ok E e \<longleftrightarrow> (\<exists>b. json_endpoint E e = Some b \<and> unjson_endpoint E b = Some e)"

definition metadata_ok :: "tag_env \<Rightarrow> smap \<Rightarrow> bool" where
  "metadata_ok E md \<longleftrightarrow> distinct (map fst (map_items E md)) \<and> map_of (map_items E md) = md \<and>
     (\<forall>(k, v) \<in> set (map_items E md). \<exists>b. json_pair E k v = Some b \<and> unjson_strings E b = Some [k \<mapsto> v])"

lemma decode_encode: "zlib_ok E \<Longrightarrow> tag_decode E (tag_encode E b) = b"
  by (auto simp: zlib_ok_def tag_decode_def tag_encode_def split: option.splits)
    (metis option.inject option.distinct(1))+

text \<open>Tags in the new format, each with its kind and its content.\<close>

definition new_tag :: "tag_env \<Rightarrow> char \<times> bytes \<Rightarrow> string" where
  "new_tag E kb = fst kb # CHR ''-'' # tag_encode E (snd kb)"

lemma scan_new_tags:
  assumes "zlib_ok E" "ver = CHR 0x00 \<or> ver = CHR ''-''"
  shows "scan_tags E kind ver (map (new_tag E) kbs) = Ret (map snd (filter (\<lambda>kb. fst kb = kind) kbs))"
  using assms(2)
proof (induction kbs arbitrary: ver)
  case (Cons kb kbs)
  then show ?case using decode_encode[OF assms(1)] by (auto simp: new_tag_def tag_buf_def)
qed simp

lemma decode_version_new:
  assumes "zlib_ok E" "\<forall>kb \<in> set kbs. fst kb \<noteq> CHR ''v''"
  shows "decodeVersion E (map (new_tag E) kbs @ encodeVersion E v) = (v, True)"
  using assms(2)
proof (induction kbs)
  case Nil
  then show ?case using decode_encode[OF assms(1)] by (simp add: encodeVersion_def)
next
  case (Cons kb kbs)
  then show ?case by (simp add: new_tag_def)
qed

definition pair_json :: "tag_env \<Rightarrow> string \<times> string \<Rightarrow> bytes" where
  "pair_json E kv = the (json_pair E (fst kv) (snd kv))"

definition endpoint_json :: "tag_env \<Rightarrow> endpoint \<Rightarrow> bytes" where
  "endpoint_json E e = the (json_endpoint E e)"

lemma encodeMetadata_tags:
  assumes "metadata_ok E md"
  shows "encodeMetadata E md = map (new_tag E) (map (\<lambda>kv. (CHR ''t'', pair_json E kv)) (map_items E md))"
proof -
  have "(case json_pair E k v of None \<Rightarrow> [] | Some b \<Rightarrow> [''t-'' @ tag_encode E b]) = [new_tag E (CHR ''t'', pair_json E (k, v))]"
    if "(k, v) \<in> set (map_items E md)" for k v
    using assms that by (fastforce simp: metadata_ok_def new_tag_def pair_json_def)
  then have "map (\<lambda>(k, v). case json_pair E k v of None \<Rightarrow> [] | Some b \<Rightarrow> [''t-'' @ tag_encode E b]) (map_items E md) =
      map (\<lambda>kv. [new_tag E (CHR ''t'', pair_json E kv)]) (map_items E md)"
    by (intro map_cong) auto
  then show ?thesis by (simp only: encodeMetadata_def concat_map_singleton map_map comp_def)
qed

lemma encodeEndpoints_tags:
  assumes "\<forall>e \<in> set en. endpoint_ok E e"
  shows "encodeEndpoints E en = map (new_tag E) (map (\<lambda>e. (CHR ''e'', endpoint_json E e)) en)"
  using assms by (induction en) (auto simp: encodeEndpoints_def endpoint_ok_def new_tag_def endpoint_json_def)

lemma fold_pairs:
  assumes "\<forall>(k, v) \<in> set kvs. \<exists>b. json_pair E k v = Some b \<and> unjson_strings E b = Some [k \<mapsto> v]"
  shows "foldl (\<lambda>md b. case unjson_strings E b of None \<Rightarrow> md | Some kv \<Rightarrow> md ++ kv) m (map (pair_json E) kvs) =
    m ++ map_of (rev kvs)"
  using assms
proof (induction kvs arbitrary: m)
  case (Cons kv kvs)
  obtain k v where kv: "kv = (k, v)" by (cases kv)
  then obtain b where "json_pair E k v = Some b" and b: "unjson_strings E b = Some [k \<mapsto> v]"
    using Cons.prems by (auto simp: fun_upd_def)
  then have "unjson_strings E (pair_json E kv) = Some [k \<mapsto> v]"
    unfolding pair_json_def kv fst_conv snd_conv by (simp only: option.sel)
  moreover have "m ++ [k \<mapsto> v] ++ map_of (rev kvs) = m ++ map_of (rev kvs @ [(k, v)])"
    by (auto simp: map_add_def fun_eq_iff map_of_append split: option.splits)
  ultimately show ?case using Cons kv by simp
qed simp

lemma decode_endpoint_bufs:
  "\<forall>e \<in> set en. endpoint_ok E e \<Longrightarrow>
   concat (map (\<lambda>b. case unjson_endpoint E b of None \<Rightarrow> [] | Some e \<Rightarrow> [e]) (map (endpoint_json E) en)) = en"
  by (induction en) (auto simp: endpoint_ok_def endpoint_json_def)

lemma map_of_rev_distinct: "distinct (map fst xs) \<Longrightarrow> map_of (rev xs) = map_of xs"
  by (rule map_of_eqI) (auto simp: map_of_eq_Some_iff rev_map[symmetric])

text \<open>The tags of a registration decode to what it had.\<close>

lemma tags_roundtrip:
  fixes v
  assumes "zlib_ok E" "metadata_ok E md" "\<forall>e \<in> set en. endpoint_ok E e"
  defines "tags \<equiv> encodeMetadata E md @ encodeEndpoints E en @ encodeVersion E v"
  shows "decodeMetadata E tags = Ret md \<and> decodeEndpoints E tags = Ret en \<and> decodeVersion E tags = (v, True)"
proof -
  let ?t = "map (\<lambda>kv. (CHR ''t'', pair_json E kv)) (map_items E md)" and ?e = "map (\<lambda>e. (CHR ''e'', endpoint_json E e)) en"
  have v: "encodeVersion E v = map (new_tag E) [(CHR ''v'', bytes_of_str v)]"
    by (simp add: encodeVersion_def new_tag_def)
  have tags: "tags = map (new_tag E) (?t @ ?e @ [(CHR ''v'', bytes_of_str v)])"
    unfolding tags_def encodeMetadata_tags[OF assms(2)] encodeEndpoints_tags[OF assms(3)] v by simp
  have "map_of (rev (map_items E md)) = md"
    using assms(2) by (metis metadata_ok_def map_of_rev_distinct)
  then have "decodeMetadata E tags = Ret md"
    using fold_pairs[of "map_items E md" E Map.empty] assms(2)
    unfolding tags decodeMetadata_def scan_new_tags[OF assms(1) disjI1[OF refl]]
    by (simp add: metadata_ok_def comp_def filter_map)
  moreover have "decodeEndpoints E tags = Ret en"
    using decode_endpoint_bufs[OF assms(3)]
    unfolding tags decodeEndpoints_def scan_new_tags[OF assms(1) disjI1[OF refl]]
    by (simp add: comp_def filter_map)
  moreover have "decodeVersion E tags = (v, True)"
  proof -
    have "\<forall>kb \<in> set (?t @ ?e). fst kb \<noteq> CHR ''v''" by auto
    from decode_version_new[OF assms(1) this, of v] show ?thesis unfolding tags v by simp
  qed
  ultimately show ?thesis by blast
qed

end
