(* ===== verification/Selector.thy ===== *)
theory Selector
  imports Registry "HOL-Library.Multiset"
begin

text \<open>
  Choosing a node (\<^verbatim>\<open>src/selector/filter.go\<close>, \<^verbatim>\<open>src/selector/strategy.go\<close>,
  \<^verbatim>\<open>src/selector/default.go\<close>). A strategy's \<open>Next\<close> closure is a function on the state the closure
  keeps: for \<open>Random\<close> the random numbers still to come, for \<open>RoundRobin\<close> the counter, a 64-bit
  \<open>int\<close> that wraps around. The registry is an argument. \<open>node_picker\<close> is what \<open>Select\<close> relies on
  in a strategy.
\<close>

definition ErrNoneAvailable :: go_error where
  "ErrNoneAvailable = Errorf ''none available'' []"

text \<open>
  A different error value from \<open>registry.ErrNotFound\<close>, though both read "not found"; the texts here
  differ because errors are compared by identity.
\<close>

definition selector_ErrNotFound :: go_error where
  "selector_ErrNotFound = Errorf ''selector: not found'' []"

section \<open>Filters\<close>

definition FilterEndpoint :: "string \<Rightarrow> service list \<Rightarrow> service list" where
  "FilterEndpoint nm old = filter (\<lambda>s. \<exists>ep \<in> set (Endpoints s). ep_Name ep = nm) old"

text \<open>A missing key of the metadata reads as the empty string.\<close>

definition label_matches :: "string \<Rightarrow> string \<Rightarrow> node \<Rightarrow> bool" where
  "label_matches key val n =
     (case nd_Metadata n of
        None \<Rightarrow> False
      | Some m \<Rightarrow> (case m key of None \<Rightarrow> [] | Some v \<Rightarrow> v) = val)"

definition FilterLabel :: "string \<Rightarrow> string \<Rightarrow> service list \<Rightarrow> service list" where
  "FilterLabel key val old =
     concat (map (\<lambda>s. let nodes = filter (label_matches key val) (Nodes s)
                      in if length nodes > 0 then [s\<lparr>Nodes := nodes\<rparr>] else []) old)"

definition FilterVersion :: "string \<Rightarrow> service list \<Rightarrow> service list" where
  "FilterVersion v old = filter (\<lambda>s. Version s = v) old"

text \<open>What \<open>Select\<close> relies on in a filter: it adds no node.\<close>

definition shrinking :: "(service list \<Rightarrow> service list) \<Rightarrow> bool" where
  "shrinking f \<longleftrightarrow> (\<forall>ss. set (all_nodes (f ss)) \<subseteq> set (all_nodes ss))"

lemma shrinking_filters [intro]:
  "shrinking (FilterEndpoint nm)" "shrinking (FilterLabel key val)" "shrinking (FilterVersion v)"
  by (auto simp: shrinking_def FilterEndpoint_def FilterLabel_def FilterVersion_def all_nodes_def Let_def
      split: if_splits)

lemma FilterLabel_nodes:
  "all_nodes (FilterLabel key val ss) = filter (\<lambda>x. label_matches key val (snd x)) (all_nodes ss)"
  by (induction ss) (auto simp: FilterLabel_def all_nodes_def filter_map comp_def Let_def filter_empty_conv)

lemma fold_shrinking:
  "\<forall>f \<in> set fs. shrinking f \<Longrightarrow> set (all_nodes (fold (\<lambda>f ss. f ss) fs ss)) \<subseteq> set (all_nodes ss)"
proof (induction fs arbitrary: ss)
  case (Cons f fs)
  then have "set (all_nodes (f ss)) \<subseteq> set (all_nodes ss)" by (simp add: shrinking_def)
  with Cons show ?case by fastforce
qed simp

section \<open>Strategies\<close>

definition service_nodes :: "service list \<Rightarrow> node list" where
  "service_nodes services = concat (map Nodes services)"

lemma service_nodes_all: "service_nodes ss = map snd (all_nodes ss)"
  by (simp add: service_nodes_def all_nodes_def map_concat comp_def)

text \<open>\<open>rand.Int()\<close> is non-negative; the state is the sequence of numbers it will return.\<close>

definition Random ::
    "service list \<Rightarrow> (nat \<Rightarrow> nat) \<Rightarrow> ((go_error + node) \<times> (nat \<Rightarrow> nat)) outcome" where
  "Random services rand =
     (let nodes = service_nodes services
      in if length nodes = 0 then Ret (Inl ErrNoneAvailable, rand)
         else Ret (Inr (nodes ! (rand 0 mod length nodes)), \<lambda>k. rand (Suc k)))"

definition wrap64 :: "int \<Rightarrow> int" where
  "wrap64 i = (i + 2 ^ 63) mod 2 ^ 64 - 2 ^ 63"

text \<open>\<open>i%len(nodes)\<close> of a negative counter is not positive, and a negative index panics.\<close>

definition RoundRobin :: "service list \<Rightarrow> int \<Rightarrow> ((go_error + node) \<times> int) outcome" where
  "RoundRobin services i =
     (let nodes = service_nodes services
      in if length nodes = 0 then Ret (Inl ErrNoneAvailable, i)
         else if i \<ge> 0
         then Ret (Inr (nodes ! (nat i mod length nodes)), wrap64 (i + 1))
         else if (- i) mod int (length nodes) = 0
         then Ret (Inr (nodes ! 0), wrap64 (i + 1))
         else Panic ''index out of range'')"

locale node_picker =
  fixes pick :: "service list \<Rightarrow> 'r \<Rightarrow> ((go_error + node) \<times> 'r) outcome"
    and usable :: "'r \<Rightarrow> bool" and none_error :: go_error
  assumes pick_returns: "usable r \<Longrightarrow> \<exists>res. pick ss r = Ret res"
    and pick_node: "pick ss r = Ret (Inr n, r') \<Longrightarrow> n \<in> snd ` set (all_nodes ss)"
    and pick_none: "pick ss r = Ret (Inl e, r') \<Longrightarrow> all_nodes ss = [] \<and> e = none_error"

section \<open>The default selector\<close>

definition default_Select ::
    "(string \<Rightarrow> go_error + service list) \<Rightarrow> (service list \<Rightarrow> service list) list \<Rightarrow> string
      \<Rightarrow> go_error + service list" where
  "default_Select GetService filters nm =
     (case GetService nm of
        Inl e \<Rightarrow> Inl e
      | Inr services \<Rightarrow>
          let services = LatestServices services;
              services = fold (\<lambda>f ss. f ss) filters services
          in if length services = 0 then Inl ErrNoneAvailable else Inr services)"

definition default_GetService ::
    "(string \<Rightarrow> go_error + service list) \<Rightarrow> string \<Rightarrow> go_error + service list" where
  "default_GetService GetService nm = (case GetService nm of Inl e \<Rightarrow> Inl e | Inr ss \<Rightarrow> Inr ss)"

text \<open>A node a selection may return: one of the registry's, and the newest of its server.\<close>

definition selectable :: "service list \<Rightarrow> node \<Rightarrow> bool" where
  "selectable services n \<longleftrightarrow>
     (\<exists>nm. (nm, n) \<in> set (all_nodes services) \<and>
        (ServerID n \<noteq> [] \<longrightarrow>
          (\<forall>m. (nm, m) \<in> set (all_nodes services) \<and> ServerID m = ServerID n \<longrightarrow>
             node_rank m \<le> node_rank n)))"

lemma latest_selectable:
  assumes "x \<in> set (all_nodes (LatestServices services))"
  shows "selectable services (snd x)"
proof -
  have "x \<in> set (all_nodes services)"
    using assms by (auto simp: all_nodes_LatestServices all_nodes_positions[of services])
  moreover have "node_rank m \<le> node_rank (snd x)"
    if "ServerID (snd x) \<noteq> []" "(fst x, m) \<in> set (all_nodes services)" "ServerID m = ServerID (snd x)" for m
    using LatestServices_newest[OF assms, of "(fst x, m)"] that
    by (simp add: labelled_def key_of_def route_key_def)
  ultimately show ?thesis unfolding selectable_def by (metis prod.collapse)
qed

context node_picker
begin

lemma select_sound:
  assumes "GetService nm = Inr services" "\<forall>f \<in> set filters. shrinking f"
    and "default_Select GetService filters nm = Inr chosen" "pick chosen r = Ret (Inr n, r')"
  shows "selectable services n"
proof -
  have "chosen = fold (\<lambda>f ss. f ss) filters (LatestServices services)"
    using assms(1,3) by (auto simp: default_Select_def Let_def split: if_splits)
  then have "set (all_nodes chosen) \<subseteq> set (all_nodes (LatestServices services))"
    using fold_shrinking[OF assms(2)] by simp
  with pick_node[OF assms(4)] show ?thesis using latest_selectable by blast
qed

end

lemma service_nodes_nth: "i < length (service_nodes ss) \<Longrightarrow> service_nodes ss ! i \<in> snd ` set (all_nodes ss)"
  by (simp add: service_nodes_all)

lemma service_nodes_Nil: "length (service_nodes ss) = 0 \<longleftrightarrow> all_nodes ss = []"
  by (simp add: service_nodes_all)

interpretation random: node_picker Random "\<lambda>_. True" ErrNoneAvailable
  by unfold_locales
    (auto simp: Random_def Let_def service_nodes_Nil[simplified] intro!: service_nodes_nth split: if_splits)

interpretation robin: node_picker RoundRobin "\<lambda>i. 0 \<le> i" ErrNoneAvailable
  by unfold_locales
    (auto simp: RoundRobin_def Let_def service_nodes_Nil[simplified] intro!: service_nodes_nth split: if_splits)

section \<open>Round robin is fair\<close>

fun robin_picks :: "nat \<Rightarrow> service list \<Rightarrow> int \<Rightarrow> node list outcome" where
  "robin_picks 0 ss i = Ret []"
| "robin_picks (Suc k) ss i =
     outcome_bind (RoundRobin ss i) (\<lambda>(res, i).
       case res of
         Inl e \<Rightarrow> Ret []
       | Inr n \<Rightarrow> outcome_bind (robin_picks k ss i) (\<lambda>ns. Ret (n # ns)))"

lemma wrap64_id: "0 \<le> i \<Longrightarrow> i < 2 ^ 63 \<Longrightarrow> wrap64 i = i"
  by (simp add: wrap64_def)

lemma robin_picks_eq:
  assumes "service_nodes ss \<noteq> []" "0 \<le> i" "i + int k < 2 ^ 63"
  shows "robin_picks k ss i =
    Ret (map (\<lambda>j. service_nodes ss ! ((nat i + j) mod length (service_nodes ss))) [0..<k])"
  using assms
proof (induction k arbitrary: i)
  case (Suc k)
  have "wrap64 (i + 1) = i + 1" using Suc.prems by (intro wrap64_id) auto
  then have "RoundRobin ss i =
      Ret (Inr (service_nodes ss ! (nat i mod length (service_nodes ss))), i + 1)"
    using Suc.prems by (simp add: RoundRobin_def Let_def)
  moreover have "robin_picks k ss (i + 1) =
      Ret (map (\<lambda>j. service_nodes ss ! ((nat i + 1 + j) mod length (service_nodes ss))) [0..<k])"
    using Suc.IH[of "i + 1"] Suc.prems by (simp add: nat_add_distrib add.assoc)
  ultimately show ?case
    by (simp only: robin_picks.simps outcome_bind_simps prod.case sum.case upt_conv_Cons[of 0 "Suc k"]
        zero_less_Suc if_True list.map map_Suc_upt[symmetric] map_map comp_def)
      simp
qed simp

lemma rotation_mset:
  assumes "xs \<noteq> []"
  shows "mset (map (\<lambda>j. xs ! ((i + j) mod length xs)) [0..<length xs]) = mset xs"
proof -
  let ?n = "length xs"
  have "map (\<lambda>j. xs ! ((i + j) mod ?n)) [0..<?n] = rotate i xs"
    using assms by (intro nth_equalityI) (simp_all add: nth_rotate)
  then show ?thesis by (metis append_take_drop_id mset_append rotate_drop_take union_commute)
qed

section \<open>Properties\<close>

text \<open>Whatever filters are given (each only removing nodes, as the three filters of the package
  do) and with either strategy, the node a selection yields is a node of the registry's answer and
  the newest instance of its server id: no message is routed to an instance that has been
  superseded.\<close>

theorem selection_never_picks_superseded:
  assumes "GetService nm = Inr services" "\<forall>f \<in> set filters. shrinking f"
    "default_Select GetService filters nm = Inr chosen"
    "Random chosen rand = Ret (Inr n, rand') \<or> RoundRobin chosen i = Ret (Inr n, i')"
  shows "selectable services n"
  using assms random.select_sound[of GetService nm services filters chosen rand n rand']
    robin.select_sound[of GetService nm services filters chosen i n i'] by blast

theorem selection_never_picks_superseded_witness:
  "selectable two_versions (sample_node ''a'' ''i3'' 7)"
proof (rule selection_never_picks_superseded)
  have "LatestServices two_versions =
      [sample_service ''1'' [sample_node [] ''i2'' 1], sample_service ''2'' [sample_node ''a'' ''i3'' 7]]"
    by (simp add: two_versions_def LatestServices_def latest_map_def positions_def latest_step_def
        latest_nodes_def keep_node_def node_at_def sample_service_def sample_node_def route_key_def
        enumerate_eq_zip Let_def)
  then show "default_Select (\<lambda>_. Inr two_versions) [FilterVersion ''2''] ''chat'' =
      Inr [sample_service ''2'' [sample_node ''a'' ''i3'' 7]]"
    by (simp add: default_Select_def FilterVersion_def sample_service_def)
  show "Random [sample_service ''2'' [sample_node ''a'' ''i3'' 7]] (\<lambda>_. 0) =
      Ret (Inr (sample_node ''a'' ''i3'' 7), \<lambda>k. 0) \<or>
    RoundRobin [sample_service ''2'' [sample_node ''a'' ''i3'' 7]] 0 = Ret (Inr (sample_node ''a'' ''i3'' 7), 1)"
    by (simp add: Random_def service_nodes_def sample_service_def)
qed auto

text \<open>Round robin is fair: while the counter does not wrap around, any as many consecutive
  picks as there are nodes yield every node exactly once.\<close>

theorem round_robin_fair:
  assumes "service_nodes ss \<noteq> []" "0 \<le> i" "i + int (length (service_nodes ss)) < 2 ^ 63"
  shows "\<exists>ns. robin_picks (length (service_nodes ss)) ss i = Ret ns \<and> mset ns = mset (service_nodes ss)"
  using robin_picks_eq[OF assms] rotation_mset[OF assms(1), of "nat i"] by simp

theorem round_robin_fair_witness:
  "\<exists>ns. robin_picks (length (service_nodes two_versions)) two_versions 5 = Ret ns \<and>
    mset ns = mset (service_nodes two_versions)"
  by (rule round_robin_fair) (simp_all add: two_versions_def service_nodes_def sample_service_def)

text \<open>\<open>Select\<close> fails exactly when the registry does or when no service is left after keeping
  the newest instances and filtering; otherwise, with services that have nodes, both strategies
  yield a node.\<close>

theorem select_errors:
  assumes "default_Select GetService filters nm = res"
  shows "(res = Inl e) =
      (GetService nm = Inl e \<or>
       (\<exists>services. GetService nm = Inr services \<and> e = ErrNoneAvailable \<and>
          fold (\<lambda>f ss. f ss) filters (LatestServices services) = [])) \<and>
    (\<forall>chosen. res = Inr chosen \<and> all_nodes chosen \<noteq> [] \<and> 0 \<le> i \<longrightarrow>
       (\<exists>n r. Random chosen rand = Ret (Inr n, r)) \<and> (\<exists>n j. RoundRobin chosen i = Ret (Inr n, j)))"
  using assms
  by (auto simp: default_Select_def Let_def Random_def RoundRobin_def service_nodes_Nil[simplified]
      split: sum.splits if_splits)

theorem select_errors_witness:
  "(Inl ErrNoneAvailable = (Inl ErrNoneAvailable :: go_error + service list)) =
    ((Inr [] :: go_error + service list) = Inl ErrNoneAvailable \<or>
     (\<exists>services. (Inr [] :: go_error + service list) = Inr services \<and> ErrNoneAvailable = ErrNoneAvailable \<and>
        fold (\<lambda>f ss. f ss) [] (LatestServices services) = []))"
  using select_errors[of "\<lambda>_. Inr []" "[]" "''x''" "Inl ErrNoneAvailable" ErrNoneAvailable]
  by (simp add: default_Select_def LatestServices_def)

end
