(* ===== verification/Consul_Registry.thy ===== *)
theory Consul_Registry
  imports Registry_Encoding Selector "HOL-Library.Multiset"
begin

text \<open>
  The registry on Consul (\<^verbatim>\<open>src/registry/consul_registry.go\<close>): \<open>Register\<close> with its table of hashes,
  \<open>Deregister\<close>, \<open>GetService\<close>, \<open>ListServices\<close> and \<open>configure\<close>. The client of the Consul agent is the
  record \<open>consul_client\<close> over a state of any type, \<open>hash\<close> stands for \<^verbatim>\<open>hashstructure.Hash\<close>, \<open>dur\<close> for the text
  of a duration. The services found are kept by version in the order of their discovery; \<open>shuffle\<close> is
  the order in which \<open>range\<close> visits them. A duration is in nanoseconds.
\<close>

section \<open>What the agent takes and gives\<close>

record agent_check =
  ck_TCP :: string
  ck_Interval :: string
  ck_TTL :: string
  ck_DeregisterCriticalServiceAfter :: string

record agent_registration =
  asr_ID :: string
  asr_Meta :: smap
  asr_Name :: string
  asr_Tags :: "string list"
  asr_Port :: int
  asr_Address :: string
  asr_Check :: "agent_check option"
  asr_Connect :: bool

record service_entry =
  se_Service :: string
  se_ID :: string
  se_Tags :: "string list"
  se_Meta :: smap
  se_Address :: string
  se_Port :: int
  se_NodeAddress :: string
  se_Checks :: "string list"

record 'c consul_client =
  PassTTL :: "string \<Rightarrow> 'c \<Rightarrow> go_error option \<times> 'c"
  ServiceRegister :: "agent_registration \<Rightarrow> 'c \<Rightarrow> go_error option \<times> 'c"
  ServiceDeregister :: "string \<Rightarrow> 'c \<Rightarrow> go_error option \<times> 'c"
  Health_Service :: "string \<Rightarrow> 'c \<Rightarrow> go_error + service_entry list"
  Health_Connect :: "string \<Rightarrow> 'c \<Rightarrow> go_error + service_entry list"
  Catalog_Services :: "'c \<Rightarrow> go_error + string list"

record consul_registry =
  cr_Address :: string
  cr_connect :: bool
  cr_tcp_check :: "int option"
  cr_register :: "string \<rightharpoonup> nat"

section \<open>Configuration\<close>

datatype http_transport = Transport_insecure | Transport_tls nat

record http_client =
  hc_Transport :: "http_transport option"
  hc_Timeout :: int

record consul_config =
  cc_Address :: string
  cc_Scheme :: string
  cc_HttpClient :: "http_client option"

record consul_options =
  co_Addrs :: "string list"
  co_Timeout :: int
  co_Secure :: bool
  co_TLSConfig :: "nat option"
  co_consul_config :: "consul_config option"
  co_consul_connect :: "bool option"
  co_consul_tcp_check :: "int option"

definition newTransport :: "nat option \<Rightarrow> http_transport" where
  "newTransport config = (case config of None \<Rightarrow> Transport_insecure | Some t \<Rightarrow> Transport_tls t)"

definition config_address :: "string list \<Rightarrow> consul_config \<Rightarrow> consul_config" where
  "config_address addrs config =
     (case addrs of
        [] \<Rightarrow> config
      | a # _ \<Rightarrow>
          (case SplitHostPort a of
             Inl err \<Rightarrow> if err = ''missing port in address'' then config\<lparr>cc_Address := a @ '':'' @ ''8500''\<rparr> else config
           | Inr (addr, port) \<Rightarrow> config\<lparr>cc_Address := addr @ '':'' @ port\<rparr>))"

definition config_secure :: "consul_options \<Rightarrow> consul_config \<Rightarrow> consul_config" where
  "config_secure os config =
     (if co_Secure os \<or> co_TLSConfig os \<noteq> None
      then let hc = (case cc_HttpClient config of None \<Rightarrow> \<lparr>hc_Transport = None, hc_Timeout = 0\<rparr> | Some hc \<Rightarrow> hc)
           in config\<lparr>cc_Scheme := ''https'',
                cc_HttpClient := Some (hc\<lparr>hc_Transport := Some (newTransport (co_TLSConfig os))\<rparr>)\<rparr>
      else config)"

definition config_timeout :: "int \<Rightarrow> consul_config \<Rightarrow> consul_config outcome" where
  "config_timeout t config =
     (if t > 0
      then (case cc_HttpClient config of
              None \<Rightarrow> Panic ''invalid memory address or nil pointer dereference''
            | Some hc \<Rightarrow> Ret (config\<lparr>cc_HttpClient := Some (hc\<lparr>hc_Timeout := t\<rparr>)\<rparr>))
      else Ret config)"

text \<open>\<open>dflt\<close> is \<^verbatim>\<open>consul.DefaultConfig()\<close>; the client that is created from the configuration is not kept.\<close>

definition configure ::
    "consul_config \<Rightarrow> (consul_options \<Rightarrow> consul_options) list \<Rightarrow> consul_options \<times> consul_registry
      \<Rightarrow> (consul_config \<times> consul_options \<times> consul_registry) outcome" where
  "configure dflt opts oc =
     (case oc of (os, c) \<Rightarrow>
        let os = fold (\<lambda>f os. f os) opts os;
            config = (case co_consul_config os of None \<Rightarrow> dflt | Some co \<Rightarrow> co);
            c = c\<lparr>cr_connect := (case co_consul_connect os of None \<Rightarrow> cr_connect c | Some cn \<Rightarrow> cn),
                  cr_tcp_check := co_consul_tcp_check os\<rparr>;
            config = config_secure os (config_address (co_Addrs os) config)
        in outcome_bind (config_timeout (co_Timeout os) config) (\<lambda>config.
             Ret (config, os, c\<lparr>cr_Address := cc_Address config\<rparr>)))"

definition default_options :: consul_options where
  "default_options = \<lparr>co_Addrs = [], co_Timeout = 0, co_Secure = False, co_TLSConfig = None,
     co_consul_config = None, co_consul_connect = None, co_consul_tcp_check = None\<rparr>"

definition newConsulRegistry ::
    "consul_config \<Rightarrow> (consul_options \<Rightarrow> consul_options) list
      \<Rightarrow> (consul_config \<times> consul_options \<times> consul_registry) outcome" where
  "newConsulRegistry dflt opts =
     configure dflt opts (default_options, \<lparr>cr_Address = [], cr_connect = False, cr_tcp_check = None, cr_register = Map.empty\<rparr>)"

section \<open>Registering\<close>

definition go_map :: "smap option \<Rightarrow> smap" where
  "go_map m = (case m of None \<Rightarrow> Map.empty | Some m \<Rightarrow> m)"

definition map_str :: "smap \<Rightarrow> string \<Rightarrow> string" where
  "map_str m k = (case m k of None \<Rightarrow> [] | Some v \<Rightarrow> v)"

definition consulServerIDKey :: string where
  "consulServerIDKey = ''server_id''"

definition consulStartedAtKey :: string where
  "consulStartedAtKey = ''started_at''"

definition decodeStartedAt :: "smap \<Rightarrow> int" where
  "decodeStartedAt meta =
     (let val = map_str meta consulStartedAtKey
      in if val = [] then 0
         else case ParseInt64 val of
                None \<Rightarrow> 0
              | Some startedAt \<Rightarrow> if startedAt < 0 then 0 else startedAt)"

definition go_Second :: int where
  "go_Second = 10 ^ 9"

definition getDeregisterTTL :: "int \<Rightarrow> int" where
  "getDeregisterTTL t =
     (let splay = go_Second * 5;
          deregTTL = wrap64 (t + splay)
      in if t < 60 * go_Second then 60 * go_Second + splay else deregTTL)"

definition error_one_node :: go_error where
  "error_one_node = Errorf ''require at least one node'' []"

definition consul_Deregister ::
    "'c consul_client \<Rightarrow> service \<Rightarrow> consul_registry \<times> 'c \<Rightarrow> go_error option \<times> consul_registry \<times> 'c" where
  "consul_Deregister C s cst =
     (case cst of (c, st) \<Rightarrow>
        if length (Nodes s) = 0 then (Some error_one_node, c, st)
        else let c = c\<lparr>cr_register := (cr_register c)(InstanceID (Nodes s ! 0) := None)\<rparr>;
                 node = Nodes s ! 0;
                 (err, st) = ServiceDeregister C (InstanceID node) st
             in (err, c, st))"

definition registration_check :: "(int \<Rightarrow> string) \<Rightarrow> int option \<Rightarrow> int \<Rightarrow> node \<Rightarrow> agent_check option" where
  "registration_check dur tcp_check ttl node =
     (case tcp_check of
        Some regInterval \<Rightarrow>
          Some \<lparr>ck_TCP = Address node @ '':'' @ FormatInt (Port node), ck_Interval = dur regInterval, ck_TTL = [],
            ck_DeregisterCriticalServiceAfter = dur (getDeregisterTTL regInterval)\<rparr>
      | None \<Rightarrow>
          if ttl > 0
          then Some \<lparr>ck_TCP = [], ck_Interval = [], ck_TTL = dur ttl,
            ck_DeregisterCriticalServiceAfter = dur (getDeregisterTTL ttl)\<rparr>
          else None)"

definition registration :: "tag_env \<Rightarrow> bool \<Rightarrow> service \<Rightarrow> agent_check option \<Rightarrow> agent_registration" where
  "registration E connect s check =
     (let node = Nodes s ! 0;
          tags = encodeMetadata E (go_map (nd_Metadata node));
          tags = tags @ encodeEndpoints E (Endpoints s);
          tags = tags @ encodeVersion E (Version s)
      in \<lparr>asr_ID = InstanceID node,
          asr_Meta = [consulServerIDKey \<mapsto> ServerID node, consulStartedAtKey \<mapsto> FormatInt (StartedAt node)],
          asr_Name = Name s, asr_Tags = tags, asr_Port = Port node, asr_Address = Address node,
          asr_Check = check, asr_Connect = connect\<rparr>)"

text \<open>The part of \<open>Register\<close> from the encoding of the tags on.\<close>

definition consul_full_register ::
    "tag_env \<Rightarrow> (int \<Rightarrow> string) \<Rightarrow> 'c consul_client \<Rightarrow> service \<Rightarrow> int \<Rightarrow> nat \<Rightarrow> consul_registry \<times> 'c
      \<Rightarrow> go_error option \<times> consul_registry \<times> 'c" where
  "consul_full_register E dur C s ttl h cst =
     (case cst of (c, st) \<Rightarrow>
        let node = Nodes s ! 0;
            asr = registration E (cr_connect c) s (registration_check dur (cr_tcp_check c) ttl node)
        in case ServiceRegister C asr st of
             (Some err, st) \<Rightarrow> (Some err, c, st)
           | (None, st) \<Rightarrow>
               let c = c\<lparr>cr_register := (cr_register c)(InstanceID node \<mapsto> h)\<rparr>
               in if ttl = 0 then (None, c, st)
                  else let (err, st) = PassTTL C (''service:'' @ InstanceID node) st
                       in (err, c, st))"

definition consul_Register ::
    "tag_env \<Rightarrow> (int \<Rightarrow> string) \<Rightarrow> (service \<Rightarrow> go_error + nat) \<Rightarrow> 'c consul_client \<Rightarrow> service \<Rightarrow> int
      \<Rightarrow> consul_registry \<times> 'c \<Rightarrow> go_error option \<times> consul_registry \<times> 'c" where
  "consul_Register E dur hash C s ttl cst =
     (case cst of (c, st) \<Rightarrow>
        if length (Nodes s) = 0 then (Some error_one_node, c, st)
        else case hash s of
          Inl err \<Rightarrow> (Some err, c, st)
        | Inr h \<Rightarrow>
            let node = Nodes s ! 0
            in if cr_register c (InstanceID node) = Some h
               then (case PassTTL C (''service:'' @ InstanceID node) st of
                       (None, st) \<Rightarrow> (None, c, st)
                     | (Some err, st) \<Rightarrow> consul_full_register E dur C s ttl h (c, st))
               else consul_full_register E dur C s ttl h (c, st))"

section \<open>Looking up\<close>

text \<open>The body of the loop over the entries, the same in \<open>GetService\<close> and in the watcher.\<close>

type_synonym service_map = "(string \<times> service) list"

definition entry_node :: "tag_env \<Rightarrow> service_entry \<Rightarrow> node outcome" where
  "entry_node E e =
     outcome_bind (decodeMetadata E (se_Tags e)) (\<lambda>md. Ret
       \<lparr>StartedAt = decodeStartedAt (se_Meta e), ServerID = map_str (se_Meta e) consulServerIDKey,
        InstanceID = se_ID e, Address = (if length (se_Address e) = 0 then se_NodeAddress e else se_Address e),
        Port = se_Port e, nd_Metadata = Some md\<rparr>)"

definition critical :: "service_entry \<Rightarrow> bool" where
  "critical e \<longleftrightarrow> ''critical'' \<in> set (se_Checks e)"

definition entry_version :: "tag_env \<Rightarrow> service_entry \<Rightarrow> string" where
  "entry_version E e = fst (decodeVersion E (se_Tags e))"

definition find_version :: "tag_env \<Rightarrow> service_entry \<Rightarrow> service_map \<Rightarrow> service_map outcome" where
  "find_version E e m =
     (case map_of m (entry_version E e) of
        Some svc \<Rightarrow> Ret m
      | None \<Rightarrow>
          outcome_bind (decodeEndpoints E (se_Tags e)) (\<lambda>en. Ret (m @ [(entry_version E e,
            \<lparr>Name = se_Service e, Version = entry_version E e, sv_Metadata = None, Endpoints = en, Nodes = []\<rparr>)])))"

definition append_node :: "string \<Rightarrow> node \<Rightarrow> service_map \<Rightarrow> service_map" where
  "append_node version n m = map (\<lambda>(v, svc). (v, if v = version then svc\<lparr>Nodes := Nodes svc @ [n]\<rparr> else svc)) m"

definition add_entry :: "tag_env \<Rightarrow> service_entry \<Rightarrow> service_map \<Rightarrow> service_map outcome" where
  "add_entry E e m =
     outcome_bind (find_version E e m) (\<lambda>m.
       if critical e then Ret m
       else outcome_bind (entry_node E e) (\<lambda>n. Ret (append_node (entry_version E e) n m)))"

fun add_entries :: "tag_env \<Rightarrow> service_entry list \<Rightarrow> service_map \<Rightarrow> service_map outcome" where
  "add_entries E [] m = Ret m"
| "add_entries E (e # es) m = outcome_bind (add_entry E e m) (add_entries E es)"

definition health :: "'c consul_client \<Rightarrow> bool \<Rightarrow> string \<Rightarrow> 'c \<Rightarrow> go_error + service_entry list" where
  "health C connect = (if connect then Health_Connect C else Health_Service C)"

definition consul_GetService ::
    "tag_env \<Rightarrow> (service_map \<Rightarrow> service_map) \<Rightarrow> 'c consul_client \<Rightarrow> string \<Rightarrow> consul_registry \<times> 'c
      \<Rightarrow> (go_error + service list) outcome" where
  "consul_GetService E shuffle C nm cst =
     (case cst of (c, st) \<Rightarrow>
        case health C (cr_connect c) nm st of
          Inl err \<Rightarrow> Ret (Inl err)
        | Inr rsp \<Rightarrow>
            outcome_bind (add_entries E (filter (\<lambda>s. se_Service s = nm) rsp) []) (\<lambda>serviceMap.
              Ret (Inr (map snd (shuffle serviceMap)))))"

definition consul_ListServices :: "'c consul_client \<Rightarrow> 'c \<Rightarrow> go_error + service list" where
  "consul_ListServices C st =
     (case Catalog_Services C st of
        Inl err \<Rightarrow> Inl err
      | Inr rsp \<Rightarrow> Inr (map (\<lambda>nm. \<lparr>Name = nm, Version = [], sv_Metadata = None, Endpoints = [], Nodes = []\<rparr>) rsp))"


section \<open>What a lookup groups\<close>

text \<open>The services found for a list of entries: one per version, with the nodes of the entries of this
  version that are not critical, in the order of the entries.\<close>

definition live_entries :: "tag_env \<Rightarrow> string \<Rightarrow> service_entry list \<Rightarrow> service_entry list" where
  "live_entries E v es = filter (\<lambda>e. entry_version E e = v \<and> \<not> critical e) es"

definition groups :: "tag_env \<Rightarrow> service_entry list \<Rightarrow> service_map \<Rightarrow> bool" where
  "groups E es m \<longleftrightarrow> distinct (map fst m) \<and> fst ` set m = entry_version E ` set es \<and>
     (\<forall>(v, s) \<in> set m. Version s = v \<and> Name s \<in> se_Service ` set es \<and>
        map Ret (Nodes s) = map (entry_node E) (live_entries E v es))"

lemma append_node_keys [simp]: "map fst (append_node v n m) = map fst m"
  by (induction m) (auto simp: append_node_def)

lemma append_node_mem:
  "(v, s) \<in> set (append_node w n m) \<longleftrightarrow>
     (\<exists>t. (v, t) \<in> set m \<and> s = (if v = w then t\<lparr>Nodes := Nodes t @ [n]\<rparr> else t))"
  unfolding append_node_def set_map image_iff by (auto split: prod.splits if_splits)

lemma find_version_new:
  assumes "find_version E e m = Ret m'" "groups E es m" "entry_version E e \<notin> fst ` set m"
  obtains en where "m' = m @ [(entry_version E e,
    \<lparr>Name = se_Service e, Version = entry_version E e, sv_Metadata = None, Endpoints = en, Nodes = []\<rparr>)]"
proof -
  have "map_of m (entry_version E e) = None" using assms(3) by (simp add: map_of_eq_None_iff)
  with assms(1) that show ?thesis by (auto simp: find_version_def outcome_bind_Ret_iff)
qed

lemma find_version_old:
  "find_version E e m = Ret m' \<Longrightarrow> entry_version E e \<in> fst ` set m \<Longrightarrow> m' = m"
  by (auto simp: find_version_def map_of_eq_None_iff split: option.splits)

lemma live_entries_snoc:
  "live_entries E v (es @ [e]) = live_entries E v es @ (if entry_version E e = v \<and> \<not> critical e then [e] else [])"
  by (simp add: live_entries_def)

lemma live_entries_none: "v \<notin> entry_version E ` set es \<Longrightarrow> live_entries E v es = []"
  by (auto simp: live_entries_def filter_empty_conv)

text \<open>After \<open>find_version\<close> the version of the entry is there; its node is still missing.\<close>

definition pre_groups :: "tag_env \<Rightarrow> service_entry list \<Rightarrow> service_entry \<Rightarrow> service_map \<Rightarrow> bool" where
  "pre_groups E es e m \<longleftrightarrow> distinct (map fst m) \<and> fst ` set m = entry_version E ` set (es @ [e]) \<and>
     (\<forall>(v, s) \<in> set m. Version s = v \<and> Name s \<in> se_Service ` set (es @ [e]) \<and>
        map Ret (Nodes s) = map (entry_node E) (live_entries E v es))"

lemma find_version_groups:
  assumes "find_version E e m = Ret m'" "groups E es m"
  shows "pre_groups E es e m'"
proof (cases "entry_version E e \<in> fst ` set m")
  case True
  with find_version_old[OF assms(1) True] assms(2) show ?thesis
    by (auto simp: groups_def pre_groups_def)
next
  case False
  then have "live_entries E (entry_version E e) es = []"
    using assms(2) by (intro live_entries_none) (simp add: groups_def)
  moreover obtain en where "m' = m @ [(entry_version E e,
      \<lparr>Name = se_Service e, Version = entry_version E e, sv_Metadata = None, Endpoints = en, Nodes = []\<rparr>)]"
    using find_version_new[OF assms False] .
  ultimately show ?thesis using assms(2) False by (auto simp: groups_def pre_groups_def)
qed

lemma append_node_groups:
  assumes "pre_groups E es e m" "entry_node E e = Ret n" "\<not> critical e"
  shows "groups E (es @ [e]) (append_node (entry_version E e) n m)"
proof -
  have "fst ` set (append_node (entry_version E e) n m) = fst ` set m"
    using arg_cong[OF append_node_keys[of "entry_version E e" n m], of set] by (simp only: set_map)
  moreover have "Version s = v \<and> Name s \<in> se_Service ` set (es @ [e]) \<and>
      map Ret (Nodes s) = map (entry_node E) (live_entries E v (es @ [e]))"
    if "(v, s) \<in> set (append_node (entry_version E e) n m)" for v s
    using that assms by (fastforce simp: append_node_mem pre_groups_def live_entries_snoc split: if_splits)
  ultimately show ?thesis using assms(1) by (auto simp: groups_def pre_groups_def)
qed

lemma add_entry_groups:
  assumes "add_entry E e m = Ret m'" "groups E es m"
  shows "groups E (es @ [e]) m'"
proof -
  obtain m0 where m0: "find_version E e m = Ret m0"
    using assms(1) by (auto simp: add_entry_def outcome_bind_Ret_iff)
  note pre = find_version_groups[OF m0 assms(2)]
  show ?thesis
  proof (cases "critical e")
    case True
    with assms(1) m0 pre show ?thesis
      by (auto simp: add_entry_def groups_def pre_groups_def live_entries_snoc)
  next
    case False
    with assms(1) m0 append_node_groups[OF pre _ False] show ?thesis
      by (auto simp: add_entry_def outcome_bind_Ret_iff)
  qed
qed

lemma add_entries_groups_from:
  "add_entries E es m = Ret m' \<Longrightarrow> groups E es0 m \<Longrightarrow> groups E (es0 @ es) m'"
proof (induction es arbitrary: m es0)
  case (Cons e es)
  then obtain m1 where "add_entry E e m = Ret m1" "add_entries E es m1 = Ret m'"
    by (auto simp: outcome_bind_Ret_iff)
  with Cons.IH[of m1 "es0 @ [e]"] Cons.prems(2) show ?case by (auto dest: add_entry_groups)
qed simp

lemma add_entries_groups: "add_entries E es [] = Ret m \<Longrightarrow> groups E es m"
  using add_entries_groups_from[of E es "[]" m "[]"] by (simp add: groups_def)

text \<open>No panic, as long as no tag is the single letter of an endpoint or of a metadatum.\<close>

definition readable_tags :: "string list \<Rightarrow> bool" where
  "readable_tags tags \<longleftrightarrow> (\<forall>tag \<in> set tags. tag \<noteq> ''e'' \<and> tag \<noteq> ''t'')"

lemma scan_tags_readable:
  "\<forall>tag \<in> set tags. tag \<noteq> [kind] \<Longrightarrow> \<exists>bufs. scan_tags E kind ver tags = Ret bufs"
proof (induction tags arbitrary: ver)
  case (Cons tag tags)
  then obtain f where "\<And>ver. scan_tags E kind ver tags = Ret (f ver)" by (metis list.set_intros(2))
  moreover have "length tag = 1 \<Longrightarrow> hd tag \<noteq> kind" using Cons.prems by (cases tag) auto
  ultimately show ?case by auto
qed simp

lemma scan_tags_unreadable:
  "[kind] \<in> set tags \<Longrightarrow> scan_tags E kind ver tags = Panic ''index out of range''"
proof (induction tags arbitrary: ver)
  case (Cons tag tags)
  then show ?case by (cases "tag = [kind]") auto
qed simp

lemma add_entry_readable:
  assumes "readable_tags (se_Tags e)"
  shows "\<exists>m'. add_entry E e m = Ret m'"
proof -
  obtain b where "scan_tags E CHR ''e'' (CHR 0x00) (se_Tags e) = Ret b"
    using scan_tags_readable[of "se_Tags e" "CHR ''e''" E "CHR 0x00"] assms by (auto simp: readable_tags_def)
  moreover obtain b' where "scan_tags E CHR ''t'' (CHR 0x00) (se_Tags e) = Ret b'"
    using scan_tags_readable[of "se_Tags e" "CHR ''t''" E "CHR 0x00"] assms by (auto simp: readable_tags_def)
  ultimately have "\<exists>en. decodeEndpoints E (se_Tags e) = Ret en" "\<exists>md. decodeMetadata E (se_Tags e) = Ret md"
    by (simp_all add: decodeEndpoints_def decodeMetadata_def)
  then show ?thesis by (auto simp: add_entry_def find_version_def entry_node_def split: option.splits)
qed

lemma add_entries_readable: "\<forall>e \<in> set es. readable_tags (se_Tags e) \<Longrightarrow> \<exists>m'. add_entries E es m = Ret m'"
proof (induction es arbitrary: m)
  case (Cons e es)
  then show ?case using add_entry_readable[of e E m] by auto
qed simp


section \<open>A process and its agent\<close>

text \<open>
  What the code relies on from Consul. \<open>regs\<close> are the services the agent has registered, by ID. A
  registration replaces the one with its ID, a call that fails changes nothing, \<open>PassTTL\<close> fails for a
  service the agent does not have, and a query by name returns the services of this name, each with
  the data it was registered with.
\<close>

definition entry_of :: "agent_registration \<Rightarrow> service_entry \<Rightarrow> bool" where
  "entry_of asr e \<longleftrightarrow> se_Service e = asr_Name asr \<and> se_ID e = asr_ID asr \<and> se_Tags e = asr_Tags asr \<and>
     se_Meta e = asr_Meta asr \<and> se_Address e = asr_Address asr \<and> se_Port e = asr_Port asr"

definition writes_ok :: "'c consul_client \<Rightarrow> ('c \<Rightarrow> string \<rightharpoonup> agent_registration) \<Rightarrow> bool" where
  "writes_ok C regs \<longleftrightarrow>
     (\<forall>asr st. case ServiceRegister C asr st of
        (None, st') \<Rightarrow> regs st' = (regs st)(asr_ID asr \<mapsto> asr) | (Some _, st') \<Rightarrow> regs st' = regs st) \<and>
     (\<forall>id st. case ServiceDeregister C id st of
        (None, st') \<Rightarrow> regs st' = (regs st)(id := None) | (Some _, st') \<Rightarrow> regs st' = regs st) \<and>
     (\<forall>id st. case PassTTL C (''service:'' @ id) st of
        (None, st') \<Rightarrow> id \<in> dom (regs st) \<and> regs st' = regs st | (Some _, st') \<Rightarrow> regs st' = regs st)"

definition query_ok :: "'c consul_client \<Rightarrow> ('c \<Rightarrow> string \<rightharpoonup> agent_registration) \<Rightarrow> bool" where
  "query_ok C regs \<longleftrightarrow>
     (\<forall>connect nm st rsp. health C connect nm st = Inr rsp \<longrightarrow>
        (\<forall>id asr. regs st id = Some asr \<and> asr_Name asr = nm \<and> asr_Connect asr = connect \<longrightarrow>
           (\<exists>e \<in> set rsp. entry_of asr e)))"

text \<open>
  The process registers services of the set \<open>S\<close>, in any order and as often as it likes, and takes them
  back; the agent may lose registrations at any time (a critical service is removed after its time).
\<close>

inductive consul_step ::
    "tag_env \<Rightarrow> (int \<Rightarrow> string) \<Rightarrow> (service \<Rightarrow> go_error + nat) \<Rightarrow> 'c consul_client
      \<Rightarrow> ('c \<Rightarrow> string \<rightharpoonup> agent_registration) \<Rightarrow> service set
      \<Rightarrow> consul_registry \<times> 'c \<Rightarrow> consul_registry \<times> 'c \<Rightarrow> bool"
  for E dur hash C regs S where
  register: "s \<in> S \<Longrightarrow> consul_Register E dur hash C s ttl cst = (err, cst') \<Longrightarrow>
    consul_step E dur hash C regs S cst cst'"
| deregister: "consul_Deregister C s cst = (err, cst') \<Longrightarrow> consul_step E dur hash C regs S cst cst'"
| lose: "regs st' \<subseteq>\<^sub>m regs st \<Longrightarrow> consul_step E dur hash C regs S (c, st) (c, st')"

definition consul_init :: "consul_registry \<times> 'c \<Rightarrow> bool" where
  "consul_init cst \<longleftrightarrow> cr_register (fst cst) = Map.empty"

text \<open>What a remembered hash says: if the agent has this ID at all, it has the service that was hashed.\<close>

definition registered_as ::
    "tag_env \<Rightarrow> (service \<Rightarrow> go_error + nat) \<Rightarrow> service set \<Rightarrow> bool \<Rightarrow> nat \<Rightarrow> agent_registration \<Rightarrow> bool" where
  "registered_as E hash S connect h asr \<longleftrightarrow>
     (\<exists>s \<in> S. \<exists>ck. Nodes s \<noteq> [] \<and> hash s = Inr h \<and> asr = registration E connect s ck)"

definition hashes_true ::
    "tag_env \<Rightarrow> (service \<Rightarrow> go_error + nat) \<Rightarrow> ('c \<Rightarrow> string \<rightharpoonup> agent_registration) \<Rightarrow> service set
      \<Rightarrow> consul_registry \<times> 'c \<Rightarrow> bool" where
  "hashes_true E hash regs S cst \<longleftrightarrow>
     (\<forall>id h asr. cr_register (fst cst) id = Some h \<and> regs (snd cst) id = Some asr \<longrightarrow>
        registered_as E hash S (cr_connect (fst cst)) h asr)"

lemma registration_ID [simp]: "asr_ID (registration E connect s ck) = InstanceID (Nodes s ! 0)"
  by (simp add: registration_def Let_def)

lemma writes_register:
  assumes "writes_ok C regs"
  shows "ServiceRegister C asr st = (None, st') \<Longrightarrow> regs st' = (regs st)(asr_ID asr \<mapsto> asr)"
    and "ServiceRegister C asr st = (Some err, st') \<Longrightarrow> regs st' = regs st"
  using assms unfolding writes_ok_def by (auto dest!: spec[where x = asr] spec[where x = st])

lemma writes_deregister:
  assumes "writes_ok C regs" "ServiceDeregister C i st = (err, st')"
  shows "regs st' \<subseteq>\<^sub>m regs st"
  using assms(1)[unfolded writes_ok_def, THEN conjunct2, THEN conjunct1, THEN spec[of _ i], THEN spec[of _ st]] assms(2)
  by (cases err) (auto simp: map_le_def)

lemma writes_PassTTL:
  assumes "writes_ok C regs" "PassTTL C (''service:'' @ i) st = (err, st')"
  shows "regs st' = regs st \<and> (err = None \<longrightarrow> i \<in> dom (regs st))"
proof -
  have "case PassTTL C (''service:'' @ i) st of
      (None, st') \<Rightarrow> i \<in> dom (regs st) \<and> regs st' = regs st | (Some _, st') \<Rightarrow> regs st' = regs st"
    using assms(1)[unfolded writes_ok_def, THEN conjunct2, THEN conjunct2, THEN spec[of _ i], THEN spec[of _ st]] .
  with assms(2) show ?thesis by (cases err) auto
qed

text \<open>A full registration that stored its hash has put the service there, whatever the last call said.\<close>

lemma full_register_effect:
  assumes "writes_ok C regs" "consul_full_register E dur C s ttl h (c, st) = (err, c', st')"
  obtains (failed) "c' = c" "regs st' = regs st" "err \<noteq> None"
  | (stored) ck where "c' = c\<lparr>cr_register := (cr_register c)(InstanceID (Nodes s ! 0) \<mapsto> h)\<rparr>"
      "regs st' = (regs st)(InstanceID (Nodes s ! 0) \<mapsto> registration E (cr_connect c) s ck)"
proof -
  define ck where "ck = registration_check dur (cr_tcp_check c) ttl (Nodes s ! 0)"
  obtain e1 st1 where r: "ServiceRegister C (registration E (cr_connect c) s ck) st = (e1, st1)" by fastforce
  show thesis
  proof (cases e1)
    case (Some e)
    with assms(2) r writes_register(2)[OF assms(1), of _ st e st1] show thesis
      by (intro failed) (auto simp: consul_full_register_def ck_def Let_def)
  next
    case None
    obtain e2 st2 where p: "PassTTL C (''service:'' @ InstanceID (Nodes s ! 0)) st1 = (e2, st2)" by fastforce
    have "c' = c\<lparr>cr_register := (cr_register c)(InstanceID (Nodes s ! 0) \<mapsto> h)\<rparr> \<and> (st' = st1 \<or> st' = st2)"
      using assms(2) None r p by (auto simp: consul_full_register_def ck_def Let_def split: if_splits)
    moreover have "regs st2 = regs st1" using writes_PassTTL[OF assms(1) p] by simp
    moreover have "regs st1 = (regs st)(InstanceID (Nodes s ! 0) \<mapsto> registration E (cr_connect c) s ck)"
      using writes_register(1)[OF assms(1) r[unfolded None]] by simp
    ultimately show thesis by (intro stored[of ck]) auto
  qed
qed

lemma hashes_true_stored:
  assumes "hashes_true E hash regs S (c, st)" "s \<in> S" "Nodes s \<noteq> []" "hash s = Inr h"
    "regs st' = (regs st)(i \<mapsto> registration E (cr_connect c) s ck)"
  shows "hashes_true E hash regs S (c\<lparr>cr_register := (cr_register c)(i \<mapsto> h)\<rparr>, st')"
  using assms unfolding hashes_true_def registered_as_def by (auto split: if_splits)

lemma hashes_true_lost:
  assumes "hashes_true E hash regs S (c, st)" "regs st' \<subseteq>\<^sub>m regs st"
  shows "hashes_true E hash regs S (c, st')"
  using assms unfolding hashes_true_def map_le_def by (metis domI fst_conv snd_conv)

lemma hashes_true_full:
  assumes "writes_ok C regs" "hashes_true E hash regs S (c, st)" "s \<in> S" "Nodes s \<noteq> []" "hash s = Inr h"
    "consul_full_register E dur C s ttl h (c, st) = (err, c', st')"
  shows "hashes_true E hash regs S (c', st')"
proof (cases rule: full_register_effect[OF assms(1,6), case_names failed stored])
  case failed
  with assms(2) show ?thesis by (simp add: hashes_true_def)
next
  case (stored ck)
  then show ?thesis using hashes_true_stored[OF assms(2-5)] by simp
qed


lemma consul_Register_eq:
  assumes "hash s = Inr h" "Nodes s \<noteq> []" "PassTTL C (''service:'' @ InstanceID (Nodes s ! 0)) st = (e1, st1)"
  shows "consul_Register E dur hash C s ttl (c, st) =
    (if cr_register c (InstanceID (Nodes s ! 0)) = Some h
     then (if e1 = None then (None, c, st1) else consul_full_register E dur C s ttl h (c, st1))
     else consul_full_register E dur C s ttl h (c, st))"
  using assms by (cases e1) (simp_all add: consul_Register_def Let_def)

lemma hashes_true_step:
  assumes "writes_ok C regs" "hashes_true E hash regs S cst" "consul_step E dur hash C regs S cst cst'"
  shows "hashes_true E hash regs S cst'"
  using assms(3)
proof cases
  case (register s ttl err)
  obtain c st c' st' where cst: "cst = (c, st)" "cst' = (c', st')" by (cases cst, cases cst')
  note t = assms(2)[unfolded cst(1)] and reg = register(2)[unfolded cst]
  show ?thesis
  proof (cases "Nodes s = []")
    case False
    show ?thesis
    proof (cases "hash s")
      case (Inr h)
      obtain e1 st1 where p: "PassTTL C (''service:'' @ InstanceID (Nodes s ! 0)) st = (e1, st1)" by fastforce
      have skip: "hashes_true E hash regs S (c, st1)"
        using t writes_PassTTL[OF assms(1) p] by (simp add: hashes_true_def)
      have full: "hashes_true E hash regs S (c', st')"
        if "hashes_true E hash regs S (c, st0)" "consul_full_register E dur C s ttl h (c, st0) = (err, c', st')" for st0
        using hashes_true_full[OF assms(1) that(1) register(1) False Inr that(2)] .
      show ?thesis
        using reg full[OF t] full[OF skip] skip unfolding consul_Register_eq[of hash, OF Inr False p] cst
        by (auto split: if_splits)
    qed (use reg t in \<open>auto simp: consul_Register_def cst split: if_splits\<close>)
  qed (use reg t in \<open>auto simp: consul_Register_def cst split: if_splits\<close>)
next
  case (deregister s err)
  obtain c st c' st' where cst: "cst = (c, st)" "cst' = (c', st')" by (cases cst, cases cst')
  obtain e1 st1 where p: "ServiceDeregister C (InstanceID (Nodes s ! 0)) st = (e1, st1)" by fastforce
  have "hashes_true E hash regs S (c\<lparr>cr_register := (cr_register c)(InstanceID (Nodes s ! 0) := None)\<rparr>, st)"
    using assms(2) cst by (auto simp: hashes_true_def split: if_splits)
  from hashes_true_lost[OF this writes_deregister[OF assms(1) p]] show ?thesis
    using deregister assms(2) cst p by (auto simp: consul_Deregister_def Let_def split: if_splits)
next
  case (lose st' st c)
  then show ?thesis using assms(2) hashes_true_lost[of E hash regs S c st st'] by simp
qed

interpretation consul_sys: invariant_system consul_init "consul_step E dur hash C regs S"
  "\<lambda>cst. writes_ok C regs \<longrightarrow> hashes_true E hash regs S cst" for E dur hash C regs S
proof
  show "consul_init cst \<Longrightarrow> writes_ok C regs \<longrightarrow> hashes_true E hash regs S cst" for cst
    by (simp add: consul_init_def hashes_true_def)
  show "writes_ok C regs \<longrightarrow> hashes_true E hash regs S cst'"
    if "writes_ok C regs \<longrightarrow> hashes_true E hash regs S cst" "consul_step E dur hash C regs S cst cst'" for cst cst'
    using that hashes_true_step by blast
qed

text \<open>After a registration that succeeded, whether it was a full one or only passed the check, the
  agent has the service as it is now.\<close>

lemma register_effect:
  assumes "writes_ok C regs" "hashes_true E hash regs S cst" "s \<in> S" "inj_on hash S"
    "consul_Register E dur hash C s ttl cst = (None, cst')"
  shows "Nodes s \<noteq> [] \<and> (\<exists>ck. regs (snd cst') (InstanceID (Nodes s ! 0)) =
    Some (registration E (cr_connect (fst cst')) s ck))"
proof -
  obtain c st c' st' where cst: "cst = (c, st)" "cst' = (c', st')" by (cases cst, cases cst')
  let ?id = "InstanceID (Nodes s ! 0)"
  have ne: "Nodes s \<noteq> []"
    using assms(5) unfolding cst consul_Register_def by (cases "Nodes s = []") simp_all
  have "hash s \<noteq> Inl err" for err
    using assms(5) ne unfolding cst consul_Register_def by (cases "hash s = Inl err") simp_all
  then obtain h where h: "hash s = Inr h" by (cases "hash s") auto
  obtain e1 st1 where p: "PassTTL C (''service:'' @ ?id) st = (e1, st1)" by fastforce
  have full: "\<exists>ck. regs st' ?id = Some (registration E (cr_connect c') s ck)"
    if "consul_full_register E dur C s ttl h (c, st0) = (None, c', st')" for st0
    by (cases rule: full_register_effect[OF assms(1) that]) auto
  consider "cr_register c ?id = Some h" "e1 = None" "c' = c" "st' = st1"
    | st0 where "consul_full_register E dur C s ttl h (c, st0) = (None, c', st')"
    using assms(5) unfolding cst consul_Register_eq[of hash, OF h ne p]
    by (cases "cr_register c ?id = Some h"; cases e1) simp_all
  then show ?thesis
  proof cases
    case 1
    then have "?id \<in> dom (regs st)" "regs st1 = regs st" using writes_PassTTL[OF assms(1) p] by auto
    then obtain asr where asr: "regs st ?id = Some asr" by auto
    then have "registered_as E hash S (cr_connect c) h asr"
      using assms(2) 1(1) unfolding cst hashes_true_def by simp
    then obtain s' ck where "s' \<in> S" "hash s' = Inr h" "asr = registration E (cr_connect c) s' ck"
      unfolding registered_as_def by blast
    moreover have "s' = s" using inj_onD[OF assms(4), of s' s] calculation assms(3) h by simp
    ultimately have "regs st' ?id = Some (registration E (cr_connect c') s ck)"
      using 1(3,4) \<open>regs st1 = regs st\<close> asr by simp
    with ne show ?thesis unfolding cst by auto
  next
    case 2
    with full[OF this] ne show ?thesis unfolding cst by simp
  qed
qed

section \<open>What is registered is found\<close>

lemma decodeStartedAt_registration:
  assumes "0 \<le> StartedAt (Nodes s ! 0)" "StartedAt (Nodes s ! 0) < 2 ^ 63"
  shows "decodeStartedAt (asr_Meta (registration E connect s ck)) = StartedAt (Nodes s ! 0)"
proof -
  let ?i = "StartedAt (Nodes s ! 0)"
  have "ParseInt64 (FormatInt ?i) = Some ?i" using assms by (intro ParseInt64_FormatInt) auto
  moreover from this have "FormatInt ?i \<noteq> []" by (auto simp: ParseInt64_def)
  ultimately show ?thesis
    using assms(1) by (simp add: decodeStartedAt_def registration_def map_str_def consulStartedAtKey_def Let_def)
qed

lemma registration_decoded:
  assumes "zlib_ok E" "metadata_ok E (go_map (nd_Metadata n))" "\<forall>e \<in> set (Endpoints s). endpoint_ok E e"
    "Nodes s = n # ns" "0 \<le> StartedAt n" "StartedAt n < 2 ^ 63" "Address n \<noteq> []"
    "entry_of (registration E connect s ck) e"
  shows "entry_version E e = Version s"
    and "entry_node E e = Ret (n\<lparr>nd_Metadata := Some (go_map (nd_Metadata n))\<rparr>)"
proof -
  note t = tags_roundtrip[OF assms(1-3), of "Version s"]
  have tags: "se_Tags e = encodeMetadata E (go_map (nd_Metadata n)) @ encodeEndpoints E (Endpoints s) @ encodeVersion E (Version s)"
    using assms(4,8) by (simp add: entry_of_def registration_def Let_def)
  show "entry_version E e = Version s" using t tags by (simp add: entry_version_def)
  have "decodeStartedAt (se_Meta e) = StartedAt n"
    using decodeStartedAt_registration[of s E connect ck] assms(4-6,8) by (simp add: entry_of_def)
  moreover have "map_str (se_Meta e) consulServerIDKey = ServerID n"
    using assms(4,8) by (simp add: entry_of_def registration_def map_str_def consulServerIDKey_def consulStartedAtKey_def Let_def)
  ultimately show "entry_node E e = Ret (n\<lparr>nd_Metadata := Some (go_map (nd_Metadata n))\<rparr>)"
    using assms(4,7,8) t tags by (simp add: entry_node_def entry_of_def registration_def Let_def)
qed

lemma live_entry_found:
  assumes "groups E es m" "e \<in> set es" "\<not> critical e" "entry_node E e = Ret n"
  shows "\<exists>s. (entry_version E e, s) \<in> set m \<and> Version s = entry_version E e \<and> n \<in> set (Nodes s)"
proof -
  have "entry_version E e \<in> fst ` set m" using assms(1,2) by (simp add: groups_def)
  then obtain s where s: "(entry_version E e, s) \<in> set m" by auto
  then have "Version s = entry_version E e" and
    ns: "map Ret (Nodes s) = map (entry_node E) (live_entries E (entry_version E e) es)"
    using assms(1) by (auto simp: groups_def)
  moreover have "e \<in> set (live_entries E (entry_version E e) es)" using assms(2,3) by (simp add: live_entries_def)
  then have "Ret n \<in> set (map Ret (Nodes s))" unfolding ns set_map using assms(4) image_eqI by metis
  then have "n \<in> set (Nodes s)" by auto
  ultimately show ?thesis using s by blast
qed


lemma GetService_entries:
  assumes "health C (cr_connect c) nm st = Inr rsp" "add_entries E (filter (\<lambda>e. se_Service e = nm) rsp) [] = Ret m"
  shows "consul_GetService E shuffle C nm (c, st) = Ret (Inr (map snd (shuffle m)))"
  using assms by (simp add: consul_GetService_def)

text \<open>C11: a service that was registered on Consul is found. After any history of the process (registering
  services of \<open>S\<close> with different hashes, taking them back, the agent losing some), if \<open>Register\<close>
  succeeds, whether it went through the agent or only passed the check of a service it had registered
  before, then \<open>GetService\<close> returns, under its version, the first node with the address, port, start
  time, server and metadata it was registered with. The rest is what this needs: the node has an
  address and a start time of 64 bits, no check of it is critical, and no other service of this name
  has a tag that makes the decoder panic.\<close>

theorem registered_service_found:
  assumes "writes_ok C regs" "query_ok C regs" "zlib_ok E" "\<And>m. mset (shuffle m) = mset m"
    "reach consul_init (consul_step E dur hash C regs S) cst" "s \<in> S" "inj_on hash S"
    "Nodes s = n # ns" "metadata_ok E (go_map (nd_Metadata n))" "\<forall>e \<in> set (Endpoints s). endpoint_ok E e"
    "0 \<le> StartedAt n" "StartedAt n < 2 ^ 63" "Address n \<noteq> []"
    "consul_Register E dur hash C s ttl cst = (None, cst')"
    "health C (cr_connect (fst cst')) (Name s) (snd cst') = Inr rsp"
    "\<forall>e \<in> set rsp. se_Service e = Name s \<longrightarrow> readable_tags (se_Tags e)"
    "\<forall>e \<in> set rsp. se_ID e = InstanceID n \<longrightarrow> \<not> critical e"
  shows "\<exists>ss sv. consul_GetService E shuffle C (Name s) cst' = Ret (Inr ss) \<and> sv \<in> set ss \<and>
    Name sv = Name s \<and> Version sv = Version s \<and> n\<lparr>nd_Metadata := Some (go_map (nd_Metadata n))\<rparr> \<in> set (Nodes sv)"
proof -
  have "hashes_true E hash regs S cst" using consul_sys.inv_reach[OF assms(5)] assms(1) by blast
  from register_effect[OF assms(1) this assms(6,7,14)] obtain ck
    where ck: "regs (snd cst') (InstanceID n) = Some (registration E (cr_connect (fst cst')) s ck)"
    using assms(8) by auto
  let ?asr = "registration E (cr_connect (fst cst')) s ck" and ?es = "filter (\<lambda>e. se_Service e = Name s) rsp"
  obtain e where e: "e \<in> set rsp" "entry_of ?asr e"
    using assms(2,15) ck unfolding query_ok_def by (fastforce simp: registration_def Let_def)
  note dec = registration_decoded[OF assms(3,9,10,8,11-13) e(2)]
  have "se_Service e = Name s" "se_ID e = InstanceID n"
    using e(2) assms(8) by (simp_all add: entry_of_def registration_def Let_def)
  then have live: "e \<in> set ?es" "\<not> critical e" using e(1) assms(17) by auto
  obtain m where m: "add_entries E ?es [] = Ret m" using add_entries_readable[of ?es E "[]"] assms(16) by auto
  obtain sv where sv: "(Version s, sv) \<in> set m" "Version sv = Version s"
      "n\<lparr>nd_Metadata := Some (go_map (nd_Metadata n))\<rparr> \<in> set (Nodes sv)"
    using live_entry_found[OF add_entries_groups[OF m] live dec(2)] dec(1) by auto
  moreover have "sv \<in> set (map snd (shuffle m))"
    using sv(1) mset_eq_setD[OF assms(4), of m] by force
  moreover have "Name sv = Name s" using add_entries_groups[OF m] sv(1) by (auto simp: groups_def)
  ultimately show ?thesis
    using GetService_entries[of C "fst cst'" "Name s" "snd cst'", OF assms(15) m] by auto
qed

text \<open>An agent that keeps a list, compression that does nothing, and one service.\<close>

definition list_regs :: "agent_registration list \<Rightarrow> string \<rightharpoonup> agent_registration" where
  "list_regs st = map_of (map (\<lambda>a. (asr_ID a, a)) st)"

definition list_entries :: "bool \<Rightarrow> string \<Rightarrow> agent_registration list \<Rightarrow> service_entry list" where
  "list_entries connect nm st =
     map (\<lambda>a. \<lparr>se_Service = asr_Name a, se_ID = asr_ID a, se_Tags = asr_Tags a, se_Meta = asr_Meta a,
       se_Address = asr_Address a, se_Port = asr_Port a, se_NodeAddress = [], se_Checks = [''passing'']\<rparr>)
       (filter (\<lambda>a. asr_Name a = nm \<and> asr_Connect a = connect) st)"

definition list_client :: "agent_registration list consul_client" where
  "list_client = \<lparr>
     PassTTL = (\<lambda>key st. (if key \<in> (\<lambda>a. ''service:'' @ asr_ID a) ` set st then None else Some EOF, st)),
     ServiceRegister = (\<lambda>asr st. (None, asr # st)),
     ServiceDeregister = (\<lambda>i st. (None, filter (\<lambda>a. asr_ID a \<noteq> i) st)),
     Health_Service = (\<lambda>nm st. Inr (list_entries False nm st)),
     Health_Connect = (\<lambda>nm st. Inr (list_entries True nm st)),
     Catalog_Services = (\<lambda>st. Inr (remdups (map asr_Name st)))\<rparr>"

definition plain_tag_env :: tag_env where
  "plain_tag_env = \<lparr>zlib_write = Some, zlib_read = Some, json_endpoint = (\<lambda>_. None), unjson_endpoint = (\<lambda>_. None),
     json_pair = (\<lambda>_ _. None), unjson_strings = (\<lambda>_. None), map_items = (\<lambda>_. [])\<rparr>"

definition one_service :: service where
  "one_service = \<lparr>Name = ''chat'', Version = ''1.0'', sv_Metadata = None, Endpoints = [],
     Nodes = [\<lparr>StartedAt = 5, ServerID = ''chat@1'', InstanceID = ''chat@1#a'', Address = ''10.0.0.1'', Port = 80,
       nd_Metadata = None\<rparr>]\<rparr>"

definition fresh_registry :: consul_registry where
  "fresh_registry = \<lparr>cr_Address = [], cr_connect = False, cr_tcp_check = None, cr_register = Map.empty\<rparr>"

lemma list_writes_ok: "writes_ok list_client list_regs"
proof -
  have "list_regs (filter (\<lambda>a. asr_ID a \<noteq> i) st) = (list_regs st)(i := None)" for i st
    by (induction st) (auto simp: list_regs_def fun_eq_iff)
  moreover have "i \<in> asr_ID ` set st \<Longrightarrow> i \<in> dom (list_regs st)" for i st
    by (auto simp: list_regs_def dom_map_of_conv_image_fst image_image)
  ultimately show ?thesis
    by (auto simp: writes_ok_def list_client_def list_regs_def image_iff split: if_splits)
qed

lemma list_query_ok: "query_ok list_client list_regs"
  unfolding query_ok_def health_def list_client_def
  by (auto simp: list_entries_def list_regs_def entry_of_def dest!: map_of_SomeD split: if_splits)


lemma plain_zlib: "zlib_ok plain_tag_env"
  by (simp add: zlib_ok_def plain_tag_env_def)

lemma plain_metadata: "metadata_ok plain_tag_env Map.empty"
  by (simp add: metadata_ok_def plain_tag_env_def)

text \<open>The service is registered a second time: the agent is only told that it is alive.\<close>

definition one_registration :: agent_registration where
  "one_registration = registration plain_tag_env False one_service None"

lemma registered_once:
  "consul_Register plain_tag_env (\<lambda>_. []) (\<lambda>_. Inr 7) list_client one_service 0 (fresh_registry, []) =
    (None, fresh_registry\<lparr>cr_register := [''chat@1#a'' \<mapsto> 7]\<rparr>, [one_registration])"
  by (simp add: consul_Register_def consul_full_register_def fresh_registry_def list_client_def one_service_def
      registration_check_def one_registration_def)

lemma registered_again:
  "consul_Register plain_tag_env (\<lambda>_. []) (\<lambda>_. Inr 7) list_client one_service 0
      (fresh_registry\<lparr>cr_register := [''chat@1#a'' \<mapsto> 7]\<rparr>, [one_registration]) =
    (None, fresh_registry\<lparr>cr_register := [''chat@1#a'' \<mapsto> 7]\<rparr>, [one_registration])"
  by (simp add: consul_Register_def list_client_def one_service_def one_registration_def)

lemma one_registration_tags: "readable_tags (asr_Tags one_registration)"
  by (simp add: one_registration_def registration_def readable_tags_def encodeMetadata_def encodeEndpoints_def
      encodeVersion_def plain_tag_env_def one_service_def Let_def)

theorem registered_service_found_witness:
  "\<exists>ss sv. consul_GetService plain_tag_env rev list_client ''chat''
      (fresh_registry\<lparr>cr_register := [''chat@1#a'' \<mapsto> 7]\<rparr>, [one_registration]) = Ret (Inr ss) \<and> sv \<in> set ss \<and>
    Name sv = ''chat'' \<and> Version sv = ''1.0'' \<and>
    (Nodes one_service ! 0)\<lparr>nd_Metadata := Some Map.empty\<rparr> \<in> set (Nodes sv)"
proof -
  let ?step = "consul_step plain_tag_env (\<lambda>_. []) (\<lambda>_. Inr 7) list_client list_regs {one_service}"
  let ?cst = "(fresh_registry\<lparr>cr_register := [''chat@1#a'' \<mapsto> 7]\<rparr>, [one_registration])"
  have "consul_init (fresh_registry, [])" by (simp add: consul_init_def fresh_registry_def)
  moreover have "?step (fresh_registry, []) ?cst"
    using registered_once by (intro consul_step.register[where s = one_service and ttl = 0]) simp_all
  ultimately have r: "reach consul_init ?step ?cst" by (blast intro: reach.intros)
  have h: "health list_client (cr_connect (fst ?cst)) (Name one_service) (snd ?cst) =
      Inr (list_entries False ''chat'' [one_registration])"
    by (simp add: health_def list_client_def fresh_registry_def one_service_def)
  have e: "\<forall>e \<in> set (list_entries False ''chat'' [one_registration]). readable_tags (se_Tags e) \<and> \<not> critical e"
    using one_registration_tags by (simp add: list_entries_def critical_def)
  have one: "Name one_service = ''chat''" "Version one_service = ''1.0''" "go_map (nd_Metadata (Nodes one_service ! 0)) = Map.empty"
    by (simp_all add: one_service_def go_map_def)
  have "Nodes one_service = Nodes one_service ! 0 # []" by (simp add: one_service_def)
  from registered_service_found[OF list_writes_ok list_query_ok plain_zlib _ r _ _ this _ _ _ _ _ registered_again h, of rev]
  show ?thesis unfolding one using plain_metadata e by (simp add: one_service_def)
qed

section \<open>Configurations\<close>

text \<open>A timeout without a secure connection needs an HTTP client in the configuration; there is none in
  the default one.\<close>

lemma configure_timeout_panics:
  assumes "cc_HttpClient dflt = None" "co_Timeout (fold (\<lambda>f os. f os) opts default_options) > 0"
    "co_consul_config (fold (\<lambda>f os. f os) opts default_options) = None"
    "\<not> co_Secure (fold (\<lambda>f os. f os) opts default_options)"
    "co_TLSConfig (fold (\<lambda>f os. f os) opts default_options) = None"
  shows "newConsulRegistry dflt opts = Panic ''invalid memory address or nil pointer dereference''"
  using assms
  by (auto simp: newConsulRegistry_def configure_def config_secure_def config_timeout_def config_address_def Let_def
      split: list.splits sum.splits)

text \<open>The brackets of an IPv6 address are taken off and not put back.\<close>

lemma configure_ipv6:
  "cc_Address (config_address [''[::1]:8500''] dflt) = ''::1:8500''"
  by (simp add: config_address_def SplitHostPort_def split_brackets_def index_byte_def last_index_byte_def
      upt_rec nth_Cons')

lemma getDeregisterTTL_min: "t < 2 ^ 62 \<Longrightarrow> getDeregisterTTL t \<ge> 65 * go_Second \<and> getDeregisterTTL t > t"
  by (auto simp: getDeregisterTTL_def go_Second_def wrap64_def)

end
