(* ===== verification/Cache_Selector.thy ===== *)
theory Cache_Selector
  imports Selector
begin

text \<open>
  The caching selector (\<^verbatim>\<open>src/selector/cache/cache.go\<close>): the cache of service lists with its
  expiry times, \<open>get\<close>, and \<open>update\<close>, which applies the events of the registry's watcher. Time is
  an argument (nanoseconds), the registry too. \<open>cp\<close> copies services, nodes and endpoints; on values
  it is the identity. The second part runs the cache beside the registry in memory, with the
  events still under way in between, and shows that the cache catches up.
\<close>

section \<open>The cache\<close>

record cache_selector =
  c_ttl :: int
  c_cache :: "string \<rightharpoonup> service list"
  c_ttls :: "string \<rightharpoonup> int"
  c_watched :: "string set"
  c_exit :: bool

definition cache_NewSelector :: "int \<Rightarrow> cache_selector" where
  "cache_NewSelector ttl = \<lparr>c_ttl = ttl, c_cache = Map.empty, c_ttls = Map.empty, c_watched = {},
     c_exit = False\<rparr>"

definition cp :: "service list \<Rightarrow> service list" where
  "cp current = map (\<lambda>s. s\<lparr>Nodes := map (\<lambda>n. n) (Nodes s), Endpoints := map (\<lambda>e. e) (Endpoints s)\<rparr>) current"

definition c_del :: "string \<Rightarrow> cache_selector \<Rightarrow> cache_selector" where
  "c_del nm c = c\<lparr>c_cache := (c_cache c)(nm := None), c_ttls := (c_ttls c)(nm := None)\<rparr>"

definition c_set :: "int \<Rightarrow> string \<Rightarrow> service list \<Rightarrow> cache_selector \<Rightarrow> cache_selector" where
  "c_set now nm services c =
     c\<lparr>c_cache := (c_cache c)(nm \<mapsto> services), c_ttls := (c_ttls c)(nm \<mapsto> now + c_ttl c)\<rparr>"

text \<open>The inner \<open>get\<close>: ask the registry and cache the answer.\<close>

definition c_ask ::
    "(string \<Rightarrow> go_error + service list) \<Rightarrow> int \<Rightarrow> string \<Rightarrow> cache_selector
      \<Rightarrow> (go_error + service list) \<times> cache_selector" where
  "c_ask GetService now nm c =
     (case GetService nm of
        Inl e \<Rightarrow> (Inl e, c)
      | Inr services \<Rightarrow> (Inr services, c_set now nm (cp services) c))"

text \<open>
  When the entry has expired and the registry fails, \<open>services\<close> has already been overwritten by
  the failed call with nil, so what is returned is the copy of nil.
\<close>

definition c_get ::
    "(string \<Rightarrow> go_error + service list) \<Rightarrow> int \<Rightarrow> string \<Rightarrow> cache_selector
      \<Rightarrow> (go_error + service list) \<times> cache_selector" where
  "c_get GetService now nm c =
     (let c = c\<lparr>c_watched := insert nm (c_watched c)\<rparr>
      in case c_cache c nm of
           None \<Rightarrow> c_ask GetService now nm c
         | Some services \<Rightarrow>
             if length services = 0 then c_ask GetService now nm c
             else if (case c_ttls c nm of None \<Rightarrow> False | Some t \<Rightarrow> now - t < c_ttl c)
             then (Inr (cp services), c)
             else (case c_ask GetService now nm c of
                     (Inr services, c) \<Rightarrow> (Inr services, c)
                   | (Inl err, c) \<Rightarrow>
                       if err = registry_ErrNotFound then (Inl selector_ErrNotFound, c)
                       else (Inr (cp []), c)))"

section \<open>Updates\<close>

text \<open>The last service of the wanted version, as the loop without a break finds it.\<close>

definition version_index :: "string \<Rightarrow> service list \<Rightarrow> nat option" where
  "version_index v services =
     (case filter (\<lambda>i. Version (services ! i) = v) [0..<length services] of
        [] \<Rightarrow> None
      | is \<Rightarrow> Some (last is))"

definition merge_nodes :: "node list \<Rightarrow> node list \<Rightarrow> node list" where
  "merge_nodes new old =
     foldl (\<lambda>ns cur. if \<exists>n \<in> set ns. InstanceID cur = InstanceID n then ns else ns @ [cur]) new old"

definition cache_add :: "service list \<Rightarrow> service \<Rightarrow> service list" where
  "cache_add services res =
     (case version_index (Version res) services of
        None \<Rightarrow> services @ [res]
      | Some i \<Rightarrow> services[i := res\<lparr>Nodes := merge_nodes (Nodes res) (Nodes (services ! i))\<rparr>])"

definition dead_node :: "service \<Rightarrow> node \<Rightarrow> bool" where
  "dead_node res cur \<longleftrightarrow> (\<exists>d \<in> set (Nodes res). InstanceID d = InstanceID cur)"

text \<open>The list after a deletion, empty when the entry is to be dropped, and the nodes the watcher hears of.\<close>

definition cache_del :: "service list \<Rightarrow> service \<Rightarrow> service list" where
  "cache_del services res =
     (case version_index (Version res) services of
        None \<Rightarrow> services
      | Some i \<Rightarrow>
          let service = services ! i;
              nodes = filter (\<lambda>cur. \<not> dead_node res cur) (Nodes service)
          in if length nodes > 0 then services[i := service\<lparr>Nodes := nodes\<rparr>]
             else if length services = 1 then []
             else filter (\<lambda>s. Version s \<noteq> Version service) services)"

definition cache_removed :: "service list \<Rightarrow> service \<Rightarrow> node list" where
  "cache_removed services res =
     (case version_index (Version res) services of
        None \<Rightarrow> []
      | Some i \<Rightarrow> filter (dead_node res) (Nodes (services ! i)))"

text \<open>\<open>update\<close> for a result with its action; the nodes the watcher is called with are returned.\<close>

definition c_update :: "int \<Rightarrow> string \<Rightarrow> service \<Rightarrow> cache_selector \<Rightarrow> node list \<times> cache_selector" where
  "c_update now action res c =
     (let nm = Name res
      in case c_cache c nm of
           None \<Rightarrow> ([], c)
         | Some services \<Rightarrow>
             if length (Nodes res) = 0
             then (if action = ''delete'' then (service_nodes services, c_del nm c) else ([], c))
             else if action = ''create'' \<or> action = ''update''
             then ([], c_set now nm (cache_add services res) c)
             else if action = ''delete''
             then (case version_index (Version res) services of
                     None \<Rightarrow> ([], c)
                   | Some i \<Rightarrow>
                       let service = services ! i;
                           left = cache_del services res
                       in (cache_removed services res,
                           if left = [] then c_del (Name service) c else c_set now (Name service) left c))
             else ([], c))"

definition c_Reset :: "string \<Rightarrow> cache_selector \<Rightarrow> cache_selector" where
  "c_Reset nm c = c_del nm c"

text \<open>\<open>Close\<close> empties the cache and the set of watched names, but not the expiry times.\<close>

definition c_Close :: "cache_selector \<Rightarrow> cache_selector" where
  "c_Close c = c\<lparr>c_cache := Map.empty, c_watched := {}, c_exit := True\<rparr>"

definition c_Select ::
    "(string \<Rightarrow> go_error + service list) \<Rightarrow> int \<Rightarrow> (service list \<Rightarrow> service list) list \<Rightarrow> string
      \<Rightarrow> cache_selector \<Rightarrow> (go_error + service list) \<times> cache_selector" where
  "c_Select GetService now filters nm c =
     (case c_get GetService now nm c of
        (Inl e, c) \<Rightarrow> (Inl e, c)
      | (Inr services, c) \<Rightarrow>
          let services = LatestServices services;
              services = fold (\<lambda>f ss. f ss) filters services
          in (if length services = 0 then Inl ErrNoneAvailable else Inr services, c))"

section \<open>The cache's lists are a store\<close>

lemma cp_id [simp]: "cp ss = ss"
  by (simp add: cp_def)

lemma version_index_None: "version_index v ss = None \<longleftrightarrow> v \<notin> set (map Version ss)"
proof -
  have "version_index v ss = None \<longleftrightarrow> filter (\<lambda>i. Version (ss ! i) = v) [0..<length ss] = []"
    by (simp add: version_index_def split: list.splits)
  also have "\<dots> \<longleftrightarrow> (\<forall>i < length ss. Version (ss ! i) \<noteq> v)"
    by (auto simp: filter_empty_conv)
  also have "\<dots> \<longleftrightarrow> v \<notin> set (map Version ss)"
    by (metis in_set_conv_nth length_map nth_map)
  finally show ?thesis .
qed

lemma version_index_Some:
  assumes "version_index v ss = Some i"
  shows "i < length ss \<and> Version (ss ! i) = v"
proof -
  let ?is = "filter (\<lambda>i. Version (ss ! i) = v) [0..<length ss]"
  have "?is \<noteq> []" "i = last ?is" using assms by (auto simp: version_index_def split: list.splits)
  then have "i \<in> set ?is" using last_in_set by metis
  then show ?thesis by simp
qed

lemma sv_abs_update:
  assumes "distinct (map Version ss)" "i < length ss" "Version s = Version (ss ! i)"
  shows "sv_abs (ss[i := s]) = (sv_abs ss)(Version s \<mapsto> node_map (Nodes s))"
  using assms
proof (induction ss arbitrary: i)
  case (Cons x ss)
  show ?case
  proof (cases i)
    case 0
    with Cons.prems show ?thesis by (auto simp: sv_abs_Cons fun_eq_iff)
  next
    case (Suc j)
    with Cons.prems have "Version s \<in> set (map Version ss)" "Version x \<notin> set (map Version ss)" by auto
    then have "Version s \<noteq> Version x" by metis
    moreover have "sv_abs (ss[j := s]) = (sv_abs ss)(Version s \<mapsto> node_map (Nodes s))"
      using Cons.prems Suc by (intro Cons.IH) auto
    ultimately show ?thesis using Suc by (auto simp: sv_abs_Cons fun_eq_iff)
  qed
qed simp

lemma sv_abs_nth:
  "distinct (map Version ss) \<Longrightarrow> i < length ss \<Longrightarrow> sv_abs ss (Version (ss ! i)) = Some (node_map (Nodes (ss ! i)))"
  using fun_cong[OF sv_abs_update[of ss i "ss ! i"], of "Version (ss ! i)"] by simp

lemma services_ok_update:
  assumes "services_ok ss" "i < length ss" "Version s = Version (ss ! i)" "nodes_ok (Nodes s)"
  shows "services_ok (ss[i := s])"
proof -
  have "map Version (ss[i := s]) = map Version ss"
    using assms(2,3) by (simp add: map_update list_update_same_conv)
  with assms show ?thesis
    unfolding services_ok_def using set_update_subset_insert[of ss i s] by (metis insertE subsetD)
qed

lemma merge_nodes_spec:
  "distinct (map InstanceID old) \<Longrightarrow> distinct (map InstanceID new) \<Longrightarrow>
   node_map (merge_nodes new old) = node_map old ++ node_map new \<and>
   distinct (map InstanceID (merge_nodes new old))"
proof (induction old arbitrary: new)
  case Nil
  then show ?case by (simp add: merge_nodes_def node_map_def)
next
  case (Cons cur old)
  let ?k = "InstanceID cur"
  show ?case
  proof (cases "\<exists>n \<in> set new. ?k = InstanceID n")
    case True
    then have "?k \<in> dom (node_map new)" by (auto simp: node_map_dom)
    then have "node_map (cur # old) ++ node_map new = node_map old ++ node_map new"
      by (auto simp: node_map_Cons map_add_def fun_eq_iff split: option.splits)
    moreover have "merge_nodes new (cur # old) = merge_nodes new old"
      using True by (simp add: merge_nodes_def)
    ultimately show ?thesis using Cons by simp
  next
    case False
    then have fresh: "?k \<notin> dom (node_map new)" "?k \<notin> set (map InstanceID new)"
      by (auto simp: node_map_dom)
    have "merge_nodes new (cur # old) = merge_nodes (new @ [cur]) old"
      using False by (simp add: merge_nodes_def)
    moreover have "node_map old ++ node_map (new @ [cur]) = node_map (cur # old) ++ node_map new"
      unfolding node_map_snoc[OF fresh(2)] node_map_Cons map_add_upd
      using map_add_upd_left[OF fresh(1)] by simp
    ultimately show ?thesis using Cons fresh(2) by auto
  qed
qed

lemma merge_nodes_nonempty: "new \<noteq> [] \<Longrightarrow> merge_nodes new old \<noteq> []"
  unfolding merge_nodes_def by (induction old arbitrary: new) auto

lemma cache_add_spec:
  assumes "services_ok ss" "nodes_ok (Nodes s)"
  shows "services_ok (cache_add ss s) \<and> sv_abs (cache_add ss s) = abs_add s (sv_abs ss)"
proof (cases "version_index (Version s) ss")
  case None
  then have fresh: "Version s \<notin> set (map Version ss)" by (simp only: version_index_None) simp
  with None assms show ?thesis
    using sv_abs_None[of ss "Version s"] sv_abs_snoc[OF fresh]
    by (auto simp: cache_add_def services_ok_def abs_add_def)
next
  case (Some i)
  then have i: "i < length ss" "Version (ss ! i) = Version s" using version_index_Some by auto
  let ?s = "s\<lparr>Nodes := merge_nodes (Nodes s) (Nodes (ss ! i))\<rparr>"
  have d: "distinct (map InstanceID (Nodes (ss ! i)))" "distinct (map InstanceID (Nodes s))" "Nodes s \<noteq> []"
    using assms i(1) by (auto simp: services_ok_def nodes_ok_def)
  note m = merge_nodes_spec[OF d(1,2)]
  have "nodes_ok (Nodes ?s)" using m merge_nodes_nonempty[OF d(3)] by (simp add: nodes_ok_def)
  then have "services_ok (ss[i := ?s])" using assms(1) i by (intro services_ok_update) auto
  moreover have "sv_abs (ss[i := ?s]) = (sv_abs ss)(Version s \<mapsto> node_map (Nodes (ss ! i)) ++ node_map (Nodes s))"
    using sv_abs_update[of ss i ?s] assms(1) i m by (simp add: services_ok_def)
  moreover have "sv_abs ss (Version s) = Some (node_map (Nodes (ss ! i)))"
    using sv_abs_nth[of ss i] assms(1) i by (simp add: services_ok_def)
  ultimately show ?thesis using Some by (simp add: cache_add_def abs_add_def)
qed

lemma dead_filter: "filter (\<lambda>cur. \<not> dead_node res cur) ns = delNodes ns (Nodes res)"
  by (auto simp: delNodes_def dead_node_def intro!: filter_cong)

lemma sv_abs_filter: "sv_abs (filter (\<lambda>s. Version s \<noteq> v) ss) = (sv_abs ss)(v := None)"
  by (induction ss) (auto simp: sv_abs_def fun_eq_iff)

lemma cache_del_spec:
  assumes "services_ok ss"
  shows "services_ok (cache_del ss s) \<and> sv_abs (cache_del ss s) = abs_del s (sv_abs ss)"
proof (cases "version_index (Version s) ss")
  case None
  then have "sv_abs ss (Version s) = None" by (simp only: version_index_None sv_abs_None) simp
  with None assms show ?thesis by (simp add: cache_del_def abs_del_def)
next
  case (Some i)
  then have i: "i < length ss" "Version (ss ! i) = Version s" using version_index_Some by auto
  let ?ns = "delNodes (Nodes (ss ! i)) (Nodes s)"
  have abs: "sv_abs ss (Version s) = Some (node_map (Nodes (ss ! i)))"
    using sv_abs_nth[of ss i] assms i by (simp add: services_ok_def)
  have ns: "node_map (Nodes (ss ! i)) |` (- InstanceID ` set (Nodes s)) = node_map ?ns"
    by (simp add: node_map_delNodes)
  have a: "abs_del s (sv_abs ss) =
      (sv_abs ss)(Version s := (if ?ns = [] then None else Some (node_map ?ns)))"
    using abs by (simp add: abs_del_def ns node_map_empty Let_def)
  show ?thesis
  proof (cases "?ns = []")
    case False
    have "nodes_ok ?ns"
      using False assms i(1) by (auto simp: services_ok_def nodes_ok_def delNodes_def distinct_map_filter)
    then have "services_ok (ss[i := (ss ! i)\<lparr>Nodes := ?ns\<rparr>])"
      using assms i by (intro services_ok_update) auto
    moreover have "sv_abs (ss[i := (ss ! i)\<lparr>Nodes := ?ns\<rparr>]) = (sv_abs ss)(Version s \<mapsto> node_map ?ns)"
      using sv_abs_update[of ss i "(ss ! i)\<lparr>Nodes := ?ns\<rparr>"] assms i by (simp add: services_ok_def)
    ultimately show ?thesis using Some False a by (simp add: cache_del_def dead_filter Let_def)
  next
    case True
    have "services_ok (filter (\<lambda>s'. Version s' \<noteq> Version s) ss)"
      using assms by (auto simp: services_ok_def distinct_map_filter)
    moreover have "length ss = 1 \<Longrightarrow> filter (\<lambda>s'. Version s' \<noteq> Version s) ss = []"
      using i by (cases ss) auto
    ultimately show ?thesis
      using Some True a i sv_abs_filter[of "Version s" ss] by (auto simp: cache_del_def dead_filter Let_def)
  qed
qed

interpretation cache_store: service_store cache_add cache_del
  by unfold_locales (use cache_add_spec cache_del_spec in auto)

section \<open>Cache and registry together\<close>

text \<open>
  A registry that reports every change on the watcher of the changed service, in order. The
  events not yet delivered are kept per service, since \<open>get\<close> starts one \<open>run\<close> per service.
  \<open>sv_flat\<close> is the meaning of a list of services with the two levels of maps joined; an event
  overwrites it at some keys, with a node or with nothing.
\<close>

record sync_state =
  sy_reg :: mock_registry
  sy_cache :: cache_selector
  sy_pending :: "string \<Rightarrow> store_event list"

fun event_action :: "store_event \<Rightarrow> string" where
  "event_action (Added s) = ''create''"
| "event_action (Deleted s) = ''delete''"

fun registry_event :: "store_event \<Rightarrow> mock_registry \<Rightarrow> mock_registry" where
  "registry_event (Added s) = mock_Register s"
| "registry_event (Deleted s) = mock_Deregister s"

definition event_name :: "store_event \<Rightarrow> string" where
  "event_name e = Name (event_service e)"

inductive sync_step :: "sync_state \<Rightarrow> sync_state \<Rightarrow> bool" where
  change: "event_ok e \<Longrightarrow> event_name e = nm \<Longrightarrow>
    sync_step s (s\<lparr>sy_reg := registry_event e (sy_reg s), sy_pending := (sy_pending s)(nm := sy_pending s nm @ [e])\<rparr>)"
| deliver: "sy_pending s nm = e # es \<Longrightarrow>
    sync_step s (s\<lparr>sy_cache := snd (c_update now (event_action e) (event_service e) (sy_cache s)),
      sy_pending := (sy_pending s)(nm := es)\<rparr>)"
| look_up: "sync_step s (s\<lparr>sy_cache := snd (c_get (mock_GetService (sy_reg s)) now nm (sy_cache s))\<rparr>)"
| look_up_fails: "sync_step s (s\<lparr>sy_cache := snd (c_get (\<lambda>_. Inl err) now nm (sy_cache s))\<rparr>)"
| reset: "sync_step s (s\<lparr>sy_cache := c_Reset nm (sy_cache s)\<rparr>)"
| close: "sync_step s (s\<lparr>sy_cache := c_Close (sy_cache s)\<rparr>)"

definition sync_init :: "sync_state \<Rightarrow> bool" where
  "sync_init s \<longleftrightarrow> sy_reg s = Map.empty \<and> sy_pending s = (\<lambda>_. []) \<and> (\<exists>ttl. sy_cache s = cache_NewSelector ttl)"

definition sv_flat :: "service list \<Rightarrow> string \<times> string \<rightharpoonup> node" where
  "sv_flat ss = (\<lambda>(v, i). case sv_abs ss v of None \<Rightarrow> None | Some m \<Rightarrow> m i)"

fun event_patch :: "store_event \<Rightarrow> string \<times> string \<rightharpoonup> node option" where
  "event_patch (Added s) = (\<lambda>(v, i). if v = Version s then map_option Some (node_map (Nodes s) i) else None)"
| "event_patch (Deleted s) = (\<lambda>(v, i). if v = Version s \<and> i \<in> InstanceID ` set (Nodes s) then Some None else None)"

definition patch :: "('k \<rightharpoonup> 'v option) \<Rightarrow> ('k \<rightharpoonup> 'v) \<Rightarrow> ('k \<rightharpoonup> 'v)" where
  "patch p x = (\<lambda>k. case p k of None \<Rightarrow> x k | Some y \<Rightarrow> y)"

definition replay :: "store_event list \<Rightarrow> (string \<times> string \<rightharpoonup> node) \<Rightarrow> (string \<times> string \<rightharpoonup> node)" where
  "replay es x = fold (\<lambda>e. patch (event_patch e)) es x"

definition list_ok :: "string \<Rightarrow> service list \<Rightarrow> bool" where
  "list_ok nm ss \<longleftrightarrow> services_ok ss \<and> (\<forall>s \<in> set ss. Name s = nm)"

definition sync_at :: "string \<Rightarrow> service list \<Rightarrow> store_event list \<Rightarrow> service list option \<Rightarrow> bool" where
  "sync_at nm registered pending entry \<longleftrightarrow>
     list_ok nm registered \<and>
     (\<forall>e \<in> set pending. event_ok e \<and> event_name e = nm) \<and>
     replay pending (sv_flat registered) = sv_flat registered \<and>
     (\<forall>ss. entry = Some ss \<longrightarrow> list_ok nm ss \<and> replay pending (sv_flat ss) = sv_flat registered)"

definition sync_inv :: "sync_state \<Rightarrow> bool" where
  "sync_inv s \<longleftrightarrow>
     (\<forall>nm. sync_at nm (mock_services (sy_reg s) nm) (sy_pending s nm) (c_cache (sy_cache s) nm))"

subsection \<open>Replaying events\<close>

lemma replay_simps [simp]:
  "replay [] x = x"
  "replay (e # es) x = replay es (patch (event_patch e) x)"
  "replay (es @ [e]) x = patch (event_patch e) (replay es x)"
  by (simp_all add: replay_def)

lemma replay_at:
  "(\<exists>y. \<forall>x. replay es x k = y) \<or> (\<forall>x. replay es x k = x k)"
proof (induction es)
  case (Cons e es)
  then show ?case by (cases "event_patch e k") (auto simp: patch_def)
qed simp

lemma replay_known_event:
  assumes "replay es x = x"
  shows "replay (es @ [e]) (patch (event_patch e) x) = patch (event_patch e) x"
proof
  fix k
  show "replay (es @ [e]) (patch (event_patch e) x) k = patch (event_patch e) x k"
  proof (cases "event_patch e k")
    case None
    with replay_at[of es k] fun_cong[OF assms, of k] show ?thesis by (auto simp: patch_def)
  qed (simp add: patch_def)
qed

lemma replay_tl:
  assumes "replay (e # es) x = x"
  shows "replay es x = x"
proof
  fix k
  from replay_at[of es k] fun_cong[OF assms, of k] show "replay es x k = x k" by auto
qed

lemma sv_flat_event:
  assumes "sv_abs ss' = abs_event e (sv_abs ss)"
  shows "sv_flat ss' = patch (event_patch e) (sv_flat ss)"
proof (cases e)
  case (Added s)
  with assms show ?thesis
    by (auto simp: sv_flat_def patch_def abs_add_def map_add_def fun_eq_iff split: option.splits)
next
  case (Deleted s)
  show ?thesis
  proof
    fix k :: "string \<times> string"
    obtain v i where k: "k = (v, i)" by force
    show "sv_flat ss' k = patch (event_patch e) (sv_flat ss) k"
    proof (cases "v = Version s \<and> sv_abs ss v \<noteq> None")
      case True
      then obtain m where m: "sv_abs ss (Version s) = Some m" by auto
      have "m |` (- InstanceID ` set (Nodes s)) = Map.empty \<Longrightarrow> i \<notin> InstanceID ` set (Nodes s) \<Longrightarrow> m i = None"
        by (metis ComplI restrict_in)
      with True m Deleted assms k show ?thesis
        by (auto simp: sv_flat_def patch_def abs_del_def Let_def restrict_map_def)
    next
      case False
      with Deleted assms k show ?thesis
        by (auto simp: sv_flat_def patch_def abs_del_def Let_def split: option.splits)
    qed
  qed
qed

lemma sv_flat_inj:
  assumes "sv_flat a = sv_flat b" "services_ok a" "services_ok b"
  shows "sv_abs a = sv_abs b"
proof
  fix v
  have nonempty: "sv_abs ss v = Some m \<Longrightarrow> services_ok ss \<Longrightarrow> m \<noteq> Map.empty" for ss m
    by (auto simp: sv_abs_def services_ok_def nodes_ok_def dest!: map_of_SomeD) (metis node_map_empty)
  have at: "(case sv_abs a v of None \<Rightarrow> None | Some m \<Rightarrow> m i) = (case sv_abs b v of None \<Rightarrow> None | Some m \<Rightarrow> m i)" for i
    using fun_cong[OF assms(1), of "(v, i)"] by (simp add: sv_flat_def)
  show "sv_abs a v = sv_abs b v"
  proof (cases "sv_abs a v"; cases "sv_abs b v")
    fix m assume "sv_abs a v = None" "sv_abs b v = Some m"
    with at nonempty[OF _ assms(3)] show ?thesis by (metis ext option.simps(4) option.simps(5))
  next
    fix m assume "sv_abs a v = Some m" "sv_abs b v = None"
    with at nonempty[OF _ assms(2)] show ?thesis by (metis ext option.simps(4) option.simps(5))
  next
    fix m m' assume *: "sv_abs a v = Some m" "sv_abs b v = Some m'"
    with at have "m = m'" by (simp add: fun_eq_iff)
    with * show ?thesis by simp
  qed simp
qed

subsection \<open>What the operations do to the entries\<close>

lemma cache_handle_names:
  "Name ` set (store_handle cache_add cache_del ss e) \<subseteq> insert (event_name e) (Name ` set ss)"
proof (cases e)
  case (Added s)
  then show ?thesis
    using set_update_subset_insert[of ss]
    by (fastforce simp: cache_add_def event_name_def split: option.splits)
next
  case (Deleted s)
  have "Name ` set (cache_del ss s) \<subseteq> Name ` set ss"
  proof (cases "version_index (Version s) ss")
    case (Some i)
    then have "i < length ss" using version_index_Some by blast
    then have i: "Name (ss ! i) \<in> Name ` set ss" by simp
    have "Name ` set (ss[i := (ss ! i)\<lparr>Nodes := ns\<rparr>]) \<subseteq> Name ` set ss" for ns
      using set_update_subset_insert[of ss i "(ss ! i)\<lparr>Nodes := ns\<rparr>"] i by fastforce
    with Some show ?thesis by (auto simp: cache_del_def Let_def)
  qed (simp add: cache_del_def)
  with Deleted show ?thesis by auto
qed

lemma mock_handle_names:
  "Name ` set (store_handle (\<lambda>ss s. addServices ss [s]) (\<lambda>ss s. delServices ss [s]) ss e) \<subseteq>
   insert (event_name e) (Name ` set ss)"
proof (cases e)
  case (Added s)
  have "Name ` set ss' \<subseteq> insert (Name s) (Name ` set ss)" if "replace_service s ss = Some ss'" for ss'
    using that
  proof (induction ss arbitrary: ss')
    case (Cons a ss)
    show ?case
    proof (cases "Version a = Version s")
      case False
      with Cons.prems obtain z where "replace_service s ss = Some z" "ss' = a # z" by auto
      with Cons.IH[of z] show ?thesis by auto
    qed (use Cons.prems in auto)
  qed simp
  with Added show ?thesis
    by (auto simp: addServices_def add_service_def event_name_def split: option.splits)
next
  case (Deleted s)
  have "Name ` set (delServices ss [s]) \<subseteq> Name ` set ss"
    by (induction ss) (auto simp: del_service_Cons split: if_splits, simp add: delServices_def)
  with Deleted show ?thesis by auto
qed

lemma handle_list_ok:
  assumes "list_ok nm ss" "event_ok e" "event_name e = nm"
  shows "list_ok nm (store_handle cache_add cache_del ss e)"
    and "list_ok nm (store_handle (\<lambda>ss s. addServices ss [s]) (\<lambda>ss s. delServices ss [s]) ss e)"
proof -
  have names: "Name ` set ss \<subseteq> {nm}" "services_ok ss" using assms(1) by (auto simp: list_ok_def)
  have "Name ` set (store_handle cache_add cache_del ss e) \<subseteq> {nm}"
    using cache_handle_names[of ss e] names(1) assms(3) by auto
  then show "list_ok nm (store_handle cache_add cache_del ss e)"
    using cache_store.handle_ok[OF names(2) assms(2)] by (auto simp: list_ok_def)
  have "Name ` set (store_handle (\<lambda>ss s. addServices ss [s]) (\<lambda>ss s. delServices ss [s]) ss e) \<subseteq> {nm}"
    using mock_handle_names[of ss e] names(1) assms(3) by auto
  then show "list_ok nm (store_handle (\<lambda>ss s. addServices ss [s]) (\<lambda>ss s. delServices ss [s]) ss e)"
    using mock_store.handle_ok[OF names(2) assms(2)] by (auto simp: list_ok_def)
qed

lemma handle_flat:
  assumes "list_ok nm ss" "event_ok e"
  shows "sv_flat (store_handle cache_add cache_del ss e) = patch (event_patch e) (sv_flat ss)"
    and "sv_flat (store_handle (\<lambda>ss s. addServices ss [s]) (\<lambda>ss s. delServices ss [s]) ss e) =
      patch (event_patch e) (sv_flat ss)"
  using assms cache_store.handle_abs mock_store.handle_abs
  by (auto simp: list_ok_def intro!: sv_flat_event)

lemma registry_event_services:
  "mock_services (registry_event e m) =
   (mock_services m)(event_name e :=
      store_handle (\<lambda>ss s. addServices ss [s]) (\<lambda>ss s. delServices ss [s]) (mock_services m (event_name e)) e)"
  by (cases e) (auto simp: event_name_def mock_services_def mock_Register_def mock_Deregister_def fun_eq_iff)

lemma c_update_entry:
  assumes "event_ok e" "\<And>ss. c_cache c (event_name e) = Some ss \<Longrightarrow> list_ok (event_name e) ss"
    and "c_cache (snd (c_update now (event_action e) (event_service e) c)) nm = Some ss'"
  shows "if nm = event_name e
    then \<exists>ss. c_cache c nm = Some ss \<and> ss' = store_handle cache_add cache_del ss e
    else c_cache c nm = Some ss'"
proof (cases "c_cache c (event_name e)")
  case None
  with assms(3) show ?thesis by (auto simp: c_update_def event_name_def Let_def)
next
  case (Some ss)
  have ne: "Nodes (event_service e) \<noteq> []" using assms(1) by (simp add: event_ok_def nodes_ok_def)
  show ?thesis
  proof (cases e)
    case (Added s)
    with assms(3) Some ne show ?thesis
      by (auto simp: c_update_def event_name_def c_set_def Let_def split: if_splits)
  next
    case (Deleted s)
    show ?thesis
    proof (cases "version_index (Version s) ss")
      case None
      with Deleted assms(3) Some ne show ?thesis
        by (auto simp: c_update_def event_name_def cache_del_def)
    next
      case (Some i)
      then have "Name (ss ! i) = event_name e"
        using assms(2) \<open>c_cache c (event_name e) = Some ss\<close> version_index_Some[OF Some]
        by (simp add: list_ok_def)
      with Some Deleted assms(3) ne \<open>c_cache c (event_name e) = Some ss\<close> show ?thesis
        by (auto simp: c_update_def event_name_def c_set_def c_del_def Let_def split: if_splits)
    qed
  qed
qed

lemma c_get_entry:
  assumes "c_cache (snd (c_get G now nm c)) nm' = Some ss'"
  shows "c_cache c nm' = Some ss' \<or> nm' = nm \<and> G nm = Inr ss'"
  using assms
  by (auto simp: c_get_def c_ask_def c_set_def Let_def split: option.splits sum.splits if_splits)

subsection \<open>The invariant\<close>

lemma sync_at_change:
  assumes "sync_at nm R P C" "event_ok e" "event_name e = nm"
  shows "sync_at nm (store_handle (\<lambda>ss s. addServices ss [s]) (\<lambda>ss s. delServices ss [s]) R e) (P @ [e]) C"
proof -
  let ?R = "store_handle (\<lambda>ss s. addServices ss [s]) (\<lambda>ss s. delServices ss [s]) R e"
  have R: "list_ok nm R" "replay P (sv_flat R) = sv_flat R" using assms(1) by (simp_all add: sync_at_def)
  have flat: "sv_flat ?R = patch (event_patch e) (sv_flat R)" by (rule handle_flat[OF R(1) assms(2)])
  have "replay (P @ [e]) (sv_flat ?R) = sv_flat ?R"
    unfolding flat by (rule replay_known_event[OF R(2)])
  moreover have "list_ok nm ?R" by (rule handle_list_ok[OF R(1) assms(2,3)])
  ultimately show ?thesis
    using assms flat unfolding sync_at_def by simp
qed

lemma sync_at_deliver:
  assumes "sync_at nm R (e # P) C" and "\<And>ss'. C' = Some ss' \<Longrightarrow> \<exists>ss. C = Some ss \<and> ss' = store_handle cache_add cache_del ss e"
  shows "sync_at nm R P C'"
proof -
  have e: "event_ok e" "event_name e = nm" using assms(1) by (simp_all add: sync_at_def)
  have "list_ok nm ss' \<and> replay P (sv_flat ss') = sv_flat R" if C': "C' = Some ss'" for ss'
  proof -
    obtain ss where ss: "C = Some ss" "ss' = store_handle cache_add cache_del ss e"
      using assms(2)[OF C'] by (elim exE conjE) (rule that)
    then have ok: "list_ok nm ss" "replay (e # P) (sv_flat ss) = sv_flat R"
      using assms(1) by (simp_all add: sync_at_def)
    show ?thesis
      using handle_list_ok(1)[OF ok(1) e] handle_flat(1)[OF ok(1) e(1)] ok(2) ss(2) by simp
  qed
  then show ?thesis using assms(1) replay_tl[of e P "sv_flat R"] unfolding sync_at_def by simp
qed

lemma sync_at_refresh:
  assumes "sync_at nm R P C" and "\<And>ss. C' = Some ss \<Longrightarrow> C = Some ss \<or> ss = R"
  shows "sync_at nm R P C'"
proof -
  have "list_ok nm ss \<and> replay P (sv_flat ss) = sv_flat R" if "C' = Some ss" for ss
    using assms(1) assms(2)[OF that] by (auto simp: sync_at_def)
  then show ?thesis using assms(1) by (simp add: sync_at_def)
qed

lemma GetService_services: "mock_GetService m nm = Inr ss \<Longrightarrow> ss = mock_services m nm"
  by (auto simp: mock_GetService_def mock_services_def split: option.splits if_splits)

lemma sync_inv_refresh:
  assumes "sync_inv s"
    and "\<And>m ss. c_cache c m = Some ss \<Longrightarrow> c_cache (sy_cache s) m = Some ss \<or> ss = mock_services (sy_reg s) m"
  shows "sync_inv (s\<lparr>sy_cache := c\<rparr>)"
  unfolding sync_inv_def
proof
  fix m
  have "sync_at m (mock_services (sy_reg s) m) (sy_pending s m) (c_cache (sy_cache s) m)"
    using assms(1) by (simp add: sync_inv_def)
  then have "sync_at m (mock_services (sy_reg s) m) (sy_pending s m) (c_cache c m)"
    by (rule sync_at_refresh) (rule assms(2))
  then show "sync_at m (mock_services (sy_reg (s\<lparr>sy_cache := c\<rparr>)) m) (sy_pending (s\<lparr>sy_cache := c\<rparr>) m)
      (c_cache (sy_cache (s\<lparr>sy_cache := c\<rparr>)) m)"
    by simp
qed

lemma sync_inv_step:
  assumes "sync_inv s" "sync_step s t"
  shows "sync_inv t"
  using assms(2)
proof cases
  case (change e nm)
  then show ?thesis
    using assms(1) sync_at_change[OF _ change(2,3)]
    by (auto simp: sync_inv_def registry_event_services)
next
  case (deliver nm e es now)
  let ?c = "snd (c_update now (event_action e) (event_service e) (sy_cache s))"
  have at: "sync_at m (mock_services (sy_reg s) m) (sy_pending s m) (c_cache (sy_cache s) m)" for m
    using assms(1) by (simp add: sync_inv_def)
  have e: "event_ok e" "event_name e = nm" using at[of nm] deliver(2) by (simp_all add: sync_at_def)
  have upd: "if m = nm then \<exists>ss. c_cache (sy_cache s) m = Some ss \<and> ss' = store_handle cache_add cache_del ss e
      else c_cache (sy_cache s) m = Some ss'" if "c_cache ?c m = Some ss'" for m ss'
    using c_update_entry[OF e(1) _ that] at[of nm] e(2) by (simp add: sync_at_def)
  have "sync_at m (mock_services (sy_reg s) m) (if m = nm then es else sy_pending s m) (c_cache ?c m)" for m
  proof (cases "m = nm")
    case True
    then show ?thesis
      using sync_at_deliver[of nm _ e es] at[of nm] deliver(2) upd[of nm] by simp
  next
    case False
    then show ?thesis using sync_at_refresh[OF at[of m]] upd[of m] by simp
  qed
  with deliver(1) show ?thesis by (simp add: sync_inv_def)
next
  case (look_up now nm)
  show ?thesis
    unfolding look_up using assms(1)
    by (rule sync_inv_refresh)
      (use c_get_entry[of "mock_GetService (sy_reg s)" now nm "sy_cache s"] GetService_services in blast)
next
  case (look_up_fails err now nm)
  show ?thesis
    unfolding look_up_fails using assms(1)
    by (rule sync_inv_refresh) (use c_get_entry[of "\<lambda>_. Inl err" now nm "sy_cache s"] in simp)
next
  case (reset nm)
  show ?thesis
    unfolding reset using assms(1)
    by (rule sync_inv_refresh) (simp add: c_Reset_def c_del_def split: if_splits)
next
  case close
  show ?thesis
    unfolding close using assms(1) by (rule sync_inv_refresh) (simp add: c_Close_def)
qed

lemma sync_inv_init:
  assumes "sync_init s"
  shows "sync_inv s"
  using assms
  by (auto simp: sync_init_def sync_inv_def sync_at_def list_ok_def services_ok_def mock_services_def cache_NewSelector_def)

interpretation sync: invariant_system sync_init sync_step sync_inv
  by unfold_locales (rule sync_inv_init, assumption, rule sync_inv_step)

subsection \<open>What a deletion leaves\<close>

lemma service_nodes_split:
  assumes "i < length ss"
  shows "service_nodes ss = service_nodes (take i ss) @ Nodes (ss ! i) @ service_nodes (drop (Suc i) ss)"
proof -
  have "service_nodes ss = service_nodes (take i ss @ ss ! i # drop (Suc i) ss)"
    using id_take_nth_drop[OF assms] by metis
  then show ?thesis by (simp add: service_nodes_def)
qed

lemma without_version:
  assumes "distinct (map Version ss)" "i < length ss"
  shows "filter (\<lambda>s. Version s \<noteq> Version (ss ! i)) ss = take i ss @ drop (Suc i) ss"
proof -
  have split: "ss = take i ss @ ss ! i # drop (Suc i) ss" using id_take_nth_drop[OF assms(2)] .
  then have "distinct (map Version (take i ss @ ss ! i # drop (Suc i) ss))" using assms(1) by metis
  then have "Version (ss ! i) \<notin> Version ` set (take i ss @ drop (Suc i) ss)" by auto
  then have "\<forall>s \<in> set (take i ss @ drop (Suc i) ss). Version s \<noteq> Version (ss ! i)" by (metis imageI)
  then have keep: "filter (\<lambda>s. Version s \<noteq> Version (ss ! i)) (take i ss @ drop (Suc i) ss) = take i ss @ drop (Suc i) ss"
    by (simp add: filter_id_conv)
  have "filter (\<lambda>s. Version s \<noteq> Version (ss ! i)) ss =
      filter (\<lambda>s. Version s \<noteq> Version (ss ! i)) (take i ss @ ss ! i # drop (Suc i) ss)"
    using split by (rule arg_cong)
  with keep show ?thesis by simp
qed

lemma cache_del_nodes:
  assumes "distinct (map Version ss)" "version_index (Version res) ss = Some i"
  shows "mset (service_nodes ss) = mset (cache_removed ss res) + mset (service_nodes (cache_del ss res))"
proof -
  have i: "i < length ss" using version_index_Some[OF assms(2)] by simp
  let ?ns = "filter (\<lambda>cur. \<not> dead_node res cur) (Nodes (ss ! i))"
  have parts: "mset (Nodes (ss ! i)) = mset (filter (dead_node res) (Nodes (ss ! i))) + mset ?ns"
    by (simp add: multiset_partition)
  have "service_nodes (cache_del ss res) = service_nodes (take i ss) @ ?ns @ service_nodes (drop (Suc i) ss)"
  proof (cases "?ns = []")
    case True
    have "length ss = 1 \<Longrightarrow> take i ss = [] \<and> drop (Suc i) ss = []" using i by simp
    moreover have "service_nodes (take i ss @ drop (Suc i) ss) = service_nodes (take i ss) @ service_nodes (drop (Suc i) ss)"
      by (simp add: service_nodes_def)
    ultimately show ?thesis
      unfolding cache_del_def assms(2) using True without_version[OF assms(1) i]
      by (cases "length ss = 1") (auto simp: Let_def service_nodes_def)
  next
    case False
    have "service_nodes (ss[i := (ss ! i)\<lparr>Nodes := ?ns\<rparr>]) = service_nodes (take i ss) @ ?ns @ service_nodes (drop (Suc i) ss)"
      using i by (simp add: upd_conv_take_nth_drop service_nodes_def)
    with False show ?thesis unfolding cache_del_def assms(2) by (simp add: Let_def)
  qed
  then show ?thesis
    using parts assms(2) service_nodes_split[OF i] by (simp add: cache_removed_def)
qed

section \<open>Properties\<close>


definition sync_sample :: "store_event list \<Rightarrow> sync_state" where
  "sync_sample pending = \<lparr>sy_reg = registry_event (Added (sample_service ''1'' [sample_node ''a'' ''i1'' 5])) Map.empty,
     sy_cache = cache_NewSelector 10, sy_pending = (\<lambda>_. [])(''chat'' := pending)\<rparr>"


text \<open>How long an entry is used: an entry stored at time \<open>t\<close> is returned without asking the
  registry exactly until \<open>t\<close> plus twice the configured time to live, since \<open>set\<close> stores the
  expiry time and \<open>get\<close> adds the time to live once more. After that, when the registry fails for
  another reason than that the service is unknown, the answer is the empty list.\<close>

theorem cache_entry_lifetime:
  assumes "services \<noteq> []" "0 < c_ttl c"
  shows "c_get G now nm (c_set t nm services c) =
    (if now < t + 2 * c_ttl c
     then (Inr services, (c_set t nm services c)\<lparr>c_watched := insert nm (c_watched c)\<rparr>)
     else case G nm of
            Inr fresh \<Rightarrow> (Inr fresh, c_set now nm fresh ((c_set t nm services c)\<lparr>c_watched := insert nm (c_watched c)\<rparr>))
          | Inl err \<Rightarrow> (if err = registry_ErrNotFound then Inl selector_ErrNotFound else Inr [],
              (c_set t nm services c)\<lparr>c_watched := insert nm (c_watched c)\<rparr>))"
  using assms by (auto simp: c_get_def c_ask_def c_set_def Let_def split: sum.splits)

theorem cache_entry_lifetime_witness:
  "fst (c_get (\<lambda>_. Inl (Errorf ''down'' [])) 119 ''chat'' (c_set 0 ''chat'' two_versions (cache_NewSelector 60))) = Inr two_versions \<and>
   fst (c_get (\<lambda>_. Inl (Errorf ''down'' [])) 120 ''chat'' (c_set 0 ''chat'' two_versions (cache_NewSelector 60))) = Inr []"
proof -
  have ne: "two_versions \<noteq> []" "0 < c_ttl (cache_NewSelector 60)"
    by (simp_all add: two_versions_def cache_NewSelector_def)
  show ?thesis
    unfolding cache_entry_lifetime[OF ne] by (simp add: cache_NewSelector_def registry_ErrNotFound_def)
qed

text \<open>The selector's watcher hears of exactly the nodes that leave the cache: for an entry
  with distinct versions, what a delete event reports, together with what is left, is what was
  there before, each node counted as often as it occurs.\<close>

theorem cache_watcher_told_of_removed:
  assumes "c_cache c (Name res) = Some services" "services_ok services" "\<forall>s \<in> set services. Name s = Name res"
  shows "mset (service_nodes services) =
    mset (fst (c_update now ''delete'' res c)) +
    mset (case c_cache (snd (c_update now ''delete'' res c)) (Name res) of None \<Rightarrow> [] | Some left \<Rightarrow> service_nodes left)"
proof (cases "Nodes res = []")
  case True
  with assms(1) show ?thesis by (simp add: c_update_def c_del_def Let_def)
next
  case False
  show ?thesis
  proof (cases "version_index (Version res) services")
    case None
    with False assms(1) show ?thesis by (simp add: c_update_def)
  next
    case (Some i)
    have "Name (services ! i) = Name res" using version_index_Some[OF Some] assms(3) by simp
    with False Some assms(1) cache_del_nodes[of services res i] assms(2) show ?thesis
      by (auto simp: c_update_def c_set_def c_del_def Let_def services_ok_def service_nodes_def)
  qed
qed

theorem cache_watcher_told_of_removed_witness:
  "mset (service_nodes two_versions) =
    mset (fst (c_update 0 ''delete'' (sample_service ''1'' [sample_node [] ''i2'' 1]) (c_set 0 ''chat'' two_versions (cache_NewSelector 60)))) +
    mset (case c_cache (snd (c_update 0 ''delete'' (sample_service ''1'' [sample_node [] ''i2'' 1])
        (c_set 0 ''chat'' two_versions (cache_NewSelector 60)))) ''chat'' of None \<Rightarrow> [] | Some left \<Rightarrow> service_nodes left)"
proof -
  let ?res = "sample_service ''1'' [sample_node [] ''i2'' 1]"
  have nm: "Name ?res = ''chat''" by (simp add: sample_service_def)
  have "c_cache (c_set 0 ''chat'' two_versions (cache_NewSelector 60)) (Name ?res) = Some two_versions"
    by (simp add: c_set_def nm)
  moreover have "services_ok two_versions"
    by (simp add: two_versions_def sample_service_def sample_node_def services_ok_def nodes_ok_def)
  moreover have "\<forall>s \<in> set two_versions. Name s = Name ?res"
    by (simp add: two_versions_def sample_service_def)
  ultimately show ?thesis unfolding nm[symmetric] by (rule cache_watcher_told_of_removed)
qed

end
