(* ===== verification/Service_Life.thy ===== *)
theory Service_Life
  imports Consul_Registry Cache_Selector
begin

text \<open>
  A module's service from creation to deregistration: the server with its options
  (\<^verbatim>\<open>src/server/rpc_server.go\<close>, \<^verbatim>\<open>src/server/options.go\<close>, \<^verbatim>\<open>src/utils/lib/addr/addr.go\<close>), the registration loop
  (\<^verbatim>\<open>src/service/service.go\<close>) and the hooks of the base module that drive it
  (\<^verbatim>\<open>src/module/base/base_module.go\<close>). The registry is a pair of operations over a state of any type; the
  second part runs the goroutines of a module against it and shows, through the interface
  \<open>service_registry\<close>, that no renewal follows the deregistration and that destroying a module ends.
\<close>

section \<open>Addresses\<close>

text \<open>What \<open>port, _ = strconv.Atoi(s)\<close> leaves in \<open>port\<close>: zero for a syntax error, the nearest value when out of range.\<close>

definition Atoi :: "string \<Rightarrow> int" where
  "Atoi s =
     (let (neg, ds) = (case s of
            [] \<Rightarrow> (False, [])
          | c # cs \<Rightarrow> if c = CHR ''-'' then (True, cs) else if c = CHR ''+'' then (False, cs) else (False, s))
      in if ds = [] then 0
         else case digits_value 0 ds of
                None \<Rightarrow> 0
              | Some n \<Rightarrow> if neg then max (- n) (- (2 ^ 63)) else min n (2 ^ 63 - 1))"

text \<open>An address of a network interface, as far as \<open>Extract\<close> looks at it.\<close>

datatype raw_addr = IPv4 nat nat nat nat | IPv6 | Other_addr

definition isPrivateIP :: "nat \<Rightarrow> nat \<Rightarrow> bool" where
  "isPrivateIP a b \<longleftrightarrow> a = 10 \<or> a = 172 \<and> b div 16 = 1 \<or> a = 192 \<and> b = 168 \<or> a = 100 \<and> b div 64 = 1"

fun private_addr :: "raw_addr \<Rightarrow> bool" where
  "private_addr (IPv4 a b c d) = isPrivateIP a b"
| "private_addr IPv6 = False"
| "private_addr Other_addr = False"

fun ip_text :: "raw_addr \<Rightarrow> string" where
  "ip_text (IPv4 a b c d) = join_with CHR ''.'' (map format_digits [a, b, c, d])"
| "ip_text IPv6 = []"
| "ip_text Other_addr = []"

definition Extract :: "go_error + raw_addr list \<Rightarrow> string \<Rightarrow> go_error + string" where
  "Extract ifaces a =
     (if length a > 0 \<and> a \<noteq> ''0.0.0.0'' \<and> a \<noteq> ''[::]'' then Inr a
      else case ifaces of
             Inl err \<Rightarrow> Inl (Errorf ''Failed to get interface addresses! Err: %v'' [AS (error_text err)])
           | Inr addrs \<Rightarrow>
               (case filter private_addr addrs of
                  [] \<Rightarrow> Inl (Errorf ''No private IP address found, and explicit IP not provided'' [])
                | ip # _ \<Rightarrow> Inr (ip_text ip)))"

section \<open>The server\<close>

record server_options =
  so_Registry :: "string option"
  so_Metadata :: "smap option"
  so_Name :: string
  so_Address :: string
  so_Advertise :: string
  so_ID :: string
  so_Version :: string
  so_RegisterInterval :: int
  so_RegisterTTL :: int

record rpc_server =
  sv_opts :: server_options
  sv_registered :: bool
  sv_server :: bool
  sv_id :: string
  sv_instanceID :: string
  sv_startedAt :: int

definition empty_options :: server_options where
  "empty_options = \<lparr>so_Registry = None, so_Metadata = Some Map.empty, so_Name = [], so_Address = [], so_Advertise = [],
     so_ID = [], so_Version = [], so_RegisterInterval = 0, so_RegisterTTL = 0\<rparr>"

text \<open>\<open>dreg\<close> is the default registry, \<open>did\<close> the default ID (a UUID).\<close>

definition server_newOptions :: "string \<Rightarrow> string \<Rightarrow> (server_options \<Rightarrow> server_options) list \<Rightarrow> server_options" where
  "server_newOptions dreg did opt =
     (let opts = fold (\<lambda>f os. f os) opt empty_options;
          opts = (if so_Registry opts = None then opts\<lparr>so_Registry := Some dreg\<rparr> else opts);
          opts = (if length (so_Address opts) = 0 then opts\<lparr>so_Address := '':0''\<rparr> else opts);
          opts = (if length (so_Name opts) = 0 then opts\<lparr>so_Name := ''go-server''\<rparr> else opts);
          opts = (if length (so_ID opts) = 0 then opts\<lparr>so_ID := did\<rparr> else opts)
      in if length (so_Version opts) = 0 then opts\<lparr>so_Version := ''1.0.0''\<rparr> else opts)"

definition newRPCServer :: "string \<Rightarrow> string \<Rightarrow> string \<Rightarrow> int \<Rightarrow> (server_options \<Rightarrow> server_options) list \<Rightarrow> rpc_server outcome" where
  "newRPCServer dreg did uuid now opts =
     (let options = server_newOptions dreg did opts
      in if uuid = [] then Panic ''Create RPC server instance ID fail''
         else Ret \<lparr>sv_opts = options, sv_registered = False, sv_server = False,
                sv_id = so_Name options @ ''@'' @ so_ID options,
                sv_instanceID = so_Name options @ ''@'' @ so_ID options @ ''#'' @ uuid, sv_startedAt = now\<rparr>)"

definition server_Init :: "(server_options \<Rightarrow> server_options) list \<Rightarrow> rpc_server \<Rightarrow> rpc_server" where
  "server_Init opts s = s\<lparr>sv_opts := fold (\<lambda>f os. f os) opts (sv_opts s)\<rparr>"

text \<open>\<open>OnInit\<close> for what \<open>NewRPCServer\<close> gives: an error, or a server with its address.\<close>

definition server_OnInit :: "go_error + string \<Rightarrow> rpc_server \<Rightarrow> go_error option \<times> rpc_server" where
  "server_OnInit made s =
     (case made of
        Inl err \<Rightarrow> (Some err, s)
      | Inr a \<Rightarrow> (None, s\<lparr>sv_server := True, sv_opts := (sv_opts s)\<lparr>so_Address := a\<rparr>\<rparr>))"

definition host_port :: "server_options \<Rightarrow> string \<times> int" where
  "host_port config =
     (let advt = (if length (so_Advertise config) > 0 then so_Advertise config else so_Address config);
          parts = split_on CHR '':'' advt
      in if length parts > 1 then (join_with CHR '':'' (butlast parts), Atoi (last parts)) else (parts ! 0, 0))"

definition service_node :: "rpc_server \<Rightarrow> string \<Rightarrow> int \<Rightarrow> node" where
  "service_node s a port =
     (let config = sv_opts s;
          metadata = go_map (so_Metadata config)
      in \<lparr>StartedAt = sv_startedAt s, ServerID = so_Name config @ ''@'' @ so_ID config, InstanceID = sv_instanceID s,
          Address = a, Port = port,
          nd_Metadata = Some (metadata(''server'' \<mapsto> ''rpc'', ''registry'' \<mapsto> (case so_Registry config of None \<Rightarrow> [] | Some r \<Rightarrow> r)))\<rparr>)"

definition bare_node :: "string \<Rightarrow> string \<Rightarrow> int \<Rightarrow> node" where
  "bare_node i a port = \<lparr>StartedAt = 0, ServerID = [], InstanceID = i, Address = a, Port = port, nd_Metadata = None\<rparr>"

definition one_node_service :: "string \<Rightarrow> string \<Rightarrow> node \<Rightarrow> service" where
  "one_node_service nm version n =
     \<lparr>Name = nm, Version = version, sv_Metadata = None, Endpoints = [], Nodes = [n]\<rparr>"

definition registered_service :: "go_error + raw_addr list \<Rightarrow> rpc_server \<Rightarrow> go_error + service" where
  "registered_service ifaces s =
     (let config = sv_opts s;
          (host, port) = host_port config
      in case Extract ifaces host of
           Inl err \<Rightarrow> Inl err
         | Inr a \<Rightarrow> Inr (one_node_service (so_Name config) (so_Version config) (service_node s a port)))"

definition deregistered_service :: "go_error + raw_addr list \<Rightarrow> rpc_server \<Rightarrow> go_error + service" where
  "deregistered_service ifaces s =
     (let config = sv_opts s;
          (host, port) = host_port config
      in case Extract ifaces host of
           Inl err \<Rightarrow> Inl err
         | Inr a \<Rightarrow> Inr (one_node_service (so_Name config) (so_Version config) (bare_node (sv_instanceID s) a port)))"

type_synonym 's register_op = "service \<Rightarrow> int \<Rightarrow> 's \<Rightarrow> go_error option \<times> 's"
type_synonym 's deregister_op = "service \<Rightarrow> 's \<Rightarrow> go_error option \<times> 's"

definition ServiceRegister_srv ::
    "'s register_op \<Rightarrow> go_error + raw_addr list \<Rightarrow> rpc_server \<times> 's \<Rightarrow> go_error option \<times> rpc_server \<times> 's" where
  "ServiceRegister_srv register ifaces x =
     (case x of (s, st) \<Rightarrow>
        case registered_service ifaces s of
          Inl err \<Rightarrow> (Some err, s, st)
        | Inr service \<Rightarrow>
            (case register service (so_RegisterTTL (sv_opts s)) st of
               (Some err, st) \<Rightarrow> (Some err, s, st)
             | (None, st) \<Rightarrow> if sv_registered s then (None, s, st) else (None, s\<lparr>sv_registered := True\<rparr>, st)))"

definition ServiceDeregister_srv ::
    "'s deregister_op \<Rightarrow> go_error + raw_addr list \<Rightarrow> rpc_server \<times> 's \<Rightarrow> go_error option \<times> rpc_server \<times> 's" where
  "ServiceDeregister_srv deregister ifaces x =
     (case x of (s, st) \<Rightarrow>
        case deregistered_service ifaces s of
          Inl err \<Rightarrow> (Some err, s, st)
        | Inr service \<Rightarrow>
            (case deregister service st of
               (Some err, st) \<Rightarrow> (Some err, s, st)
             | (None, st) \<Rightarrow> if \<not> sv_registered s then (None, s, st) else (None, s\<lparr>sv_registered := False\<rparr>, st)))"

text \<open>An error of closing the RPC server is only logged.\<close>

definition server_Stop :: "rpc_server \<Rightarrow> rpc_server" where
  "server_Stop s = (if sv_server s then s\<lparr>sv_server := False\<rparr> else s)"

section \<open>The service\<close>

text \<open>The hooks before and after are given by what they return.\<close>

record service_options =
  sp_RegisterInterval :: int
  sp_BeforeStart :: "go_error option list"
  sp_AfterStart :: "go_error option list"
  sp_BeforeStop :: "go_error option list"
  sp_AfterStop :: "go_error option list"

definition first_error :: "go_error option list \<Rightarrow> go_error option" where
  "first_error es = (case filter (\<lambda>e. e \<noteq> None) es of [] \<Rightarrow> None | e # _ \<Rightarrow> e)"

definition last_error :: "go_error option list \<Rightarrow> go_error option" where
  "last_error es = (case rev (filter (\<lambda>e. e \<noteq> None) es) of [] \<Rightarrow> None | e # _ \<Rightarrow> e)"

definition service_Start ::
    "'s register_op \<Rightarrow> go_error + raw_addr list \<Rightarrow> service_options \<Rightarrow> rpc_server \<times> 's \<Rightarrow> go_error option \<times> rpc_server \<times> 's" where
  "service_Start register ifaces so x =
     (case first_error (sp_BeforeStart so) of
        Some err \<Rightarrow> (Some err, x)
      | None \<Rightarrow>
          (case ServiceRegister_srv register ifaces x of
             (Some err, x) \<Rightarrow> (Some err, x)
           | (None, x) \<Rightarrow> (first_error (sp_AfterStart so), x)))"

definition service_Stop ::
    "'s deregister_op \<Rightarrow> go_error + raw_addr list \<Rightarrow> service_options \<Rightarrow> rpc_server \<times> 's \<Rightarrow> go_error option \<times> rpc_server \<times> 's" where
  "service_Stop deregister ifaces so x =
     (let gerr = last_error (sp_BeforeStop so)
      in case ServiceDeregister_srv deregister ifaces x of
           (Some err, x) \<Rightarrow> (Some err, x)
         | (None, s, st) \<Rightarrow>
             (case last_error (sp_AfterStop so) of None \<Rightarrow> gerr | Some e \<Rightarrow> Some e, server_Stop s, st))"


section \<open>The hooks of the base module\<close>

record app_options =
  ap_Registry :: string
  ap_RegisterInterval :: int
  ap_RegisterTTL :: int

text \<open>The options given to the server: those of the module, and for what they leave open those of the
  application, of the module's type and of its settings. \<open>gen\<close> is a generated ID.\<close>

definition module_server_options ::
    "app_options \<Rightarrow> string \<Rightarrow> string \<Rightarrow> string \<Rightarrow> string \<Rightarrow> (server_options \<Rightarrow> server_options) list
      \<Rightarrow> (server_options \<Rightarrow> server_options) list" where
  "module_server_options app mtype version setting_id gen opt =
     (let opts = fold (\<lambda>f os. f os) opt empty_options
      in opt
       @ (if so_Registry opts = None then [\<lambda>x. x\<lparr>so_Registry := Some (ap_Registry app)\<rparr>] else [])
       @ (if so_RegisterInterval opts = 0 then [\<lambda>x. x\<lparr>so_RegisterInterval := ap_RegisterInterval app\<rparr>] else [])
       @ (if so_RegisterTTL opts = 0 then [\<lambda>x. x\<lparr>so_RegisterTTL := ap_RegisterTTL app\<rparr>] else [])
       @ (if length (so_Name opts) = 0 then [\<lambda>x. x\<lparr>so_Name := mtype\<rparr>] else [])
       @ (if length (so_ID opts) = 0
          then (if length setting_id > 0 then [\<lambda>x. x\<lparr>so_ID := setting_id\<rparr>] else [\<lambda>x. x\<lparr>so_ID := gen\<rparr>]) else [])
       @ (if length (so_Version opts) = 0 then [\<lambda>x. x\<lparr>so_Version := version\<rparr>] else []))"

text \<open>The service is created with the application's time to live and interval.\<close>

definition base_OnInit ::
    "app_options \<Rightarrow> string \<Rightarrow> string \<Rightarrow> string \<Rightarrow> string \<Rightarrow> (server_options \<Rightarrow> server_options) list
      \<Rightarrow> string \<Rightarrow> string \<Rightarrow> string \<Rightarrow> int \<Rightarrow> go_error + string \<Rightarrow> string \<Rightarrow> int \<Rightarrow> (rpc_server \<times> service_options) outcome" where
  "base_OnInit app mtype version setting_id gen opt dreg did uuid now made hostname pid =
     outcome_bind (newRPCServer dreg did uuid now (module_server_options app mtype version setting_id gen opt)) (\<lambda>server.
       case server_OnInit made server of
         (Some err, _) \<Rightarrow> Panic ''Server OnInit fail''
       | (None, server) \<Rightarrow>
           (case so_Metadata (sv_opts server) of
              None \<Rightarrow> Panic ''assignment to entry in nil map''
            | Some md \<Rightarrow>
                let server = server\<lparr>sv_opts := (sv_opts server)\<lparr>so_Metadata :=
                      Some (md(''hostname'' \<mapsto> hostname, ''pid'' \<mapsto> FormatInt pid))\<rparr>\<rparr>;
                    server = server_Init [\<lambda>x. x\<lparr>so_RegisterTTL := ap_RegisterTTL app\<rparr>] server
                in Ret (server, \<lparr>sp_RegisterInterval = ap_RegisterInterval app, sp_BeforeStart = [], sp_AfterStart = [],
                     sp_BeforeStop = [], sp_AfterStop = []\<rparr>)))"

text \<open>
  Where the goroutines of a module stand: the one that calls the hooks of the module, the one that runs
  \<open>Wait\<close>, and the one that renews the registration.
\<close>

datatype main_pc = M_init | M_ready | M_waiting | M_destroyed | M_panicked
datatype wait_pc = W_none | W_begin | W_select | W_joining | W_returned "go_error option"
datatype run_pc = R_none | R_loop | R_done

record 's life =
  lf_server :: rpc_server
  lf_reg :: 's
  lf_cache :: cache_selector
  lf_started :: bool
  lf_cancelled :: bool
  lf_ex :: bool
  lf_main :: main_pc
  lf_wait :: wait_pc
  lf_run :: run_pc

definition base_OnReady ::
    "'s register_op \<Rightarrow> go_error + raw_addr list \<Rightarrow> service_options \<Rightarrow> 's life \<Rightarrow> 's life" where
  "base_OnReady register ifaces so l =
     (case service_Start register ifaces so (lf_server l, lf_reg l) of
        (Some err, s, st) \<Rightarrow> l\<lparr>lf_server := s, lf_reg := st, lf_main := M_panicked\<rparr>
      | (None, s, st) \<Rightarrow> l\<lparr>lf_server := s, lf_reg := st, lf_started := True,
          lf_cache := c_Reset (so_Name (sv_opts s)) (lf_cache l), lf_wait := W_begin, lf_main := M_ready\<rparr>)"

text \<open>
  \<open>OnDestroy\<close> cancels the context and, if the service was started, waits until \<open>Wait\<close> has returned; then it
  stops the server. \<open>run\<close> is a loop over the ticker and the channel \<open>ex\<close>; when both are ready \<open>select\<close> takes
  either, so a renewal may still come after \<open>ex\<close> was closed.
\<close>

inductive service_run ::
    "'s register_op \<Rightarrow> go_error + raw_addr list \<Rightarrow> 's life \<Rightarrow> 's life \<Rightarrow> bool"
  for register ifaces where
  tick: "lf_run l = R_loop \<Longrightarrow> ServiceRegister_srv register ifaces (lf_server l, lf_reg l) = (err, s, st) \<Longrightarrow>
    service_run register ifaces l (l\<lparr>lf_server := s, lf_reg := st\<rparr>)"
| run_exit: "lf_run l = R_loop \<Longrightarrow> lf_ex l \<Longrightarrow> service_run register ifaces l (l\<lparr>lf_run := R_done\<rparr>)"

inductive service_Wait ::
    "'s deregister_op \<Rightarrow> go_error + raw_addr list \<Rightarrow> service_options \<Rightarrow> 's life \<Rightarrow> 's life \<Rightarrow> bool"
  for deregister ifaces so where
  wait_begin: "lf_wait l = W_begin \<Longrightarrow>
    service_Wait deregister ifaces so l
      (l\<lparr>lf_wait := W_select, lf_run := (if sp_RegisterInterval so \<le> 0 then R_done else R_loop)\<rparr>)"
| context_done: "lf_wait l = W_select \<Longrightarrow> lf_cancelled l \<Longrightarrow>
    service_Wait deregister ifaces so l (l\<lparr>lf_ex := True, lf_wait := W_joining\<rparr>)"
| stop: "lf_wait l = W_joining \<Longrightarrow> lf_run l = R_done \<Longrightarrow>
    service_Stop deregister ifaces so (lf_server l, lf_reg l) = (err, s, st) \<Longrightarrow>
    service_Wait deregister ifaces so l (l\<lparr>lf_server := s, lf_reg := st, lf_wait := W_returned err\<rparr>)"

inductive base_OnDestroy :: "'s life \<Rightarrow> 's life \<Rightarrow> bool" where
  destroy: "lf_main l \<in> {M_init, M_ready} \<Longrightarrow> base_OnDestroy l (l\<lparr>lf_cancelled := True, lf_main := M_waiting\<rparr>)"
| destroyed: "lf_main l = M_waiting \<Longrightarrow> (lf_started l \<longrightarrow> (\<exists>err. lf_wait l = W_returned err)) \<Longrightarrow>
    base_OnDestroy l (l\<lparr>lf_server := server_Stop (lf_server l), lf_main := M_destroyed\<rparr>)"

inductive life_step ::
    "'s register_op \<Rightarrow> 's deregister_op \<Rightarrow> go_error + raw_addr list \<Rightarrow> service_options \<Rightarrow> 's life \<Rightarrow> 's life \<Rightarrow> bool"
  for register deregister ifaces so where
  ready: "lf_main l = M_init \<Longrightarrow> life_step register deregister ifaces so l (base_OnReady register ifaces so l)"
| runs: "service_run register ifaces l l' \<Longrightarrow> life_step register deregister ifaces so l l'"
| waits: "service_Wait deregister ifaces so l l' \<Longrightarrow> life_step register deregister ifaces so l l'"
| destroys: "base_OnDestroy l l' \<Longrightarrow> life_step register deregister ifaces so l l'"

inductive_cases service_runE: "service_run register ifaces l l'"
inductive_cases service_WaitE: "service_Wait deregister ifaces so l l'"
inductive_cases base_OnDestroyE: "base_OnDestroy l l'"

lemmas life_stepE = service_runE service_WaitE base_OnDestroyE

definition life_init :: "rpc_server \<Rightarrow> ('s \<Rightarrow> bool) \<Rightarrow> 's life \<Rightarrow> bool" where
  "life_init server reg_ok l \<longleftrightarrow> lf_server l = server \<and> reg_ok (lf_reg l) \<and> \<not> lf_started l \<and> \<not> lf_cancelled l \<and> \<not> lf_ex l \<and>
     lf_main l = M_init \<and> lf_wait l = W_none \<and> lf_run l = R_none"

section \<open>What a registry promises\<close>

lemma service_flags:
  "registered_service ifaces (s\<lparr>sv_registered := b\<rparr>) = registered_service ifaces s"
  "deregistered_service ifaces (s\<lparr>sv_registered := b\<rparr>) = deregistered_service ifaces s"
  "registered_service ifaces (s\<lparr>sv_server := b\<rparr>) = registered_service ifaces s"
  "deregistered_service ifaces (s\<lparr>sv_server := b\<rparr>) = deregistered_service ifaces s"
  by (simp_all add: registered_service_def deregistered_service_def service_node_def Let_def split: prod.splits sum.splits)

text \<open>The services of a server depend on its options only.\<close>

definition serves :: "service \<Rightarrow> service \<Rightarrow> go_error + raw_addr list \<Rightarrow> rpc_server \<Rightarrow> bool" where
  "serves svc usv ifaces s \<longleftrightarrow> registered_service ifaces s = Inr svc \<and> deregistered_service ifaces s = Inr usv"

definition life_inv ::
    "('s \<Rightarrow> bool) \<Rightarrow> ('s \<Rightarrow> bool) \<Rightarrow> service \<Rightarrow> service \<Rightarrow> go_error + raw_addr list \<Rightarrow> 's life \<Rightarrow> bool" where
  "life_inv reg_ok listed svc usv ifaces l \<longleftrightarrow>
     reg_ok (lf_reg l) \<and> serves svc usv ifaces (lf_server l) \<and>
     (lf_wait l = W_none \<longrightarrow> lf_run l = R_none \<and> \<not> lf_started l) \<and>
     (lf_wait l = W_begin \<longrightarrow> lf_run l = R_none \<and> lf_started l) \<and>
     (lf_wait l \<noteq> W_none \<longrightarrow> lf_main l \<noteq> M_init \<and> lf_started l) \<and>
     (lf_wait l = W_select \<longrightarrow> lf_run l \<noteq> R_none) \<and>
     (lf_wait l = W_joining \<longrightarrow> lf_ex l \<and> lf_run l \<noteq> R_none) \<and>
     ((\<exists>err. lf_wait l = W_returned err) \<longrightarrow> lf_run l = R_done) \<and>
     (lf_wait l = W_returned None \<longrightarrow> \<not> listed (lf_reg l)) \<and>
     (lf_wait l \<in> {W_begin, W_select, W_joining} \<longrightarrow> listed (lf_reg l)) \<and>
     (lf_main l = M_init \<longrightarrow> \<not> lf_started l) \<and>
     (lf_main l = M_panicked \<longrightarrow> lf_wait l = W_none) \<and>
     (lf_main l = M_waiting \<longrightarrow> lf_cancelled l) \<and>
     (lf_main l = M_destroyed \<and> lf_started l \<longrightarrow> (\<exists>err. lf_wait l = W_returned err))"

text \<open>
  The operations of a registry and what a service relies on: what is registered is listed until it is
  deregistered. \<open>svc\<close> is what the server registers, \<open>usv\<close> what it deregisters.
\<close>

locale service_registry =
  fixes reg_ok :: "'s \<Rightarrow> bool"
    and register :: "'s register_op"
    and deregister :: "'s deregister_op"
    and listed :: "'s \<Rightarrow> bool"
    and svc usv :: service
  assumes register_ok: "reg_ok st \<Longrightarrow> register svc ttl st = (err, st') \<Longrightarrow> reg_ok st'"
    and register_lists: "reg_ok st \<Longrightarrow> register svc ttl st = (None, st') \<Longrightarrow> listed st'"
    and register_keeps: "reg_ok st \<Longrightarrow> register svc ttl st = (err, st') \<Longrightarrow> listed st \<Longrightarrow> listed st'"
    and deregister_ok: "reg_ok st \<Longrightarrow> deregister usv st = (err, st') \<Longrightarrow> reg_ok st'"
    and deregister_unlists: "reg_ok st \<Longrightarrow> deregister usv st = (None, st') \<Longrightarrow> \<not> listed st'"
begin

text \<open>Registering and deregistering change the server's flag only.\<close>

lemma serves_registered [simp]: "serves svc usv ifaces (s\<lparr>sv_registered := b\<rparr>) = serves svc usv ifaces s"
  by (simp add: serves_def service_flags)

lemma serves_stop [simp]: "serves svc usv ifaces (server_Stop s) = serves svc usv ifaces s"
  by (simp add: serves_def service_flags server_Stop_def)

lemma ServiceRegister_effect:
  assumes "serves svc usv ifaces s" "reg_ok st" "ServiceRegister_srv register ifaces (s, st) = (err, s', st')"
  shows "serves svc usv ifaces s' \<and> reg_ok st' \<and> (err = None \<or> listed st \<longrightarrow> listed st')"
proof -
  obtain e st1 where r: "register svc (so_RegisterTTL (sv_opts s)) st = (e, st1)" by fastforce
  have "err = e \<and> st' = st1 \<and> (s' = s \<or> s' = s\<lparr>sv_registered := True\<rparr>)"
    using assms(1,3) r by (cases e) (auto simp: ServiceRegister_srv_def serves_def split: if_splits)
  then show ?thesis
    using assms(1) register_ok[OF assms(2) r] register_lists[OF assms(2), of _ st1] register_keeps[OF assms(2) r] r by auto
qed

lemma ServiceDeregister_effect:
  assumes "serves svc usv ifaces s" "reg_ok st" "ServiceDeregister_srv deregister ifaces (s, st) = (err, s', st')"
  shows "serves svc usv ifaces s' \<and> reg_ok st' \<and> (err = None \<longrightarrow> \<not> listed st')"
proof -
  obtain e st1 where r: "deregister usv st = (e, st1)" by fastforce
  have "err = e \<and> st' = st1 \<and> (s' = s \<or> s' = s\<lparr>sv_registered := False\<rparr>)"
    using assms(1,3) r by (cases e) (auto simp: ServiceDeregister_srv_def serves_def split: if_splits)
  then show ?thesis
    using assms(1) deregister_ok[OF assms(2) r] deregister_unlists[OF assms(2), of st1] r by auto
qed

lemma service_Start_effect:
  assumes "serves svc usv ifaces s" "reg_ok st" "service_Start register ifaces so (s, st) = (err, s', st')"
  shows "serves svc usv ifaces s' \<and> reg_ok st' \<and> (err = None \<longrightarrow> listed st')"
proof (cases "first_error (sp_BeforeStart so)")
  case None
  obtain e s1 st1 where r: "ServiceRegister_srv register ifaces (s, st) = (e, s1, st1)" by (rule prod_cases3)
  have "s' = s1 \<and> st' = st1 \<and> (e \<noteq> None \<longrightarrow> err = e)"
    using assms(3) None r by (cases e) (auto simp: service_Start_def)
  with ServiceRegister_effect[OF assms(1,2) r] show ?thesis by auto
qed (use assms in \<open>auto simp: service_Start_def\<close>)

lemma service_Stop_effect:
  assumes "serves svc usv ifaces s" "reg_ok st" "service_Stop deregister ifaces so (s, st) = (err, s', st')"
  shows "serves svc usv ifaces s' \<and> reg_ok st' \<and> (err = None \<longrightarrow> \<not> listed st')"
proof -
  obtain e s1 st1 where r: "ServiceDeregister_srv deregister ifaces (s, st) = (e, s1, st1)" by (rule prod_cases3)
  have "(s' = s1 \<or> s' = server_Stop s1) \<and> st' = st1 \<and> (e \<noteq> None \<longrightarrow> err = e)"
    using assms(3) r by (cases e) (auto simp: service_Stop_def Let_def)
  with ServiceDeregister_effect[OF assms(1,2) r] show ?thesis by auto
qed

lemma base_OnReady_inv:
  assumes "life_inv reg_ok listed svc usv ifaces l" "lf_main l = M_init"
  shows "life_inv reg_ok listed svc usv ifaces (base_OnReady register ifaces so l)"
proof -
  have ok: "serves svc usv ifaces (lf_server l)" "reg_ok (lf_reg l)" "lf_wait l = W_none" "lf_run l = R_none" "\<not> lf_started l"
    using assms by (auto simp: life_inv_def)
  obtain e s st where r: "service_Start register ifaces so (lf_server l, lf_reg l) = (e, s, st)" by (rule prod_cases3)
  note eff = service_Start_effect[OF ok(1,2) r]
  show ?thesis
    using eff ok r by (cases e) (simp_all add: base_OnReady_def life_inv_def)
qed

lemma life_inv_step:
  assumes "life_inv reg_ok listed svc usv ifaces l" "life_step register deregister ifaces so l l'"
  shows "life_inv reg_ok listed svc usv ifaces l'"
proof -
  have ok: "serves svc usv ifaces (lf_server l)" "reg_ok (lf_reg l)" using assms(1) by (auto simp: life_inv_def)
  from assms(2) show ?thesis
  proof cases
    case ready
    with assms(1) base_OnReady_inv show ?thesis by blast
  next
    case runs
    then show ?thesis
    proof cases
      case (tick err s st)
      from ServiceRegister_effect[OF ok tick(3)] tick assms(1) show ?thesis by (auto simp: life_inv_def)
    qed (use assms(1) in \<open>auto simp: life_inv_def\<close>)
  next
    case waits
    then show ?thesis
    proof cases
      case (stop err s st)
      from service_Stop_effect[OF ok stop(4)] stop assms(1) show ?thesis by (auto simp: life_inv_def)
    qed (use assms(1) in \<open>auto simp: life_inv_def\<close>)
  next
    case destroys
    then show ?thesis by cases (use assms(1) in \<open>auto simp: life_inv_def\<close>)
  qed
qed

lemma life_inv_init: "life_init server reg_ok l \<Longrightarrow> serves svc usv ifaces server \<Longrightarrow> life_inv reg_ok listed svc usv ifaces l"
  by (auto simp: life_init_def life_inv_def)

lemma life_inv_reach:
  assumes "reach (life_init server reg_ok) (life_step register deregister ifaces so) l" "serves svc usv ifaces server"
  shows "life_inv reg_ok listed svc usv ifaces l"
  using assms by (induction rule: reach.induct) (auto intro: life_inv_init life_inv_step)

text \<open>After \<open>Wait\<close> has returned, no goroutine of the module calls the registry again.\<close>

lemma returned_step:
  assumes "life_inv reg_ok listed svc usv ifaces l" "lf_wait l = W_returned err" "life_step register deregister ifaces so l l'"
  shows "lf_reg l' = lf_reg l \<and> lf_wait l' = W_returned err"
  using assms(3,1,2) by cases (auto simp: life_inv_def elim!: life_stepE)

lemma returned_final:
  assumes "(life_step register deregister ifaces so)\<^sup>*\<^sup>* l l'" "life_inv reg_ok listed svc usv ifaces l" "lf_wait l = W_returned err"
  shows "lf_reg l' = lf_reg l"
proof -
  have "lf_reg l' = lf_reg l \<and> lf_wait l' = W_returned err \<and> life_inv reg_ok listed svc usv ifaces l'"
    using assms(1)
  proof (induction rule: rtranclp_induct)
    case base
    then show ?case using assms by simp
  next
    case (step y z)
    with returned_step[of ifaces y err so z] life_inv_step[of ifaces y so z] show ?case by auto
  qed
  then show ?thesis by simp
qed

text \<open>Whatever the module's goroutines are doing when it is being destroyed, they can finish.\<close>

lemma run_can_finish:
  assumes "life_inv reg_ok listed svc usv ifaces l" "lf_wait l = W_joining"
  shows "\<exists>l'. (life_step register deregister ifaces so)\<^sup>*\<^sup>* l l' \<and> (\<exists>err. lf_wait l' = W_returned err) \<and> lf_main l' = lf_main l"
proof -
  have "lf_run l = R_loop \<or> lf_run l = R_done" "lf_ex l" using assms by (cases "lf_run l"; auto simp: life_inv_def)+
  then obtain l1 where l1: "(life_step register deregister ifaces so)\<^sup>*\<^sup>* l l1" "lf_run l1 = R_done" "lf_wait l1 = W_joining"
      "lf_main l1 = lf_main l"
    using life_step.runs[OF service_run.run_exit[of l register ifaces], of deregister so] assms(2)
    by (metis (no_types, lifting) life.select_convs(7,8,9) life.surjective life.update_convs(9) r_into_rtranclp rtranclp.rtrancl_refl)
  obtain e s st where "service_Stop deregister ifaces so (lf_server l1, lf_reg l1) = (e, s, st)" by (rule prod_cases3)
  then have "life_step register deregister ifaces so l1 (l1\<lparr>lf_server := s, lf_reg := st, lf_wait := W_returned e\<rparr>)"
    by (intro life_step.waits service_Wait.stop[OF l1(3,2)])
  with l1(1) have "(life_step register deregister ifaces so)\<^sup>*\<^sup>* l (l1\<lparr>lf_server := s, lf_reg := st, lf_wait := W_returned e\<rparr>)"
    by (rule rtranclp.rtrancl_into_rtrancl)
  with l1(4) show ?thesis by fastforce
qed

lemma destroy_can_finish:
  assumes "life_inv reg_ok listed svc usv ifaces l" "lf_main l = M_waiting"
  shows "\<exists>l'. (life_step register deregister ifaces so)\<^sup>*\<^sup>* l l' \<and> lf_main l' = M_destroyed"
proof -
  let ?step = "life_step register deregister ifaces so"
  have from_return: "\<exists>l'. ?step\<^sup>*\<^sup>* l0 l' \<and> lf_main l' = M_destroyed"
    if "lf_main l0 = M_waiting" "lf_started l0 \<longrightarrow> (\<exists>err. lf_wait l0 = W_returned err)" for l0
    using life_step.destroys[OF base_OnDestroy.destroyed[OF that]]
    by (intro exI[of _ "l0\<lparr>lf_server := server_Stop (lf_server l0), lf_main := M_destroyed\<rparr>"]) auto
  have from_join: "\<exists>l'. ?step\<^sup>*\<^sup>* l0 l' \<and> lf_main l' = M_destroyed"
    if "life_inv reg_ok listed svc usv ifaces l0" "lf_main l0 = M_waiting" "lf_wait l0 = W_joining" for l0
    using run_can_finish[OF that(1,3)] from_return that(2) by (metis rtranclp_trans)
  have from_select: "\<exists>l'. ?step\<^sup>*\<^sup>* l0 l' \<and> lf_main l' = M_destroyed"
    if i: "life_inv reg_ok listed svc usv ifaces l0" and "lf_main l0 = M_waiting" "lf_wait l0 = W_select" for l0
  proof -
    have "?step l0 (l0\<lparr>lf_ex := True, lf_wait := W_joining\<rparr>)"
      using that by (intro life_step.waits service_Wait.context_done) (auto simp: life_inv_def)
    from from_join[OF life_inv_step[OF i this]] that(2) this show ?thesis
      by (auto intro: converse_rtranclp_into_rtranclp)
  qed
  show ?thesis
  proof (cases "lf_wait l")
    case W_none
    with assms have "\<not> lf_started l" by (simp add: life_inv_def)
    then show ?thesis using from_return assms(2) by blast
  next
    case W_begin
    from life_step.waits[OF service_Wait.wait_begin[OF this]] have s: "?step l (l\<lparr>lf_wait := W_select,
        lf_run := if sp_RegisterInterval so \<le> 0 then R_done else R_loop\<rparr>)" .
    from from_select[OF life_inv_step[OF assms(1) s]] assms(2) s show ?thesis
      by (auto intro: converse_rtranclp_into_rtranclp)
  qed (use from_return from_join from_select assms in blast)+
qed

end


section \<open>The registries\<close>

lemma service_fields [simp]:
  "Nodes (one_node_service nm v n) = [n]" "Name (one_node_service nm v n) = nm" "Version (one_node_service nm v n) = v"
  "InstanceID (bare_node i a port) = i"
  by (simp_all add: one_node_service_def bare_node_def)

subsection \<open>In memory\<close>

definition mock_register_op :: "mock_registry register_op" where
  "mock_register_op s ttl m = (None, mock_Register s m)"

definition mock_deregister_op :: "mock_registry deregister_op" where
  "mock_deregister_op s m = (None, mock_Deregister s m)"

definition mock_lists :: "string \<Rightarrow> string \<Rightarrow> string \<Rightarrow> mock_registry \<Rightarrow> bool" where
  "mock_lists nm v i m \<longleftrightarrow> (case sv_abs (mock_services m nm) v of None \<Rightarrow> False | Some ns \<Rightarrow> i \<in> dom ns)"

lemma mock_ops_services:
  "mock_services (mock_Register s m) (Name s) = addServices (mock_services m (Name s)) [s]"
  "mock_services (mock_Deregister s m) (Name s) = delServices (mock_services m (Name s)) [s]"
  by (simp_all add: mock_services_def mock_Register_def mock_Deregister_def)

interpretation mock_service: service_registry "\<lambda>m. services_ok (mock_services m nm)" mock_register_op mock_deregister_op
  "mock_lists nm v (InstanceID n)" "one_node_service nm v n" "one_node_service nm v (bare_node (InstanceID n) a port)"
  for nm v n a port
proof
  let ?s = "one_node_service nm v n" and ?u = "one_node_service nm v (bare_node (InstanceID n) a port)"
  fix m m' :: mock_registry and ttl err
  assume ok: "services_ok (mock_services m nm)"
  have eo: "event_ok (Added ?s)" "event_ok (Deleted ?u)" by (simp_all add: event_ok_def nodes_ok_def)
  note add = mock_store.handle_ok[OF ok eo(1)] mock_store.handle_abs[OF ok eo(1)]
  note del = mock_store.handle_ok[OF ok eo(2)] mock_store.handle_abs[OF ok eo(2)]
  have after_add: "services_ok (mock_services m' nm) \<and> mock_lists nm v (InstanceID n) m'"
    if "mock_register_op ?s ttl m = (err, m')"
    using that add mock_ops_services(1)[of ?s m]
    by (auto simp: mock_register_op_def mock_lists_def abs_add_def node_map_Cons)
  have after_del: "services_ok (mock_services m' nm) \<and> \<not> mock_lists nm v (InstanceID n) m'"
    if "mock_deregister_op ?u m = (err, m')"
    using that del mock_ops_services(2)[of ?u m]
    by (auto simp: mock_deregister_op_def mock_lists_def abs_del_def Let_def split: option.splits if_splits)
  show "services_ok (mock_services m' nm)" if "mock_register_op ?s ttl m = (err, m')" using after_add[OF that] by simp
  show "mock_lists nm v (InstanceID n) m'" if "mock_register_op ?s ttl m = (err, m')" "mock_lists nm v (InstanceID n) m"
    using after_add[OF that(1)] by simp
  show "services_ok (mock_services m' nm)" if "mock_deregister_op ?u m = (err, m')" using after_del[OF that] by simp
next
  fix m m' :: mock_registry and ttl
  let ?s = "one_node_service nm v n" and ?u = "one_node_service nm v (bare_node (InstanceID n) a port)"
  assume ok: "services_ok (mock_services m nm)"
  have eo: "event_ok (Added ?s)" "event_ok (Deleted ?u)" by (simp_all add: event_ok_def nodes_ok_def)
  show "mock_lists nm v (InstanceID n) m'" if "mock_register_op ?s ttl m = (None, m')"
    using that mock_store.handle_abs[OF ok eo(1)] mock_ops_services(1)[of ?s m]
    by (auto simp: mock_register_op_def mock_lists_def abs_add_def node_map_Cons)
  show "\<not> mock_lists nm v (InstanceID n) m'" if "mock_deregister_op ?u m = (None, m')"
    using that mock_store.handle_abs[OF ok eo(2)] mock_ops_services(2)[of ?u m]
    by (auto simp: mock_deregister_op_def mock_lists_def abs_del_def Let_def split: option.splits if_splits)
qed

subsection \<open>On Consul\<close>

definition consul_ok ::
    "tag_env \<Rightarrow> (service \<Rightarrow> go_error + nat) \<Rightarrow> 'c consul_client \<Rightarrow> ('c \<Rightarrow> string \<rightharpoonup> agent_registration) \<Rightarrow> service
      \<Rightarrow> consul_registry \<times> 'c \<Rightarrow> bool" where
  "consul_ok E hash C regs svc cst \<longleftrightarrow> writes_ok C regs \<and> hashes_true E hash regs {svc} cst"

definition consul_lists :: "('c \<Rightarrow> string \<rightharpoonup> agent_registration) \<Rightarrow> string \<Rightarrow> consul_registry \<times> 'c \<Rightarrow> bool" where
  "consul_lists regs i cst \<longleftrightarrow> i \<in> dom (regs (snd cst))"

lemma consul_full_keeps:
  assumes "writes_ok C regs" "consul_full_register E dur C s ttl h (c, st) = (err, c', st')" "i \<in> dom (regs st)"
  shows "i \<in> dom (regs st')"
  by (cases rule: full_register_effect[OF assms(1,2)]) (use assms(3) in auto)

lemma consul_Register_keeps:
  assumes "writes_ok C regs" "consul_Register E dur hash C s ttl (c, st) = (err, c', st')" "i \<in> dom (regs st)"
  shows "i \<in> dom (regs st')"
proof (cases "Nodes s = []")
  case False
  show ?thesis
  proof (cases "hash s")
    case (Inr h)
    obtain e1 st1 where p: "PassTTL C (''service:'' @ InstanceID (Nodes s ! 0)) st = (e1, st1)" by fastforce
    have "regs st1 = regs st" using writes_PassTTL[OF assms(1) p] by simp
    then show ?thesis
      using assms(2,3) consul_full_keeps[OF assms(1)] unfolding consul_Register_eq[of hash, OF Inr False p]
      by (cases "cr_register c (InstanceID (Nodes s ! 0)) = Some h"; cases e1) (auto simp: domIff)
  qed (use assms False in \<open>auto simp: consul_Register_def\<close>)
qed (use assms in \<open>auto simp: consul_Register_def\<close>)

lemma consul_Deregister_unlists:
  assumes "writes_ok C regs" "consul_Deregister C s (c, st) = (None, c', st')" "Nodes s = [n]"
  shows "InstanceID n \<notin> dom (regs st')"
proof -
  obtain e st1 where d: "ServiceDeregister C (InstanceID n) st = (e, st1)" by fastforce
  then have "e = None" "st' = st1" using assms(2,3) by (auto simp: consul_Deregister_def Let_def)
  then show ?thesis
    using assms(1)[unfolded writes_ok_def, THEN conjunct2, THEN conjunct1, THEN spec[of _ "InstanceID n"], THEN spec[of _ st]] d
    by simp
qed

interpretation consul_service: service_registry "consul_ok E hash C regs (one_node_service nm v n)"
  "consul_Register E dur hash C" "consul_Deregister C" "consul_lists regs (InstanceID n)"
  "one_node_service nm v n" "one_node_service nm v (bare_node (InstanceID n) a port)"
  for E dur hash C regs nm v n a port
proof
  let ?s = "one_node_service nm v n" and ?u = "one_node_service nm v (bare_node (InstanceID n) a port)"
  let ?ok = "consul_ok E hash C regs ?s"
  note step = hashes_true_step[of C regs E hash "{?s}" _ dur]
  show "?ok st'" if "?ok st" "consul_Register E dur hash C ?s ttl st = (err, st')" for st ttl err st'
    using that step[of st st'] consul_step.register[of ?s "{?s}" E dur hash C ttl st err st' regs]
    unfolding consul_ok_def by simp
  show "?ok st'" if "?ok st" "consul_Deregister C ?u st = (err, st')" for st err st'
    using that step[of st st'] consul_step.deregister[of C ?u st err st'] unfolding consul_ok_def by simp
  show "consul_lists regs (InstanceID n) st'" if "?ok st" "consul_Register E dur hash C ?s ttl st = (None, st')" for st ttl st'
    using that register_effect[of C regs E hash "{?s}" st ?s dur ttl st'] by (auto simp: consul_ok_def consul_lists_def)
  show "consul_lists regs (InstanceID n) st'"
    if "?ok st" "consul_Register E dur hash C ?s ttl st = (err, st')" "consul_lists regs (InstanceID n) st" for st ttl err st'
    using that consul_Register_keeps[of C regs E dur hash ?s ttl "fst st" "snd st" err "fst st'" "snd st'"]
    by (simp add: consul_ok_def consul_lists_def)
  show "\<not> consul_lists regs (InstanceID n) st'" if "?ok st" "consul_Deregister C ?u st = (None, st')" for st st'
    using that consul_Deregister_unlists[of C regs ?u "fst st" "snd st" "fst st'" "snd st'" "bare_node (InstanceID n) a port"]
    by (simp add: consul_ok_def consul_lists_def)
qed


section \<open>Properties\<close>

lemma registered_service_shape:
  assumes "registered_service ifaces s = Inr svc"
  obtains n a port where "svc = one_node_service (so_Name (sv_opts s)) (so_Version (sv_opts s)) n" "InstanceID n = sv_instanceID s"
    "deregistered_service ifaces s = Inr (one_node_service (so_Name (sv_opts s)) (so_Version (sv_opts s)) (bare_node (InstanceID n) a port))"
proof -
  obtain host port where hp: "host_port (sv_opts s) = (host, port)" by fastforce
  with assms obtain a where a: "Extract ifaces host = Inr a"
    by (auto simp: registered_service_def Let_def split: sum.splits)
  show thesis
    by (rule that[of "service_node s a port" a port])
      (use assms hp a in \<open>auto simp: registered_service_def deregistered_service_def service_node_def Let_def\<close>)
qed




definition sample_server :: rpc_server where
  "sample_server = \<lparr>sv_opts = \<lparr>so_Registry = Some ''consul'', so_Metadata = Some Map.empty, so_Name = ''chat'',
     so_Address = ''nats'', so_Advertise = [], so_ID = ''1'', so_Version = ''1.0'', so_RegisterInterval = 10, so_RegisterTTL = 0\<rparr>,
     sv_registered = False, sv_server = True, sv_id = ''chat@1'', sv_instanceID = ''chat@1#u'', sv_startedAt = 5\<rparr>"

definition sample_service_options :: service_options where
  "sample_service_options = \<lparr>sp_RegisterInterval = 10, sp_BeforeStart = [], sp_AfterStart = [], sp_BeforeStop = [],
     sp_AfterStop = []\<rparr>"

definition start_life :: "(consul_registry \<times> agent_registration list) life" where
  "start_life = \<lparr>lf_server = sample_server, lf_reg = (fresh_registry, []), lf_cache = cache_NewSelector 0, lf_started = False,
     lf_cancelled = False, lf_ex = False, lf_main = M_init, lf_wait = W_none, lf_run = R_none\<rparr>"

definition sample_registered :: service where
  "sample_registered = one_node_service ''chat'' ''1.0'' (service_node sample_server ''nats'' 0)"

definition ready_life :: "(consul_registry \<times> agent_registration list) life" where
  "ready_life = base_OnReady (consul_Register plain_tag_env (\<lambda>_. []) (\<lambda>_. Inr 7) list_client) (Inr []) sample_service_options start_life"

lemma sample_registered_service: "registered_service (Inr []) sample_server = Inr sample_registered"
  by (simp add: registered_service_def sample_server_def host_port_def Extract_def sample_registered_def)

lemma start_life_init:
  "life_init sample_server (consul_ok plain_tag_env (\<lambda>_. Inr 7) list_client list_regs sample_registered) start_life"
  using list_writes_ok
  by (simp add: life_init_def start_life_def consul_ok_def hashes_true_def fresh_registry_def)

lemma ready_life_wait: "lf_wait ready_life = W_begin \<and> lf_main ready_life = M_ready"
proof -
  have ttl: "so_RegisterTTL (sv_opts sample_server) = 0" by (simp add: sample_server_def)
  obtain cst where "consul_Register plain_tag_env (\<lambda>_. []) (\<lambda>_. Inr 7) list_client sample_registered 0 (fresh_registry, []) = (None, cst)"
    by (simp add: consul_Register_def consul_full_register_def fresh_registry_def list_client_def sample_registered_def Let_def)
  then show ?thesis
    by (cases "sv_registered sample_server")
      (simp_all add: ready_life_def base_OnReady_def start_life_def service_Start_def sample_service_options_def
        first_error_def ServiceRegister_srv_def sample_registered_service ttl split: prod.splits)
qed

abbreviation sample_step ::
    "(consul_registry \<times> agent_registration list) life \<Rightarrow> (consul_registry \<times> agent_registration list) life \<Rightarrow> bool" where
  "sample_step \<equiv> life_step (consul_Register plain_tag_env (\<lambda>_. []) (\<lambda>_. Inr 7) list_client) (consul_Deregister list_client)
    (Inr []) sample_service_options"

lemma ready_life_reach:
  "reach (life_init sample_server (consul_ok plain_tag_env (\<lambda>_. Inr 7) list_client list_regs sample_registered)) sample_step ready_life"
  unfolding ready_life_def
  by (rule reach_step, rule reach_init, rule start_life_init, rule life_step.ready) (simp add: start_life_def)



lemma base_OnInit_Ret:
  assumes "base_OnInit app mtype version setting_id gen opt dreg did uuid now made hostname pid = Ret (server, so)"
  obtains s0 a md where "newRPCServer dreg did uuid now (module_server_options app mtype version setting_id gen opt) = Ret s0"
    "server = s0\<lparr>sv_server := True, sv_opts := (sv_opts s0)\<lparr>so_Address := a, so_Metadata := md, so_RegisterTTL := ap_RegisterTTL app\<rparr>\<rparr>"
    "sp_RegisterInterval so = ap_RegisterInterval app"
proof -
  obtain s0 where n: "newRPCServer dreg did uuid now (module_server_options app mtype version setting_id gen opt) = Ret s0"
    using assms by (auto simp: base_OnInit_def outcome_bind_Ret_iff)
  obtain a where a: "made = Inr a" using assms n by (cases made) (simp_all add: base_OnInit_def server_OnInit_def)
  obtain md where "so_Metadata (sv_opts s0) = Some md"
    using assms n a by (cases "so_Metadata (sv_opts s0)") (simp_all add: base_OnInit_def server_OnInit_def)
  with assms n a show thesis by (intro that[OF n]) (auto simp: base_OnInit_def server_OnInit_def server_Init_def)
qed

text \<open>A module's own time to live and interval of renewal have no effect.\<close>

lemma module_ttl_ignored:
  assumes "base_OnInit app mtype version setting_id gen opt dreg did uuid now made hostname pid = Ret (server, so)"
  shows "so_RegisterTTL (sv_opts server) = ap_RegisterTTL app \<and> sp_RegisterInterval so = ap_RegisterInterval app"
  by (rule base_OnInit_Ret[OF assms]) simp

text \<open>A module that does not choose its name and ID itself is registered under its type and the ID of its settings.\<close>

lemma module_server_id:
  assumes "base_OnInit app mtype version setting_id gen [] dreg did uuid now made hostname pid = Ret (server, so)"
    "mtype \<noteq> []" "setting_id \<noteq> []"
  shows "sv_id server = mtype @ ''@'' @ setting_id \<and> sv_instanceID server = sv_id server @ ''#'' @ uuid \<and>
    so_Name (sv_opts server) = mtype \<and> so_ID (sv_opts server) = setting_id"
proof (rule base_OnInit_Ret[OF assms(1)])
  fix s0 a md
  assume "newRPCServer dreg did uuid now (module_server_options app mtype version setting_id gen []) = Ret s0"
    "server = s0\<lparr>sv_server := True, sv_opts := (sv_opts s0)\<lparr>so_Address := a, so_Metadata := md, so_RegisterTTL := ap_RegisterTTL app\<rparr>\<rparr>"
  then show ?thesis
    using assms(2,3)
    by (auto simp: newRPCServer_def server_newOptions_def module_server_options_def empty_options_def Let_def split: if_splits)
qed

end
