(* ===== verification/Rpc_Reply.thy ===== *)
theory Rpc_Reply
  imports Rpc_Server
begin

text \<open>
  Conversions of what a remote call returned (\<^verbatim>\<open>src/rpc/reply.go\<close>): from the dynamic value and the error
  to a Go value of the wanted type. The error is an \<open>interface{}\<close>; the width of \<open>int\<close> is the platform's, here
  the width of the word. A target of \<open>Marshal\<close> or \<open>Proto\<close> is given by what reflection finds out about it.
\<close>

section \<open>Conversions\<close>

datatype err_arg = Err_nil | Err_string string | Err_error go_error | Err_other

definition mqrpc_ErrNil :: go_error where
  "mqrpc_ErrNil = Errorf ''mqrpc: nil returned'' []"

definition strconv_ErrRange :: go_error where
  "strconv_ErrRange = Errorf ''value out of range'' []"

text \<open>The switch on the error that every conversion begins with.\<close>

definition given_error :: "err_arg \<Rightarrow> go_error option" where
  "given_error err =
     (case err of
        Err_string e \<Rightarrow> if e \<noteq> [] then Some (Errorf e []) else None
      | Err_error e \<Rightarrow> Some e
      | _ \<Rightarrow> None)"

text \<open>\<open>%T\<close> of a reply.\<close>

definition go_type :: "('j, 'o) arg_env \<Rightarrow> ('j, 'o) rarg \<Rightarrow> string" where
  "go_type env a =
     (case a of
        RNil \<Rightarrow> ''<nil>'' | RBytes _ \<Rightarrow> ''[]uint8'' | RString _ \<Rightarrow> ''string'' | RBool _ \<Rightarrow> ''bool'' | RInt32 _ \<Rightarrow> ''int32''
      | RInt64 _ \<Rightarrow> ''int64'' | RFloat32 _ \<Rightarrow> ''float32'' | RFloat64 _ \<Rightarrow> ''float64''
      | RMap _ \<Rightarrow> ''map[string]interface {}'' | RMapStr _ \<Rightarrow> ''map[string]string''
      | RTrace _ \<Rightarrow> ''log.TraceSpanImp'' | RTracePtr _ \<Rightarrow> ''*log.TraceSpanImp'' | ROther v \<Rightarrow> type_name env v)"

definition reply_Int :: "('j, 'o) arg_env \<Rightarrow> ('j, 'o) rarg \<Rightarrow> err_arg \<Rightarrow> go_error + 'i::len word" where
  "reply_Int env reply err =
     (case given_error err of
        Some e \<Rightarrow> Inl e
      | None \<Rightarrow>
          (case reply of
             RInt64 r \<Rightarrow> let x = (scast r :: 'i word) in if (scast x :: 64 word) \<noteq> r then Inl strconv_ErrRange else Inr x
           | RNil \<Rightarrow> Inl mqrpc_ErrNil
           | _ \<Rightarrow> Inl (Errorf ''mqrpc: unexpected type for Int, got type %T'' [AS (go_type env reply)])))"

definition reply_Int64 :: "('j, 'o) arg_env \<Rightarrow> ('j, 'o) rarg \<Rightarrow> err_arg \<Rightarrow> go_error + 64 word" where
  "reply_Int64 env reply err =
     (case given_error err of
        Some e \<Rightarrow> Inl e
      | None \<Rightarrow>
          (case reply of
             RInt64 r \<Rightarrow> Inr r
           | RNil \<Rightarrow> Inl mqrpc_ErrNil
           | _ \<Rightarrow> Inl (Errorf ''mqrpc: unexpected type for Int64, got type %T'' [AS (go_type env reply)])))"

definition reply_Float64 :: "('j, 'o) arg_env \<Rightarrow> ('j, 'o) rarg \<Rightarrow> err_arg \<Rightarrow> go_error + 64 word" where
  "reply_Float64 env reply err =
     (case given_error err of
        Some e \<Rightarrow> Inl e
      | None \<Rightarrow>
          (case reply of
             RFloat64 r \<Rightarrow> Inr r
           | RNil \<Rightarrow> Inl mqrpc_ErrNil
           | _ \<Rightarrow> Inl (Errorf ''mqrpc: unexpected type for Float64, got type %T'' [AS (go_type env reply)])))"

definition reply_String :: "('j, 'o) arg_env \<Rightarrow> ('j, 'o) rarg \<Rightarrow> err_arg \<Rightarrow> go_error + string" where
  "reply_String env reply err =
     (case given_error err of
        Some e \<Rightarrow> Inl e
      | None \<Rightarrow>
          (case reply of
             RString r \<Rightarrow> Inr r
           | RNil \<Rightarrow> Inl mqrpc_ErrNil
           | _ \<Rightarrow> Inl (Errorf ''mqrpc: unexpected type for String, got type %T'' [AS (go_type env reply)])))"

definition reply_Bytes :: "('j, 'o) arg_env \<Rightarrow> ('j, 'o) rarg \<Rightarrow> err_arg \<Rightarrow> go_error + bytes" where
  "reply_Bytes env reply err =
     (case given_error err of
        Some e \<Rightarrow> Inl e
      | None \<Rightarrow>
          (case reply of
             RBytes r \<Rightarrow> Inr r
           | RNil \<Rightarrow> Inl mqrpc_ErrNil
           | _ \<Rightarrow> Inl (Errorf ''mqrpc: unexpected type for Bytes, got type %T'' [AS (go_type env reply)])))"

definition reply_Bool :: "('j, 'o) arg_env \<Rightarrow> ('j, 'o) rarg \<Rightarrow> err_arg \<Rightarrow> go_error + bool" where
  "reply_Bool env reply err =
     (case given_error err of
        Some e \<Rightarrow> Inl e
      | None \<Rightarrow>
          (case reply of
             RBool r \<Rightarrow> Inr r
           | RNil \<Rightarrow> Inl mqrpc_ErrNil
           | _ \<Rightarrow> Inl (Errorf ''mqrpc: unexpected type for Bool, got type %T'' [AS (go_type env reply)])))"

text \<open>The errors of the two maps name the type \<open>Bool\<close>.\<close>

definition reply_StringMap :: "('j, 'o) arg_env \<Rightarrow> ('j, 'o) rarg \<Rightarrow> err_arg \<Rightarrow> go_error + smap" where
  "reply_StringMap env reply err =
     (case given_error err of
        Some e \<Rightarrow> Inl e
      | None \<Rightarrow>
          (case reply of
             RMapStr r \<Rightarrow> Inr r
           | RNil \<Rightarrow> Inl mqrpc_ErrNil
           | _ \<Rightarrow> Inl (Errorf ''mqrpc: unexpected type for Bool, got type %T'' [AS (go_type env reply)])))"

definition reply_InterfaceMap :: "('j, 'o) arg_env \<Rightarrow> ('j, 'o) rarg \<Rightarrow> err_arg \<Rightarrow> go_error + 'j" where
  "reply_InterfaceMap env reply err =
     (case given_error err of
        Some e \<Rightarrow> Inl e
      | None \<Rightarrow>
          (case reply of
             RMap r \<Rightarrow> Inr r
           | RNil \<Rightarrow> Inl mqrpc_ErrNil
           | _ \<Rightarrow> Inl (Errorf ''mqrpc: unexpected type for Bool, got type %T'' [AS (go_type env reply)])))"

text \<open>
  What \<open>mrsp\<close> may be: nil, a value that is not a pointer, or a pointer, with what decoding into it does if it
  has the wanted interface. For nil \<open>reflect.ValueOf\<close> gives the zero value, whose type cannot be asked for.
\<close>

datatype 'r target = Target_nil | Target_value string | Target_pointer string "(bytes \<Rightarrow> go_error + 'r) option"

definition reply_into ::
    "string \<Rightarrow> string \<Rightarrow> ('j, 'o) arg_env \<Rightarrow> 'r target \<Rightarrow> ('j, 'o) rarg \<times> err_arg \<Rightarrow> (go_error + 'r) outcome" where
  "reply_into no_pointer no_interface env mrsp re =
     (case re of (reply, err) \<Rightarrow>
        case given_error err of
          Some e \<Rightarrow> Ret (Inl e)
        | None \<Rightarrow>
            (case mrsp of
               Target_nil \<Rightarrow> Panic ''reflect: call of reflect.Value.Type on zero Value''
             | Target_value ty \<Rightarrow> Ret (Inl (Errorf no_pointer [AS ty]))
             | Target_pointer ty None \<Rightarrow> Ret (Inl (Errorf no_interface [AS ty]))
             | Target_pointer ty (Some unmarshal) \<Rightarrow>
                 (case reply of
                    RBytes r \<Rightarrow> Ret (case unmarshal r of Inl e \<Rightarrow> Inl e | Inr v \<Rightarrow> Inr v)
                  | RNil \<Rightarrow> Ret (Inl mqrpc_ErrNil)
                  | _ \<Rightarrow> Ret (Inl (Errorf ''mqrpc: unexpected type for %v, got type %T'' [AS (go_type env reply)])))))"

definition reply_Marshal ::
    "('j, 'o) arg_env \<Rightarrow> 'r target \<Rightarrow> ('j, 'o) rarg \<times> err_arg \<Rightarrow> (go_error + 'r) outcome" where
  "reply_Marshal = reply_into ''mrsp [%v] not *mqrpc.marshaler pointer type'' ''mrsp [%v] not *mqrpc.marshaler type''"

definition reply_Proto ::
    "('j, 'o) arg_env \<Rightarrow> 'r target \<Rightarrow> ('j, 'o) rarg \<times> err_arg \<Rightarrow> (go_error + 'r) outcome" where
  "reply_Proto = reply_into ''mrsp [%v] not *proto.Message pointer type'' ''mrsp [%v] not *proto.Message type''"

section \<open>A call and its conversion\<close>

text \<open>What a call returns, in the form the conversions take it.\<close>

fun call_reply :: "go_error + ('j, 'o) rarg \<Rightarrow> ('j, 'o) rarg \<times> err_arg" where
  "call_reply (Inl e) = (RNil, Err_error e)"
| "call_reply (Inr v) = (v, Err_nil)"

text \<open>The answer a function's value becomes.\<close>

definition answer_carries :: "('j, 'o) arg_env \<Rightarrow> ('j, 'o) rarg \<Rightarrow> result_info \<Rightarrow> bool" where
  "answer_carries env v res \<longleftrightarrow> r_Error res = [] \<and> ArgsTypeAnd2Bytes env v = (r_ResultType res, r_Result res, None)"

lemma answer_received:
  assumes "json_ok norm env" "answer_carries env v res" "\<not> is_other v"
  shows "CallArgs_result env (Some res) = Ret (Inr (received norm env [] v))"
  using roundtrip_plain[OF assms(1), of v "r_ResultType res" "r_Result res"] assms(2,3)
  by (simp add: answer_carries_def CallArgs_result_def)

lemmas reply_defs = reply_Int_def reply_Int64_def reply_Float64_def reply_String_def reply_Bytes_def reply_Bool_def
  reply_StringMap_def reply_InterfaceMap_def given_error_def


text \<open>An \<open>int64\<close> goes into an \<open>int\<close> exactly when it is in its range.\<close>

lemma scast_fits:
  fixes r :: "64 word"
  assumes "LENGTH('i::len) \<le> 64"
  shows "scast (scast r :: 'i word) = r \<longleftrightarrow> - (2 ^ (LENGTH('i) - 1)) \<le> sint r \<and> sint r < 2 ^ (LENGTH('i) - 1)"
proof -
  have "sint (scast (scast r :: 'i word) :: 64 word) = signed_take_bit (LENGTH('i) - 1) (sint r)"
  proof -
    have "sint (scast r :: 'i word) = signed_take_bit (LENGTH('i) - Suc 0) (sint r)" by (rule signed_scast_eq)
    moreover have "sint (scast x :: 64 word) = signed_take_bit 63 (sint x)" for x :: "'i word"
      by (simp only: signed_scast_eq) simp
    moreover have "min 63 (LENGTH('i) - Suc 0) = LENGTH('i) - Suc 0" using assms by simp
    ultimately show ?thesis by (simp only: signed_take_bit_signed_take_bit One_nat_def)
  qed
  moreover have "signed_take_bit (LENGTH('i) - 1) (sint r) = sint r \<longleftrightarrow>
      - (2 ^ (LENGTH('i) - 1)) \<le> sint r \<and> sint r < 2 ^ (LENGTH('i) - 1)"
    by (simp add: signed_take_bit_int_eq_self_iff)
  ultimately show ?thesis by (metis signed_word_eqI)
qed



text \<open>A function that returns an \<open>int32\<close> cannot be read with \<open>Int\<close> or \<open>Int64\<close>.\<close>

lemma int32_reply_rejected:
  "reply_Int64 env (RInt32 n) Err_nil = Inl (Errorf ''mqrpc: unexpected type for Int64, got type %T'' [AS ''int32''])"
  by (simp add: reply_Int64_def given_error_def go_type_def)

end
