(* ===== verification/App_Routing.thy ===== *)
theory App_Routing
  imports Selector "HOL-Library.AList"
begin

text \<open>
  How an application finds the servers it calls (\<^verbatim>\<open>src/app/app.go\<close>,
  \<^verbatim>\<open>src/module/base/server_session.go\<close>): the table of server sessions by instance, the sticky
  routes from a logical server id to an instance, and the watcher that drops what the registry
  has removed. RPC clients have an identity (a number), so that creating and closing them can be
  followed; whether dialling a node succeeds, the selector's answers and \<open>mapRoute\<close> are
  arguments. The second part interleaves lookups and the watcher at the points where the code
  holds no lock.
\<close>

section \<open>The state\<close>

record server_session =
  ss_name :: string
  ss_node :: node
  ss_rpc :: nat

abbreviation ss_instance :: "server_session \<Rightarrow> string" where
  "ss_instance s \<equiv> InstanceID (ss_node s)"

definition GetID :: "server_session \<Rightarrow> string" where
  "GetID c = ServerID (ss_node c)"

definition GetInstanceID :: "server_session \<Rightarrow> string" where
  "GetInstanceID c = InstanceID (ss_node c)"

text \<open>\<open>sync.Map\<close>s as association lists; the RPC clients created so far are the numbers below \<open>rpcs\<close>.\<close>

record app_state =
  serverList :: "(string \<times> server_session) list"
  logicalRoutes :: "string \<rightharpoonup> string"
  rpcs :: nat
  done_rpcs :: "nat list"

definition NewApp :: app_state where
  "NewApp = \<lparr>serverList = [], logicalRoutes = Map.empty, rpcs = 0, done_rpcs = []\<rparr>"

text \<open>\<open>dial\<close> is \<open>NewRPCClient\<close>: \<open>None\<close> when it succeeds.\<close>

definition NewServerSession ::
    "(node \<Rightarrow> go_error option) \<Rightarrow> string \<Rightarrow> node \<Rightarrow> app_state \<Rightarrow> (go_error + server_session) \<times> app_state" where
  "NewServerSession dial nm n app =
     (case dial n of
        Some err \<Rightarrow> (Inl err, app)
      | None \<Rightarrow> (Inr \<lparr>ss_name = nm, ss_node = n, ss_rpc = rpcs app\<rparr>, app\<lparr>rpcs := rpcs app + 1\<rparr>))"

definition rpc_Done :: "server_session \<Rightarrow> app_state \<Rightarrow> app_state" where
  "rpc_Done s app = app\<lparr>done_rpcs := ss_rpc s # done_rpcs app\<rparr>"

section \<open>Finding a session\<close>

text \<open>
  \<open>getServerSession\<close> and its critical section, \<open>LoadOrStore\<close>: of two sessions for one instance the
  later one is closed again.
\<close>

definition store_session :: "server_session \<Rightarrow> app_state \<Rightarrow> server_session \<times> app_state" where
  "store_session s app =
     (case map_of (serverList app) (ss_instance s) of
        Some cached \<Rightarrow> (cached, rpc_Done s app)
      | None \<Rightarrow> (s, app\<lparr>serverList := AList.update (ss_instance s) s (serverList app)\<rparr>))"

definition getServerSession ::
    "(node \<Rightarrow> go_error option) \<Rightarrow> string \<Rightarrow> node \<Rightarrow> app_state \<Rightarrow> (go_error + server_session) \<times> app_state" where
  "getServerSession dial nm n app =
     (case map_of (serverList app) (InstanceID n) of
        Some cached \<Rightarrow> (Inr cached, app)
      | None \<Rightarrow>
          (case NewServerSession dial nm n app of
             (Inl err, app) \<Rightarrow> (Inl err, app)
           | (Inr s, app) \<Rightarrow> (case store_session s app of (s, app) \<Rightarrow> (Inr s, app))))"

fun sessions_of ::
    "(node \<Rightarrow> go_error option) \<Rightarrow> string \<Rightarrow> node list \<Rightarrow> app_state \<Rightarrow> server_session list \<times> app_state" where
  "sessions_of dial nm [] app = ([], app)"
| "sessions_of dial nm (n # ns) app =
     (case getServerSession dial nm n app of
        (Inl err, app) \<Rightarrow> sessions_of dial nm ns app
      | (Inr s, app) \<Rightarrow> (case sessions_of dial nm ns app of (ss, app) \<Rightarrow> (s # ss, app)))"

definition getServersByType ::
    "(string \<Rightarrow> go_error + service list) \<Rightarrow> (node \<Rightarrow> go_error option) \<Rightarrow> string \<Rightarrow> bool \<Rightarrow> app_state
      \<Rightarrow> server_session list \<times> app_state" where
  "getServersByType GetService dial nm latest app =
     (case GetService nm of
        Inl err \<Rightarrow> ([], app)
      | Inr services \<Rightarrow>
          sessions_of dial nm (service_nodes (if latest then LatestServices services else services)) app)"

definition GetServersByType ::
    "(string \<Rightarrow> go_error + service list) \<Rightarrow> (node \<Rightarrow> go_error option) \<Rightarrow> string \<Rightarrow> app_state
      \<Rightarrow> server_session list \<times> app_state" where
  "GetServersByType GetService dial nm = getServersByType GetService dial nm False"

text \<open>The live session a logical id is routed to (the first critical section of \<open>GetServerByID\<close>).\<close>

definition routed :: "string \<Rightarrow> app_state \<Rightarrow> server_session option" where
  "routed serverID app =
     (case logicalRoutes app serverID of
        None \<Rightarrow> None
      | Some instanceID \<Rightarrow> map_of (serverList app) instanceID)"

text \<open>
  The critical section of the loop: another lookup's route is used, otherwise the candidate gets
  the route unless it has been removed meanwhile (\<open>None\<close>: try the next candidate).
\<close>

definition bind_route :: "string \<Rightarrow> server_session \<Rightarrow> app_state \<Rightarrow> server_session option \<times> app_state" where
  "bind_route serverID candidate app =
     (case routed serverID app of
        Some s \<Rightarrow> (Some s, app)
      | None \<Rightarrow>
          if map_of (serverList app) (GetInstanceID candidate) \<noteq> None
          then (Some candidate, app\<lparr>logicalRoutes := (logicalRoutes app)(serverID \<mapsto> GetInstanceID candidate)\<rparr>)
          else (None, app))"

fun bind_first :: "string \<Rightarrow> server_session list \<Rightarrow> app_state \<Rightarrow> server_session option \<times> app_state" where
  "bind_first serverID [] app = (None, app)"
| "bind_first serverID (c # cs) app =
     (if GetID c \<noteq> serverID then bind_first serverID cs app
      else (case bind_route serverID c app of
              (Some s, app) \<Rightarrow> (Some s, app)
            | (None, app) \<Rightarrow> bind_first serverID cs app))"

definition GetServerByID ::
    "(string \<Rightarrow> go_error + service list) \<Rightarrow> (node \<Rightarrow> go_error option) \<Rightarrow> string \<Rightarrow> app_state
      \<Rightarrow> (go_error + server_session) \<times> app_state" where
  "GetServerByID GetService dial serverID app =
     (case routed serverID app of
        Some s \<Rightarrow> (Inr s, app)
      | None \<Rightarrow>
          (let parts = split_on CHR ''@'' serverID
           in if length parts \<noteq> 2 then (Inl (Errorf ''serverID is error %v'' [AS serverID]), app)
              else (case getServersByType GetService dial (parts ! 0) True app of
                      (candidates, app) \<Rightarrow>
                        (case bind_first serverID candidates app of
                           (Some s, app) \<Rightarrow> (Inr s, app)
                         | (None, app) \<Rightarrow> (Inl (Errorf ''nofound %v'' [AS serverID]), app)))))"

definition GetServerByInstanceID ::
    "(string \<Rightarrow> go_error + service list) \<Rightarrow> (node \<Rightarrow> go_error option) \<Rightarrow> string \<Rightarrow> app_state
      \<Rightarrow> (go_error + server_session) \<times> app_state" where
  "GetServerByInstanceID GetService dial instanceID app =
     (case map_of (serverList app) instanceID of
        Some s \<Rightarrow> (Inr s, app)
      | None \<Rightarrow>
          (let parts = split_on CHR ''@'' instanceID
           in if length parts \<noteq> 2 \<or> parts ! 0 = [] \<or> parts ! 1 = []
              then (Inl (Errorf ''instanceID is error %v'' [AS instanceID]), app)
              else (case GetService (parts ! 0) of
                      Inl err \<Rightarrow> (Inl err, app)
                    | Inr services \<Rightarrow>
                        (case find (\<lambda>n. InstanceID n = instanceID) (service_nodes services) of
                           Some n \<Rightarrow> getServerSession dial (parts ! 0) n app
                         | None \<Rightarrow> (Inl (Errorf ''nofound instance %v'' [AS instanceID]), app)))))"

text \<open>\<open>pick\<close> is \<open>Selector.Select\<close> and one call of the \<open>Next\<close> it returns.\<close>

definition GetServerBySelector ::
    "(string \<Rightarrow> go_error + node) \<Rightarrow> (node \<Rightarrow> go_error option) \<Rightarrow> string \<Rightarrow> app_state
      \<Rightarrow> (go_error + server_session) \<times> app_state" where
  "GetServerBySelector pick dial nm app =
     (case pick nm of
        Inl err \<Rightarrow> (Inl err, app)
      | Inr n \<Rightarrow> getServerSession dial nm n app)"

definition GetRouteServer ::
    "(string \<Rightarrow> string) option \<Rightarrow> (string \<Rightarrow> go_error + service list) \<Rightarrow> (string \<Rightarrow> go_error + node) \<Rightarrow>
     (node \<Rightarrow> go_error option) \<Rightarrow> string \<Rightarrow> app_state \<Rightarrow> (go_error + server_session) \<times> app_state" where
  "GetRouteServer mapRoute GetService pick dial flt app =
     (let flt = (case mapRoute of None \<Rightarrow> flt | Some f \<Rightarrow> f flt);
          sl = split_on CHR ''@'' flt
      in if length sl = 2 \<and> sl ! 1 \<noteq> [] then GetServerByID GetService dial flt app
         else GetServerBySelector pick dial (sl ! 0) app)"

text \<open>The selector's watcher: drop the session of a removed node, and the route that leads to it.\<close>

definition app_Watcher :: "node \<Rightarrow> app_state \<Rightarrow> app_state" where
  "app_Watcher n app =
     (case map_of (serverList app) (InstanceID n) of
        None \<Rightarrow> app
      | Some target \<Rightarrow>
          let app = app\<lparr>serverList := AList.delete (InstanceID n) (serverList app)\<rparr>;
              serverID = GetID target;
              app = (if logicalRoutes app serverID = Some (InstanceID n)
                     then app\<lparr>logicalRoutes := (logicalRoutes app)(serverID := None)\<rparr> else app)
          in rpc_Done target app)"

text \<open>The result wrapper of \<open>Call\<close> and \<open>Invoke\<close>: route, then call.\<close>

definition app_Call ::
    "(server_session \<Rightarrow> 'w \<Rightarrow> ('r \<times> go_error option) \<times> 'w) \<Rightarrow>
     (app_state \<Rightarrow> (go_error + server_session) \<times> app_state) \<Rightarrow> app_state \<times> 'w
      \<Rightarrow> ('r option \<times> go_error option) \<times> app_state \<times> 'w" where
  "app_Call Call route aw =
     (case aw of (app, w) \<Rightarrow>
        case route app of
          (Inl e, app) \<Rightarrow> ((None, Some e), app, w)
        | (Inr server, app) \<Rightarrow> (case Call server w of ((r, err), w) \<Rightarrow> ((Some r, err), app, w)))"

section \<open>The table's invariant\<close>

text \<open>
  \<open>owner\<close> gives the logical id of an instance: a registration keeps its server id under its
  instance id. \<open>table_ok\<close> says that the table is keyed by instance and that every route leads to
  a live session of that logical id; \<open>clients_ok\<close> that every RPC client ever created is in the
  table, in the hands of a lookup under way, or closed, and only in one of these places.
\<close>

definition session_ok :: "(string \<Rightarrow> string) \<Rightarrow> server_session \<Rightarrow> bool" where
  "session_ok owner s \<longleftrightarrow> GetID s = owner (ss_instance s)"

definition table_ok :: "(string \<Rightarrow> string) \<Rightarrow> app_state \<Rightarrow> bool" where
  "table_ok owner app \<longleftrightarrow>
     distinct (map fst (serverList app)) \<and>
     (\<forall>(k, s) \<in> set (serverList app). ss_instance s = k \<and> session_ok owner s) \<and>
     (\<forall>sid iid. logicalRoutes app sid = Some iid \<longrightarrow> iid \<in> fst ` set (serverList app) \<and> owner iid = sid)"

definition clients_ok :: "app_state \<Rightarrow> server_session list \<Rightarrow> bool" where
  "clients_ok app pending \<longleftrightarrow>
     mset (map (ss_rpc \<circ> snd) (serverList app)) + mset (map ss_rpc pending) + mset (done_rpcs app) =
       mset [0..<rpcs app]"

lemma table_okD:
  assumes "table_ok owner app"
  shows "distinct (map fst (serverList app))"
    and "map_of (serverList app) k = Some s \<Longrightarrow> ss_instance s = k \<and> session_ok owner s"
    and "logicalRoutes app sid = Some iid \<Longrightarrow> iid \<in> fst ` set (serverList app) \<and> owner iid = sid"
  using assms by (auto simp: table_ok_def dest: map_of_SomeD)

lemma update_new: "k \<notin> fst ` set al \<Longrightarrow> AList.update k v al = al @ [(k, v)]"
  by (induction al) auto

lemma store_session_cases:
  obtains (cached) s' where "map_of (serverList app) (ss_instance s) = Some s'"
      "store_session s app = (s', rpc_Done s app)"
  | (fresh) "ss_instance s \<notin> fst ` set (serverList app)"
      "store_session s app = (s, app\<lparr>serverList := serverList app @ [(ss_instance s, s)]\<rparr>)"
  by (cases "map_of (serverList app) (ss_instance s)")
    (auto simp: store_session_def map_of_eq_None_iff update_new)

lemma table_ok_store_session [inv_rules]:
  assumes "session_ok owner s" "table_ok owner app"
  shows "table_ok owner (snd (store_session s app))"
  using assms by (cases rule: store_session_cases[of app s]) (auto simp: table_ok_def rpc_Done_def)

lemma clients_ok_store_session [inv_rules]:
  assumes "clients_ok app (xs @ s # ys)"
  shows "clients_ok (snd (store_session s app)) (xs @ ys)"
  using assms by (cases rule: store_session_cases[of app s]) (auto simp: clients_ok_def rpc_Done_def)

lemma routed_ok:
  assumes "table_ok owner app" "routed sid app = Some s"
  shows "GetID s = sid \<and> map_of (serverList app) (ss_instance s) = Some s"
proof -
  obtain iid where "logicalRoutes app sid = Some iid" "map_of (serverList app) iid = Some s"
    using assms(2) by (auto simp: routed_def split: option.splits)
  with table_okD[OF assms(1)] show ?thesis by (metis session_ok_def)
qed

lemma table_ok_bind_route [inv_rules]:
  assumes "session_ok owner c" "GetID c = sid" "table_ok owner app"
  shows "table_ok owner (snd (bind_route sid c app))"
  using assms
  by (auto simp: bind_route_def table_ok_def session_ok_def GetInstanceID_def map_of_eq_None_iff
      split: option.splits)

lemma clients_ok_bind_route [inv_rules]:
  "clients_ok app pend \<Longrightarrow> clients_ok (snd (bind_route sid c app)) pend"
  by (auto simp: bind_route_def clients_ok_def split: option.splits)

lemma table_ok_Watcher [inv_rules]:
  assumes "table_ok owner app"
  shows "table_ok owner (app_Watcher n app)"
proof (cases "map_of (serverList app) (InstanceID n)")
  case (Some s)
  then have s: "GetID s = owner (InstanceID n)" using table_okD(2)[OF assms] by (auto simp: session_ok_def)
  let ?l = "AList.delete (InstanceID n) (serverList app)"
  have keys: "fst ` set ?l = fst ` set (serverList app) - {InstanceID n}"
    by (auto simp: AList.delete_eq image_iff)
  have "distinct (map fst ?l)" using table_okD(1)[OF assms] by (rule AList.distinct_delete)
  moreover have "set ?l \<subseteq> set (serverList app)" by (auto simp: AList.delete_eq)
  then have "\<forall>(k, s) \<in> set ?l. ss_instance s = k \<and> session_ok owner s" using assms by (auto simp: table_ok_def)
  moreover have "iid \<in> fst ` set ?l \<and> owner iid = sid"
    if "logicalRoutes (app_Watcher n app) sid = Some iid" for sid iid
  proof -
    have "logicalRoutes app sid = Some iid" "sid = GetID s \<longrightarrow> iid \<noteq> InstanceID n"
      using that Some by (auto simp: app_Watcher_def Let_def rpc_Done_def split: if_splits)
    with table_okD(3)[OF assms] keys s show ?thesis by auto
  qed
  moreover have "serverList (app_Watcher n app) = ?l" using Some by (simp add: app_Watcher_def Let_def rpc_Done_def)
  ultimately show ?thesis unfolding table_ok_def by simp
qed (use assms in \<open>simp add: app_Watcher_def\<close>)

lemma mset_delete_key:
  assumes "distinct (map fst al)" "map_of al k = Some v"
  shows "mset (map (f \<circ> snd) al) = add_mset (f v) (mset (map (f \<circ> snd) (AList.delete k al)))"
  using assms
proof (induction al)
  case (Cons kv al)
  obtain k' v' where kv: "kv = (k', v')" by force
  show ?case
  proof (cases "k' = k")
    case True
    then have "k \<notin> fst ` set al" using Cons.prems(1) kv by simp
    then have "AList.delete k al = al" by (simp add: AList.delete_eq filter_id_conv) force
    with True kv Cons.prems show ?thesis by (simp add: AList.delete_eq)
  qed (use Cons kv in \<open>simp add: AList.delete_eq\<close>)
qed simp

lemma clients_ok_Watcher [inv_rules]:
  assumes "table_ok owner app" "clients_ok app pend"
  shows "clients_ok (app_Watcher n app) pend"
proof (cases "map_of (serverList app) (InstanceID n)")
  case (Some s)
  from mset_delete_key[OF table_okD(1)[OF assms(1)] this, of ss_rpc] assms(2) Some show ?thesis
    by (auto simp: app_Watcher_def clients_ok_def rpc_Done_def Let_def)
qed (use assms in \<open>simp add: app_Watcher_def\<close>)

section \<open>Lookups and the watcher, interleaved\<close>

record routing =
  r_app :: app_state
  r_pending :: "server_session list"

text \<open>
  A lookup loads, dials (\<open>created\<close>) and stores (\<open>stored\<close>) in three steps, others in between;
  \<open>GetServerByID\<close> binds a route for a session it found earlier (\<open>bound\<close>), which may have been
  removed since.
\<close>

inductive routing_step :: "(string \<Rightarrow> string) \<Rightarrow> routing \<Rightarrow> routing \<Rightarrow> bool" for owner where
  created: "ServerID n = owner (InstanceID n) \<Longrightarrow> NewServerSession dial nm n (r_app r) = (Inr s, app) \<Longrightarrow>
    routing_step owner r \<lparr>r_app = app, r_pending = s # r_pending r\<rparr>"
| stored: "r_pending r = xs @ s # ys \<Longrightarrow>
    routing_step owner r \<lparr>r_app = snd (store_session s (r_app r)), r_pending = xs @ ys\<rparr>"
| bound: "GetID c = sid \<Longrightarrow> session_ok owner c \<Longrightarrow>
    routing_step owner r (r\<lparr>r_app := snd (bind_route sid c (r_app r))\<rparr>)"
| watched: "routing_step owner r (r\<lparr>r_app := app_Watcher n (r_app r)\<rparr>)"

definition routing_init :: "routing \<Rightarrow> bool" where
  "routing_init r \<longleftrightarrow> r = \<lparr>r_app = NewApp, r_pending = []\<rparr>"

definition routing_inv :: "(string \<Rightarrow> string) \<Rightarrow> routing \<Rightarrow> bool" where
  "routing_inv owner r \<longleftrightarrow> table_ok owner (r_app r) \<and> clients_ok (r_app r) (r_pending r) \<and>
     (\<forall>s \<in> set (r_pending r). session_ok owner s)"

lemma routing_inv_step:
  assumes "routing_inv owner r" "routing_step owner r r'"
  shows "routing_inv owner r'"
  using assms(2)
proof cases
  case (created n dial nm s app)
  then have "s = \<lparr>ss_name = nm, ss_node = n, ss_rpc = rpcs (r_app r)\<rparr>" "app = r_app r\<lparr>rpcs := rpcs (r_app r) + 1\<rparr>"
    by (auto simp: NewServerSession_def split: option.splits)
  with created assms(1) show ?thesis
    by (auto simp: routing_inv_def table_ok_def clients_ok_def session_ok_def GetID_def)
next
  case (stored xs s ys)
  with assms(1) show ?thesis by (auto simp: routing_inv_def intro: inv_rules)
next
  case (bound c sid)
  with assms(1) show ?thesis by (auto simp: routing_inv_def intro: inv_rules)
next
  case (watched n)
  with assms(1) show ?thesis by (auto simp: routing_inv_def intro: inv_rules)
qed

lemma routing_inv_init: "routing_init r \<Longrightarrow> routing_inv owner r"
  by (simp add: routing_init_def routing_inv_def table_ok_def clients_ok_def NewApp_def)

interpretation routing_system: invariant_system routing_init "routing_step owner" "routing_inv owner" for owner
  by unfold_locales (rule routing_inv_init, assumption, rule routing_inv_step)

section \<open>Whole lookups\<close>

lemma getServerSession_ok:
  assumes "table_ok owner app" "ServerID n = owner (InstanceID n)" "getServerSession dial nm n app = (res, app')"
  shows "table_ok owner app' \<and> logicalRoutes app' = logicalRoutes app \<and>
    map_of (serverList app) \<subseteq>\<^sub>m map_of (serverList app') \<and>
    (\<forall>s. res = Inr s \<longrightarrow> ss_instance s = InstanceID n \<and> map_of (serverList app') (InstanceID n) = Some s)"
proof (cases "map_of (serverList app) (InstanceID n)")
  case (Some s)
  with assms table_okD(2)[OF assms(1) Some] show ?thesis by (auto simp: getServerSession_def)
next
  case None
  show ?thesis
  proof (cases "dial n")
    case (Some err)
    with None assms show ?thesis by (auto simp: getServerSession_def NewServerSession_def)
  next
    case no_err: None
    let ?s = "\<lparr>ss_name = nm, ss_node = n, ss_rpc = rpcs app\<rparr>"
    let ?app = "app\<lparr>rpcs := rpcs app + 1\<rparr>"
    have "table_ok owner (snd (store_session ?s ?app))"
      using assms(1,2) by (intro inv_rules) (auto simp: session_ok_def GetID_def table_ok_def)
    moreover have "store_session ?s ?app = (?s, ?app\<lparr>serverList := AList.update (InstanceID n) ?s (serverList app)\<rparr>)"
      using None by (simp add: store_session_def)
    ultimately show ?thesis
      using assms(3) None no_err
      by (auto simp: getServerSession_def NewServerSession_def update_conv' map_le_def)
  qed
qed

lemma sessions_of_ok:
  assumes "table_ok owner app" "\<forall>n \<in> set ns. ServerID n = owner (InstanceID n)"
    "sessions_of dial nm ns app = (ss, app')"
  shows "table_ok owner app' \<and> logicalRoutes app' = logicalRoutes app \<and>
    map_of (serverList app) \<subseteq>\<^sub>m map_of (serverList app') \<and>
    (\<forall>s \<in> set ss. ss_instance s \<in> InstanceID ` set ns \<and> map_of (serverList app') (ss_instance s) = Some s)"
  using assms
proof (induction ns arbitrary: app ss)
  case (Cons n ns)
  obtain res app1 where r: "getServerSession dial nm n app = (res, app1)" by fastforce
  note one = getServerSession_ok[OF Cons.prems(1) _ r]
  obtain ss2 where rest: "sessions_of dial nm ns app1 = (ss2, app')"
    and ss: "ss = (case res of Inl _ \<Rightarrow> ss2 | Inr s \<Rightarrow> s # ss2)"
    using Cons.prems(3) r by (auto split: sum.splits prod.splits)
  have n: "ServerID n = owner (InstanceID n)" and ns: "\<forall>n \<in> set ns. ServerID n = owner (InstanceID n)"
    using Cons.prems(2) by auto
  from Cons.IH[OF _ ns rest] one[OF n] show ?case
    unfolding ss by (auto split: sum.splits intro: map_le_trans simp: map_le_def dom_def)
qed auto

lemma bind_first_ok:
  assumes "table_ok owner app" "\<forall>s \<in> set cs. map_of (serverList app) (ss_instance s) = Some s"
    "bind_first sid cs app = (Some s, app')" "routed sid app = None"
  shows "table_ok owner app' \<and> s \<in> set cs \<and> GetID s = sid \<and> routed sid app' = Some s"
  using assms
proof (induction cs arbitrary: app)
  case (Cons c cs)
  show ?case
  proof (cases "GetID c = sid")
    case True
    have live: "map_of (serverList app) (ss_instance c) = Some c" using Cons.prems(2) by simp
    have "table_ok owner (snd (bind_route sid c app))"
      using True Cons.prems(1) table_okD(2)[OF Cons.prems(1) live] by (intro inv_rules) auto
    with True live Cons.prems(3,4) show ?thesis
      by (auto simp: bind_route_def routed_def GetInstanceID_def split: option.splits)
  qed (use Cons in auto)
qed simp

lemma latest_nodes_subset: "set (service_nodes (LatestServices services)) \<subseteq> set (service_nodes services)"
  by (auto simp: service_nodes_all all_nodes_LatestServices all_nodes_positions[of services])

text \<open>What the lookups rely on in the selector: the nodes it reports belong to their logical ids.\<close>

definition reports :: "(string \<Rightarrow> string) \<Rightarrow> (string \<Rightarrow> go_error + service list) \<Rightarrow> bool" where
  "reports owner G \<longleftrightarrow>
     (\<forall>nm services. G nm = Inr services \<longrightarrow> (\<forall>n \<in> set (service_nodes services). ServerID n = owner (InstanceID n)))"

lemma GetServerByID_ok:
  assumes "table_ok owner app" "reports owner G" "GetServerByID G dial sid app = (Inr s, app')"
  shows "table_ok owner app' \<and> GetID s = sid \<and> routed sid app' = Some s"
proof (cases "routed sid app")
  case (Some s')
  with assms routed_ok[OF assms(1) Some] show ?thesis by (simp add: GetServerByID_def)
next
  case None
  let ?nm = "split_on CHR ''@'' sid ! 0"
  obtain cs app1 where cs: "getServersByType G dial ?nm True app = (cs, app1)" by fastforce
  have b: "bind_first sid cs app1 = (Some s, app')"
    using assms(3) None cs by (auto simp: GetServerByID_def Let_def split: if_splits prod.splits option.splits)
  obtain services where G: "G ?nm = Inr services"
    using cs b by (cases "G ?nm") (auto simp: getServersByType_def)
  have "\<forall>n \<in> set (service_nodes (LatestServices services)). ServerID n = owner (InstanceID n)"
    using assms(2) G latest_nodes_subset[of services] unfolding reports_def by blast
  moreover have "sessions_of dial ?nm (service_nodes (LatestServices services)) app = (cs, app1)"
    using cs G by (simp add: getServersByType_def)
  ultimately have ok: "table_ok owner app1" "logicalRoutes app1 = logicalRoutes app"
    "\<forall>s \<in> set cs. map_of (serverList app1) (ss_instance s) = Some s"
    using sessions_of_ok[OF assms(1)] by blast+
  have "routed sid app1 = None"
  proof (cases "logicalRoutes app sid")
    case (Some iid)
    then have "map_of (serverList app) iid = None" using None by (simp add: routed_def)
    moreover have "iid \<in> fst ` set (serverList app)" using table_okD(3)[OF assms(1) Some] by simp
    ultimately show ?thesis by (simp add: map_of_eq_None_iff)
  qed (simp add: routed_def ok(2))
  from bind_first_ok[OF ok(1,3) b this] show ?thesis by simp
qed

lemma GetServerBySelector_ok:
  assumes "table_ok owner app" "\<And>n. pick nm = Inr n \<Longrightarrow> ServerID n = owner (InstanceID n)"
    "GetServerBySelector pick dial nm app = (Inr s, app')"
  shows "\<exists>n. pick nm = Inr n \<and> ss_instance s = InstanceID n"
proof (cases "pick nm")
  case (Inr n)
  with assms(3) have "getServerSession dial nm n app = (Inr s, app')" by (simp add: GetServerBySelector_def)
  from getServerSession_ok[OF assms(1) assms(2)[OF Inr] this] Inr show ?thesis by auto
qed (use assms(3) in \<open>simp add: GetServerBySelector_def\<close>)

lemma GetServerByInstanceID_ok:
  assumes "table_ok owner app" "reports owner G" "GetServerByInstanceID G dial iid app = (Inr s, app')"
  shows "ss_instance s = iid"
proof (cases "map_of (serverList app) iid")
  case (Some s')
  with assms table_okD(2)[OF assms(1) Some] show ?thesis by (simp add: GetServerByInstanceID_def)
next
  case None
  let ?nm = "split_on CHR ''@'' iid ! 0"
  obtain services n where n: "G ?nm = Inr services" "find (\<lambda>n. InstanceID n = iid) (service_nodes services) = Some n"
    and s: "getServerSession dial ?nm n app = (Inr s, app')"
    using assms(3) None by (auto simp: GetServerByInstanceID_def Let_def split: if_splits sum.splits option.splits)
  have "n \<in> set (service_nodes services)" "InstanceID n = iid"
    using n(2) by (auto simp: find_Some_iff)
  moreover from this have "ServerID n = owner (InstanceID n)" using assms(2) n(1) by (auto simp: reports_def)
  ultimately show ?thesis using getServerSession_ok[OF assms(1) _ s] by auto
qed

section \<open>Properties\<close>

text \<open>C6: No RPC client is lost. However lookups that find the same instance at the same time, route
  bindings and removals interleave, every RPC client ever created is the one in the table for its
  instance, in the hands of a lookup that has not finished, or closed, and only in one of these
  places; the table has one session per instance, filed under its own instance id, and every
  logical route leads to a live session of that logical id.\<close>

theorem rpc_clients_never_leak:
  assumes "reach routing_init (routing_step owner) r"
  shows "mset (map (ss_rpc \<circ> snd) (serverList (r_app r))) + mset (map ss_rpc (r_pending r)) +
      mset (done_rpcs (r_app r)) = mset [0..<rpcs (r_app r)] \<and>
    distinct (map fst (serverList (r_app r))) \<and>
    (\<forall>k s. map_of (serverList (r_app r)) k = Some s \<longrightarrow> GetInstanceID s = k) \<and>
    (\<forall>sid iid. logicalRoutes (r_app r) sid = Some iid \<longrightarrow>
       (\<exists>s. map_of (serverList (r_app r)) iid = Some s \<and> GetID s = sid))"
proof -
  have ok: "table_ok owner (r_app r)" "clients_ok (r_app r) (r_pending r)"
    using routing_system.inv_reach[OF assms] by (simp_all add: routing_inv_def)
  have "\<exists>s. map_of (serverList (r_app r)) iid = Some s \<and> GetID s = sid"
    if "logicalRoutes (r_app r) sid = Some iid" for sid iid
  proof -
    have "iid \<in> fst ` set (serverList (r_app r))" "owner iid = sid"
      using table_okD(3)[OF ok(1) that] by simp_all
    moreover then obtain s where "map_of (serverList (r_app r)) iid = Some s"
      by (cases "map_of (serverList (r_app r)) iid") (auto simp: map_of_eq_None_iff)
    ultimately show ?thesis using table_okD(2)[OF ok(1)] by (auto simp: session_ok_def)
  qed
  then show ?thesis
    using ok(2) table_okD(1,2)[OF ok(1)] by (simp add: clients_ok_def GetInstanceID_def)
qed

definition sample_owner :: "string \<Rightarrow> string" where
  "sample_owner iid = ''chat@1''"

definition chat_node :: "string \<Rightarrow> node" where
  "chat_node iid = sample_node ''chat@1'' iid 5"

definition chat_session :: "nat \<Rightarrow> server_session" where
  "chat_session k = \<lparr>ss_name = ''chat'', ss_node = chat_node ''i1'', ss_rpc = k\<rparr>"

text \<open>Two lookups of one instance: the second is still to store its session.\<close>

definition racing :: routing where
  "racing = \<lparr>r_app = \<lparr>serverList = [(''i1'', chat_session 0)], logicalRoutes = Map.empty, rpcs = 2, done_rpcs = []\<rparr>,
     r_pending = [chat_session 1]\<rparr>"

lemma racing_reachable: "reach routing_init (routing_step sample_owner) racing"
proof -
  have new: "NewServerSession (\<lambda>_. None) ''chat'' (chat_node ''i1'') app =
      (Inr (chat_session (rpcs app)), app\<lparr>rpcs := rpcs app + 1\<rparr>)" for app
    by (simp add: NewServerSession_def chat_session_def)
  have own: "ServerID (chat_node ''i1'') = sample_owner (InstanceID (chat_node ''i1''))"
    by (simp add: chat_node_def sample_node_def sample_owner_def)
  let ?r0 = "\<lparr>r_app = NewApp, r_pending = []\<rparr>"
  let ?r1 = "\<lparr>r_app = NewApp\<lparr>rpcs := 1\<rparr>, r_pending = [chat_session 0]\<rparr>"
  let ?r2 = "\<lparr>r_app = NewApp\<lparr>rpcs := 2\<rparr>, r_pending = [chat_session 1, chat_session 0]\<rparr>"
  have "reach routing_init (routing_step sample_owner) ?r0" by (rule reach_init) (simp add: routing_init_def)
  then have "reach routing_init (routing_step sample_owner) ?r1"
    by (rule reach_step) (use created[where owner = sample_owner, OF own new[of "r_app ?r0"]] in \<open>simp add: NewApp_def\<close>)
  then have "reach routing_init (routing_step sample_owner) ?r2"
    by (rule reach_step) (use created[where owner = sample_owner, OF own new[of "r_app ?r1"]] in \<open>simp add: NewApp_def numeral_2_eq_2\<close>)
  then show ?thesis
    by (rule reach_step) (use stored[of ?r2 "[chat_session 1]" "chat_session 0" "[]" sample_owner] in
      \<open>simp add: racing_def store_session_def NewApp_def chat_session_def chat_node_def sample_node_def\<close>)
qed

theorem rpc_clients_never_leak_witness:
  "mset (map (ss_rpc \<circ> snd) (serverList (r_app racing))) + mset (map ss_rpc (r_pending racing)) +
     mset (done_rpcs (r_app racing)) = mset [0..<rpcs (r_app racing)] \<and>
   distinct (map fst (serverList (r_app racing)))"
  using rpc_clients_never_leak[OF racing_reachable] by simp



text \<open>A lookup reaches what was asked for. A route string of the form type@id gives a session of
  exactly that logical id; any other gives a session of the instance the selector picked for the
  type; and a lookup by instance gives that instance, never another one of the same logical id.\<close>

theorem lookups_reach_what_was_asked:
  assumes "reach routing_init (routing_step owner) r" "reports owner G"
    and "\<forall>nm n. pick nm = Inr n \<longrightarrow> ServerID n = owner (InstanceID n)"
  shows "(GetRouteServer mapRoute G pick dial flt (r_app r) = (Inr s, app) \<longrightarrow>
      (let route = (case mapRoute of None \<Rightarrow> flt | Some f \<Rightarrow> f flt); sl = split_on CHR ''@'' route
       in if length sl = 2 \<and> sl ! 1 \<noteq> [] then GetID s = route
          else \<exists>n. pick (sl ! 0) = Inr n \<and> GetInstanceID s = InstanceID n)) \<and>
    (GetServerByInstanceID G dial iid (r_app r) = (Inr s, app) \<longrightarrow> GetInstanceID s = iid)"
proof -
  have ok: "table_ok owner (r_app r)" using routing_system.inv_reach[OF assms(1)] by (simp add: routing_inv_def)
  show ?thesis
    using GetServerByID_ok[OF ok assms(2)] GetServerBySelector_ok[OF ok] GetServerByInstanceID_ok[OF ok assms(2)] assms(3)
    unfolding GetRouteServer_def GetInstanceID_def Let_def by (auto split: option.splits)
qed

theorem lookups_reach_what_was_asked_witness:
  "GetServerByInstanceID (\<lambda>_. Inl EOF) (\<lambda>_. None) ''i1'' (r_app racing) = (Inr (chat_session 0), r_app racing) \<and>
   GetInstanceID (chat_session 0) = ''i1''"
proof -
  have "GetServerByInstanceID (\<lambda>_. Inl EOF) (\<lambda>_. None) ''i1'' (r_app racing) = (Inr (chat_session 0), r_app racing)"
    by (simp add: GetServerByInstanceID_def racing_def)
  moreover have "reports sample_owner (\<lambda>_. Inl EOF)" by (simp add: reports_def)
  ultimately show ?thesis
    using lookups_reach_what_was_asked[OF racing_reachable, of "\<lambda>_. Inl EOF" "\<lambda>_. Inl EOF"
        None "\<lambda>_. None" "[]" "chat_session 0" "r_app racing" "''i1''"] by simp
qed

end
