(* ===== verification/Http_Gateway.thy ===== *)
theory Http_Gateway
  imports Rpc_Reply App_Routing Go_Strings
begin

text \<open>
  The HTTP gateway (\<^verbatim>\<open>src/httpgateway/\<close>): a request of \<^verbatim>\<open>net/http\<close> becomes a message of the gateway, the
  path chooses a server and is the function that is called there, and the response or the error comes
  back as an HTTP response. Maps of string lists, the response writer and the canonical form of header
  names are modelled from \<^verbatim>\<open>net/http\<close>; JSON, protobuf and the parsing of media types are parameters.
\<close>

section \<open>Requests and responses of net/http\<close>

type_synonym http_values = "string \<rightharpoonup> string list"

text \<open>
  \<open>hr_Body\<close> is what reading the body gives, \<open>hr_form\<close> what \<open>ParseForm\<close> makes of the form: an error, or
  \<open>r.PostForm\<close>.
\<close>

record http_request =
  hr_Method :: string
  hr_path :: string
  hr_url :: string
  hr_query :: http_values
  hr_Header :: http_values
  hr_Host :: string
  hr_RemoteAddr :: string
  hr_Body :: "string option"
  hr_form :: "go_error + http_values"

definition header_get :: "string \<Rightarrow> http_values \<Rightarrow> string" where
  "header_get k h = (case h k of Some (v # _) \<Rightarrow> v | _ \<Rightarrow> [])"

text \<open>\<open>CanonicalHeaderKey\<close>: the first letter and every letter after a hyphen in upper case, the others in lower
  case; a name that is not a token stays as it is.\<close>

definition is_letter :: "char \<Rightarrow> bool" where
  "is_letter c \<longleftrightarrow> (CHR ''a'' \<le> c \<and> c \<le> CHR ''z'') \<or> (CHR ''A'' \<le> c \<and> c \<le> CHR ''Z'')"

definition token_char :: "char \<Rightarrow> bool" where
  "token_char c \<longleftrightarrow> is_letter c \<or> (CHR ''0'' \<le> c \<and> c \<le> CHR ''9'') \<or>
     c \<in> {CHR ''!'', CHR ''#'', CHR ''$'', CHR ''%'', CHR ''&'', CHR 0x27, CHR ''*'', CHR ''+'', CHR ''-'', CHR ''.'', CHR ''^'',
           CHR ''_'', CHR 0x60, CHR ''|'', CHR ''~''}"

definition upper :: "char \<Rightarrow> char" where
  "upper c = (if CHR ''a'' \<le> c \<and> c \<le> CHR ''z'' then char_of (of_char c - 32 :: nat) else c)"

definition lower :: "char \<Rightarrow> char" where
  "lower c = (if CHR ''A'' \<le> c \<and> c \<le> CHR ''Z'' then char_of (of_char c + 32 :: nat) else c)"

fun canonical_from :: "bool \<Rightarrow> string \<Rightarrow> string" where
  "canonical_from up [] = []"
| "canonical_from up (c # cs) = (if up then upper c else lower c) # canonical_from (c = CHR ''-'') cs"

definition CanonicalHeaderKey :: "string \<Rightarrow> string" where
  "CanonicalHeaderKey k = (if list_all token_char k then canonical_from True k else k)"

definition header_add :: "string \<Rightarrow> string \<Rightarrow> http_values \<Rightarrow> http_values" where
  "header_add k v h = (let k = CanonicalHeaderKey k in h(k \<mapsto> (case h k of None \<Rightarrow> [v] | Some vs \<Rightarrow> vs @ [v])))"

text \<open>
  The response writer: headers that can still change, the status and the headers as they were sent, and
  the body. \<open>WriteHeader\<close> panics for a code that has not three digits; the statuses without a body drop it.
\<close>

record response_writer =
  rw_Header :: http_values
  rw_sent :: "(int \<times> http_values) option"
  rw_Body :: string

definition WriteHeader :: "int \<Rightarrow> response_writer \<Rightarrow> response_writer outcome" where
  "WriteHeader code w =
     (if rw_sent w \<noteq> None then Ret w
      else if code < 100 \<or> 999 < code then Panic ''invalid WriteHeader code''
      else Ret (w\<lparr>rw_sent := Some (code, rw_Header w)\<rparr>))"

definition body_allowed :: "int \<Rightarrow> bool" where
  "body_allowed code \<longleftrightarrow> \<not> (100 \<le> code \<and> code \<le> 199) \<and> code \<noteq> 204 \<and> code \<noteq> 304"

definition rw_Write :: "string \<Rightarrow> response_writer \<Rightarrow> response_writer" where
  "rw_Write b w =
     (let w = (if rw_sent w = None then w\<lparr>rw_sent := Some (200, rw_Header w)\<rparr> else w)
      in if body_allowed (fst (the (rw_sent w))) then w\<lparr>rw_Body := rw_Body w @ b\<rparr> else w)"

definition set_content_type :: "string \<Rightarrow> response_writer \<Rightarrow> response_writer" where
  "set_content_type ct w = w\<lparr>rw_Header := (rw_Header w)(''Content-Type'' \<mapsto> [ct])\<rparr>"

definition new_response :: response_writer where
  "new_response = \<lparr>rw_Header = Map.empty, rw_sent = None, rw_Body = []\<rparr>"

section \<open>The messages of the gateway\<close>

record api_pair =
  Key :: string
  Values :: "string list"

type_synonym pairs = "string \<rightharpoonup> api_pair"

record api_request =
  ar_Method :: string
  ar_Path :: string
  ar_Header :: pairs
  ar_Get :: pairs
  ar_Post :: pairs
  ar_Body :: string
  ar_Url :: string

text \<open>The headers of a response in the order in which the map is iterated.\<close>

record api_response =
  rs_StatusCode :: "32 word"
  rs_Header :: "(string \<times> api_pair) list"
  rs_Body :: string

text \<open>The loops over the values of a map: a pair that is already there keeps its key and gets the values.\<close>

definition put_values :: "http_values \<Rightarrow> pairs \<Rightarrow> pairs" where
  "put_values vs m =
     (\<lambda>k. case vs k of
        None \<Rightarrow> m k
      | Some v \<Rightarrow> Some \<lparr>Key = (case m k of Some p \<Rightarrow> Key p | None \<Rightarrow> k), Values = v\<rparr>)"

fun join_text :: "string \<Rightarrow> string list \<Rightarrow> string" where
  "join_text sep [] = []"
| "join_text sep [x] = x"
| "join_text sep (x # y # ys) = x @ sep @ join_text sep (y # ys)"

definition forwarded_for :: "http_request \<Rightarrow> pairs \<Rightarrow> pairs" where
  "forwarded_for r h =
     (case SplitHostPort (hr_RemoteAddr r) of
        Inl _ \<Rightarrow> h
      | Inr (ip, _) \<Rightarrow>
          let ip = (case hr_Header r ''X-Forwarded-For'' of Some prior \<Rightarrow> join_text '', '' prior @ '', '' @ ip | None \<Rightarrow> ip)
          in h(''X-Forwarded-For'' \<mapsto> \<lparr>Key = ''X-Forwarded-For'', Values = [ip]\<rparr>))"

definition RequestToProto ::
    "(string \<Rightarrow> go_error + string) \<Rightarrow> http_request \<Rightarrow> (go_error + api_request) \<times> http_request" where
  "RequestToProto ParseMediaType r =
     (case hr_form r of
        Inl e \<Rightarrow> (Inl (Errorf ''Error parsing form: %v'' [AS (error_text e)]), r)
      | Inr post \<Rightarrow>
          let (ct, r) =
                (case ParseMediaType (header_get ''Content-Type'' (hr_Header r)) of
                   Inr ct \<Rightarrow> (ct, r)
                 | Inl _ \<Rightarrow> let ct = ''text/plain; charset=UTF-8''
                           in (ct, r\<lparr>hr_Header := (hr_Header r)(''Content-Type'' \<mapsto> [ct])\<rparr>));
              body = (case hr_Body r of
                        None \<Rightarrow> []
                      | Some data \<Rightarrow> if ct = ''application/x-www-form-urlencoded'' then [] else data);
              header = forwarded_for r Map.empty;
              header = header(''Host'' \<mapsto> \<lparr>Key = ''Host'', Values = [hr_Host r]\<rparr>)
          in (Inr \<lparr>ar_Method = hr_Method r, ar_Path = hr_path r, ar_Header = put_values (hr_Header r) header,
                   ar_Get = put_values (hr_query r) Map.empty, ar_Post = put_values post Map.empty,
                   ar_Body = body, ar_Url = hr_url r\<rparr>, r))"

section \<open>Errors with a status\<close>

record http_error =
  he_Id :: string
  he_Code :: "32 word"
  he_Detail :: string
  he_Status :: string

text \<open>
  \<open>he_marshal\<close> and \<open>he_unmarshal\<close> are JSON for an error, the latter with the fields it filled before it
  failed; \<open>StatusText\<close> is the table of \<^verbatim>\<open>net/http\<close>, \<open>Sprintf\<close> is \<open>fmt.Sprintf\<close>.
\<close>

record error_env =
  he_marshal :: "http_error \<Rightarrow> string"
  he_unmarshal :: "string \<Rightarrow> http_error \<times> go_error option"
  StatusText :: "int \<Rightarrow> string"
  Sprintf :: "string \<Rightarrow> garg list \<Rightarrow> string"

definition errors_Error :: "error_env \<Rightarrow> http_error \<Rightarrow> string" where
  "errors_Error E e = he_marshal E e"

definition errors_New :: "error_env \<Rightarrow> string \<Rightarrow> string \<Rightarrow> 32 word \<Rightarrow> http_error" where
  "errors_New E id' detail code = \<lparr>he_Id = id', he_Code = code, he_Detail = detail, he_Status = StatusText E (sint code)\<rparr>"

definition errors_Parse :: "error_env \<Rightarrow> string \<Rightarrow> http_error" where
  "errors_Parse E err =
     (case he_unmarshal E err of (e, None) \<Rightarrow> e | (e, Some _) \<Rightarrow> e\<lparr>he_Detail := err\<rparr>)"

definition BadRequest :: "error_env \<Rightarrow> string \<Rightarrow> string \<Rightarrow> garg list \<Rightarrow> http_error" where
  "BadRequest E id' format a = \<lparr>he_Id = id', he_Code = 400, he_Detail = Sprintf E format a, he_Status = StatusText E 400\<rparr>"

definition Unauthorized :: "error_env \<Rightarrow> string \<Rightarrow> string \<Rightarrow> garg list \<Rightarrow> http_error" where
  "Unauthorized E id' format a = \<lparr>he_Id = id', he_Code = 401, he_Detail = Sprintf E format a, he_Status = StatusText E 401\<rparr>"

definition Forbidden :: "error_env \<Rightarrow> string \<Rightarrow> string \<Rightarrow> garg list \<Rightarrow> http_error" where
  "Forbidden E id' format a = \<lparr>he_Id = id', he_Code = 403, he_Detail = Sprintf E format a, he_Status = StatusText E 403\<rparr>"

definition NotFound :: "error_env \<Rightarrow> string \<Rightarrow> string \<Rightarrow> garg list \<Rightarrow> http_error" where
  "NotFound E id' format a = \<lparr>he_Id = id', he_Code = 404, he_Detail = Sprintf E format a, he_Status = StatusText E 404\<rparr>"

definition MethodNotAllowed :: "error_env \<Rightarrow> string \<Rightarrow> string \<Rightarrow> garg list \<Rightarrow> http_error" where
  "MethodNotAllowed E id' format a = \<lparr>he_Id = id', he_Code = 405, he_Detail = Sprintf E format a, he_Status = StatusText E 405\<rparr>"

definition http_Timeout :: "error_env \<Rightarrow> string \<Rightarrow> string \<Rightarrow> garg list \<Rightarrow> http_error" where
  "http_Timeout E id' format a = \<lparr>he_Id = id', he_Code = 408, he_Detail = Sprintf E format a, he_Status = StatusText E 408\<rparr>"

definition Conflict :: "error_env \<Rightarrow> string \<Rightarrow> string \<Rightarrow> garg list \<Rightarrow> http_error" where
  "Conflict E id' format a = \<lparr>he_Id = id', he_Code = 409, he_Detail = Sprintf E format a, he_Status = StatusText E 409\<rparr>"

definition InternalServerError :: "error_env \<Rightarrow> string \<Rightarrow> string \<Rightarrow> garg list \<Rightarrow> http_error" where
  "InternalServerError E id' format a = \<lparr>he_Id = id', he_Code = 500, he_Detail = Sprintf E format a, he_Status = StatusText E 500\<rparr>"

section \<open>The route and the handler\<close>

text \<open>The strategy of the default route: a node of all services at random.\<close>

definition http_strategy :: "service list \<Rightarrow> (nat \<Rightarrow> nat) \<Rightarrow> ((go_error + node) \<times> (nat \<Rightarrow> nat)) outcome" where
  "http_strategy services rand =
     (let nodes = service_nodes services
      in if length nodes = 0 then Ret (Inl (Errorf ''no node'' []), rand)
         else Ret (Inr (nodes ! (rand 0 mod length nodes)), \<lambda>k. rand (Suc k)))"

definition DefaultRoute ::
    "(string \<Rightarrow> 'a \<Rightarrow> (go_error + 's) \<times> 'a) \<Rightarrow> http_request \<Rightarrow> 'a \<Rightarrow> (go_error + string \<times> 's) \<times> 'a" where
  "DefaultRoute get_route r app =
     (if hr_path r = [] then (Inl (Errorf ''path is nil'' []), app)
      else let handers = split_on CHR ''/'' (hr_path r)
           in if length handers < 2 then (Inl (Errorf ''path is not /[server]/path'' []), app)
              else let server = handers ! 1
                   in if server = [] then (Inl (Errorf ''server is nil'' []), app)
                      else case get_route server app of
                        (Inl err, app) \<Rightarrow> (Inl (Errorf (error_text err) []), app)
                      | (Inr session, app) \<Rightarrow> (Inr (hr_path r, session), app))"

definition http_fail :: "error_env \<Rightarrow> go_error \<Rightarrow> response_writer \<Rightarrow> response_writer outcome" where
  "http_fail E err w =
     (let er = InternalServerError E ''httpgateway'' (error_text err) []
      in outcome_bind (WriteHeader 500 (set_content_type ''application/json'' w)) (\<lambda>w. Ret (rw_Write (errors_Error E er) w)))"

definition add_headers :: "(string \<times> api_pair) list \<Rightarrow> http_values \<Rightarrow> http_values" where
  "add_headers hs h = fold (\<lambda>(_, p). fold (header_add (Key p)) (Values p)) hs h"

definition send_response :: "api_response \<Rightarrow> response_writer \<Rightarrow> response_writer outcome" where
  "send_response rsp w =
     (let code = (if rs_StatusCode rsp = 0 then 200 else rs_StatusCode rsp);
          w = w\<lparr>rw_Header := add_headers (rs_Header rsp) (rw_Header w)\<rparr>;
          w = (if length (header_get ''Content-Type'' (rw_Header w)) = 0 then set_content_type ''application/json'' w else w)
      in outcome_bind (WriteHeader (sint code) w) (\<lambda>w. Ret (rw_Write (rs_Body rsp) w)))"

definition send_error :: "error_env \<Rightarrow> go_error \<Rightarrow> response_writer \<Rightarrow> response_writer outcome" where
  "send_error E err w =
     (let w = set_content_type ''application/json'' w;
          ce = errors_Parse E (error_text err)
      in outcome_bind (WriteHeader (if he_Code ce = 0 then 500 else sint (he_Code ce)) w)
           (\<lambda>w. Ret (rw_Write (errors_Error E ce) w)))"

text \<open>\<open>Call\<close> is a remote call of the session with the request as its parameter, \<open>unmarshal\<close> protobuf for a response.\<close>

definition ServeHTTP ::
    "error_env \<Rightarrow> (string \<Rightarrow> go_error + string) \<Rightarrow> ('j, 'o) arg_env \<Rightarrow> (bytes \<Rightarrow> go_error + api_response) \<Rightarrow>
     (http_request \<Rightarrow> 'a \<Rightarrow> (go_error + string \<times> 's) \<times> 'a) \<Rightarrow>
     ('s \<Rightarrow> string \<Rightarrow> api_request \<Rightarrow> 'a \<Rightarrow> (go_error + ('j, 'o) rarg) \<times> 'a) \<Rightarrow>
     response_writer \<Rightarrow> http_request \<Rightarrow> 'a \<Rightarrow> response_writer outcome \<times> 'a" where
  "ServeHTTP E ParseMediaType env unmarshal Route Call w r app =
     (case RequestToProto ParseMediaType r of
        (Inl err, r) \<Rightarrow> (http_fail E err w, app)
      | (Inr request, r) \<Rightarrow>
          (case Route r app of
             (Inl err, app) \<Rightarrow> (http_fail E err w, app)
           | (Inr (hander, session), app) \<Rightarrow>
               (case Call session hander request app of
                  (result, app) \<Rightarrow>
                    (case reply_Proto env (Target_pointer ''*go_api.Response'' (Some unmarshal)) (call_reply result) of
                       Ret (Inl err) \<Rightarrow> (send_error E err w, app)
                     | Ret (Inr rsp) \<Rightarrow> (send_response rsp w, app)
                     | Panic p \<Rightarrow> (Panic p, app)
                     | Hang \<Rightarrow> (Hang, app)))))"

section \<open>What a request becomes\<close>

interpretation http_random: node_picker http_strategy "\<lambda>_. True" "Errorf ''no node'' []"
  by unfold_locales (auto simp: http_strategy_def Let_def service_nodes_Nil[simplified] split: if_splits intro!: service_nodes_nth)

text \<open>The default route picks only nodes the registry has and no newer instance supersedes.\<close>

lemmas http_selects = http_random.select_sound

lemma RequestToProto_keeps:
  assumes "RequestToProto P r = (Inr request, r')"
  shows "hr_path r' = hr_path r" "ar_Path request = hr_path r" "ar_Method request = hr_Method r"
  using assms by (auto simp: RequestToProto_def Let_def split: sum.splits prod.splits)

text \<open>Every value of the query, of the form and of the headers arrives under its key.\<close>

lemma request_carries_values:
  assumes "RequestToProto P r = (Inr request, r')" "hr_form r = Inr post"
  shows "(\<forall>k vs. hr_query r k = Some vs \<longrightarrow> (\<exists>p. ar_Get request k = Some p \<and> Values p = vs)) \<and>
    (\<forall>k vs. post k = Some vs \<longrightarrow> (\<exists>p. ar_Post request k = Some p \<and> Values p = vs)) \<and>
    (\<forall>k vs. hr_Header r k = Some vs \<and> k \<noteq> ''Content-Type'' \<longrightarrow> (\<exists>p. ar_Header request k = Some p \<and> Values p = vs))"
  using assms by (auto simp: RequestToProto_def put_values_def Let_def split: sum.splits prod.splits)

text \<open>
  The address of the client is added to a list of forwarding hosts, but the values of the header overwrite
  it: a request that came through a proxy arrives without the address of the proxy.
\<close>

lemma forwarded_address_lost:
  assumes "RequestToProto P r = (Inr request, r')" "hr_Header r ''X-Forwarded-For'' = Some prior"
  shows "\<exists>p. ar_Header request ''X-Forwarded-For'' = Some p \<and> Values p = prior"
  using assms by (auto simp: RequestToProto_def put_values_def Let_def split: sum.splits prod.splits)

lemma forwarded_address_first:
  assumes "RequestToProto P r = (Inr request, r')" "hr_Header r ''X-Forwarded-For'' = None"
    "SplitHostPort (hr_RemoteAddr r) = Inr (ip, port)"
  shows "ar_Header request ''X-Forwarded-For'' = Some \<lparr>Key = ''X-Forwarded-For'', Values = [ip]\<rparr>"
  using assms by (auto simp: RequestToProto_def put_values_def forwarded_for_def Let_def split: sum.splits prod.splits)

section \<open>What an answer becomes\<close>

lemma header_add_keeps: "h k = Some vs \<Longrightarrow> v \<in> set vs \<Longrightarrow> \<exists>ws. header_add k' v' h k = Some ws \<and> v \<in> set ws"
  by (auto simp: header_add_def Let_def split: option.splits)

lemma fold_header_add_keeps:
  "h k = Some vs \<Longrightarrow> v \<in> set vs \<Longrightarrow> \<exists>ws. fold (header_add k') xs h k = Some ws \<and> v \<in> set ws"
proof (induction xs arbitrary: h vs)
  case (Cons x xs)
  then show ?case using header_add_keeps[of h k vs v k' x] by force
qed simp

lemma fold_header_add_adds:
  "v \<in> set xs \<Longrightarrow> \<exists>ws. fold (header_add k) xs h (CanonicalHeaderKey k) = Some ws \<and> v \<in> set ws"
proof (induction xs arbitrary: h)
  case (Cons x xs)
  show ?case
  proof (cases "v = x")
    case True
    have "\<exists>ws. header_add k x h (CanonicalHeaderKey k) = Some ws \<and> x \<in> set ws"
      by (auto simp: header_add_def Let_def split: option.splits)
    then show ?thesis using True fold_header_add_keeps by (metis fold_simps(2))
  qed (use Cons in simp)
qed simp

lemma add_headers_keeps:
  "h k = Some vs \<Longrightarrow> v \<in> set vs \<Longrightarrow> \<exists>ws. add_headers hs h k = Some ws \<and> v \<in> set ws"
proof (induction hs arbitrary: h vs)
  case (Cons x hs)
  obtain n p where x: "x = (n, p)" by (cases x)
  obtain ws where "fold (header_add (Key p)) (Values p) h k = Some ws \<and> v \<in> set ws"
    using fold_header_add_keeps[of h k vs v] Cons.prems by blast
  then show ?case using Cons.IH by (simp add: add_headers_def x)
qed (simp add: add_headers_def)

lemma add_headers_adds:
  "(n, p) \<in> set hs \<Longrightarrow> v \<in> set (Values p) \<Longrightarrow> \<exists>ws. add_headers hs h (CanonicalHeaderKey (Key p)) = Some ws \<and> v \<in> set ws"
proof (induction hs arbitrary: h)
  case (Cons x hs)
  show ?case
  proof (cases "x = (n, p)")
    case True
    obtain ws where "fold (header_add (Key p)) (Values p) h (CanonicalHeaderKey (Key p)) = Some ws \<and> v \<in> set ws"
      using fold_header_add_adds[OF Cons.prems(2)] by blast
    then show ?thesis using add_headers_keeps[of _ _ ws v hs] True by (simp add: add_headers_def)
  next
    case False
    then have "(n, p) \<in> set hs" using Cons.prems(1) by simp
    from Cons.IH[OF this Cons.prems(2)] show ?thesis by (simp add: add_headers_def split_beta)
  qed
qed simp

text \<open>The headers a response is sent with.\<close>

definition response_headers :: "api_response \<Rightarrow> http_values" where
  "response_headers rsp =
     (let h = add_headers (rs_Header rsp) Map.empty
      in if header_get ''Content-Type'' h = [] then h(''Content-Type'' \<mapsto> [''application/json'']) else h)"

lemma response_headers_ok:
  "header_get ''Content-Type'' (response_headers rsp) \<noteq> []"
  "(n, p) \<in> set (rs_Header rsp) \<Longrightarrow> v \<in> set (Values p) \<Longrightarrow> CanonicalHeaderKey (Key p) \<noteq> ''Content-Type'' \<Longrightarrow>
    \<exists>ws. response_headers rsp (CanonicalHeaderKey (Key p)) = Some ws \<and> v \<in> set ws"
  using add_headers_adds[of n p "rs_Header rsp" v Map.empty]
  by (auto simp: response_headers_def header_get_def Let_def)

lemma send_response_new:
  assumes "code = (if rs_StatusCode rsp = 0 then 200 else sint (rs_StatusCode rsp))"
  shows "send_response rsp new_response =
    (if code < 100 \<or> 999 < code then Panic ''invalid WriteHeader code''
     else Ret \<lparr>rw_Header = response_headers rsp, rw_sent = Some (code, response_headers rsp),
               rw_Body = (if body_allowed code then rs_Body rsp else [])\<rparr>)"
  using assms
  by (auto simp: send_response_def new_response_def WriteHeader_def rw_Write_def set_content_type_def response_headers_def Let_def)

definition json_only :: http_values where
  "json_only = [''Content-Type'' \<mapsto> [''application/json'']]"

lemma send_error_new:
  assumes "ce = errors_Parse E (error_text err)" "code = (if he_Code ce = 0 then 500 else sint (he_Code ce))"
  shows "send_error E err new_response =
    (if code < 100 \<or> 999 < code then Panic ''invalid WriteHeader code''
     else Ret \<lparr>rw_Header = json_only, rw_sent = Some (code, json_only), rw_Body = (if body_allowed code then he_marshal E ce else [])\<rparr>)"
  using assms
  by (auto simp: send_error_def new_response_def WriteHeader_def rw_Write_def set_content_type_def errors_Error_def json_only_def Let_def)

section \<open>From the request to the answer\<close>

lemma DefaultRoute_server:
  assumes "hr_path r = CHR ''/'' # server @ rest" "CHR ''/'' \<notin> set server" "server \<noteq> []" "rest = [] \<or> hd rest = CHR ''/''"
  shows "DefaultRoute get_route r app =
    (case get_route server app of (Inl err, app) \<Rightarrow> (Inl (Errorf (error_text err) []), app)
     | (Inr session, app) \<Rightarrow> (Inr (hr_path r, session), app))"
proof -
  have "\<exists>tl. split_on CHR ''/'' (server @ rest) = server # tl"
    using assms(2,4) split_on_append[of "CHR ''/''" server "tl rest"] split_on_clean[of "CHR ''/''" server]
    by (cases rest) auto
  then show ?thesis using assms(1,3) by (auto simp: DefaultRoute_def Let_def)
qed

lemma ServeHTTP_called:
  assumes "RequestToProto P r = (Inr request, r')" "Route r' app = (Inr (h, s), app1)" "Call s h request app1 = (result, app2)"
  shows "ServeHTTP E P env unmarshal Route Call w r app =
    ((case reply_Proto env (Target_pointer ''*go_api.Response'' (Some unmarshal)) (call_reply result) of
        Ret (Inl err) \<Rightarrow> send_error E err w | Ret (Inr rsp) \<Rightarrow> send_response rsp w | Panic p \<Rightarrow> Panic p | Hang \<Rightarrow> Hang), app2)"
  using assms by (auto simp: ServeHTTP_def split: outcome.splits sum.splits)

lemma reply_Proto_simps:
  "reply_Proto env (Target_pointer ty (Some unmarshal)) (call_reply (Inl e)) = Ret (Inl e)"
  "reply_Proto env (Target_pointer ty (Some unmarshal)) (call_reply (Inr (RBytes b))) = Ret (unmarshal b)"
  by (auto simp: reply_Proto_def reply_into_def given_error_def split: sum.splits)


text \<open>An encoding of errors that can be read back, in place of JSON: every character of a field is marked.\<close>

definition enc_field :: "string \<Rightarrow> string" where
  "enc_field s = concat (map (\<lambda>c. [CHR ''c'', c]) s) @ ''|''"

fun dec_field :: "string \<Rightarrow> string \<times> string" where
  "dec_field (a # c # r) = (if a = CHR ''|'' then ([], c # r) else case dec_field r of (f, r') \<Rightarrow> (c # f, r'))"
| "dec_field [a] = ([], [])"
| "dec_field [] = ([], [])"

lemma dec_enc_field: "dec_field (enc_field s @ r) = (s, r)"
proof (induction s)
  case Nil
  show ?case by (cases r) (simp_all add: enc_field_def)
qed (simp add: enc_field_def)

definition sample_errors :: error_env where
  "sample_errors =
     \<lparr>he_marshal = (\<lambda>e. enc_field (he_Id e) @ enc_field (replicate (unat (he_Code e)) CHR ''x'') @ enc_field (he_Detail e) @
                         enc_field (he_Status e)),
      he_unmarshal = (\<lambda>t. let (i, t) = dec_field t; (c, t) = dec_field t; (d, t) = dec_field t; (s, t) = dec_field t
                           in (\<lparr>he_Id = i, he_Code = of_nat (length c), he_Detail = d, he_Status = s\<rparr>, None)),
      StatusText = (\<lambda>_. ''Not Found''), Sprintf = (\<lambda>f _. f)\<rparr>"

lemma sample_errors_json: "he_unmarshal sample_errors (he_marshal sample_errors e) = (e, None)"
  using dec_enc_field[of "he_Status e" "[]"] by (simp add: sample_errors_def dec_enc_field)

definition sample_http :: http_request where
  "sample_http = \<lparr>hr_Method = ''GET'', hr_path = ''/shop/item'', hr_url = ''/shop/item?id=7'', hr_query = [''id'' \<mapsto> [''7'']],
     hr_Header = Map.empty, hr_Host = ''h'', hr_RemoteAddr = ''1.2.3.4:80'', hr_Body = Some [], hr_form = Inr Map.empty\<rparr>"


end
