(* ===== verification/Ip_Tool.thy ===== *)
theory Ip_Tool
  imports Service_Life Http_Gateway
begin

text \<open>
  The address of a client (\<^verbatim>\<open>src/utils/ip/iptool.go\<close>), which a WebSocket connection reports as its remote
  address: the peer, or the first address that is not private of the list a proxy sent. \<open>net.ParseIP\<close> is
  modelled as the test whether a text is an address; white space is that of ASCII.
\<close>

section \<open>Which texts are addresses\<close>

definition is_digit :: "char \<Rightarrow> bool" where
  "is_digit c \<longleftrightarrow> CHR ''0'' \<le> c \<and> c \<le> CHR ''9''"

definition ipv4_field :: "string \<Rightarrow> bool" where
  "ipv4_field s \<longleftrightarrow> s \<noteq> [] \<and> list_all is_digit s \<and> (hd s \<noteq> CHR ''0'' \<or> length s = 1) \<and>
     (case digits_value 0 s of Some n \<Rightarrow> n \<le> 255 | None \<Rightarrow> False)"

definition ipv4_ok :: "string \<Rightarrow> bool" where
  "ipv4_ok s \<longleftrightarrow> length (split_on CHR ''.'' s) = 4 \<and> list_all ipv4_field (split_on CHR ''.'' s)"

text \<open>
  The groups of an IPv6 address, \<open>k\<close> of eight still missing; \<open>ellipsis\<close> tells whether a double colon has been
  seen. The last two groups may be an IPv4 address; a double colon stands for at least one group.
\<close>

fun ipv6_groups :: "nat \<Rightarrow> bool \<Rightarrow> string \<Rightarrow> bool" where
  "ipv6_groups 0 ellipsis s = False"
| "ipv6_groups (Suc k) ellipsis s =
     (let h = takeWhile (\<lambda>c. hex_value c \<noteq> None) s; r = dropWhile (\<lambda>c. hex_value c \<noteq> None) s
      in if h = [] \<or> length h > 4 then False
         else case r of
           [] \<Rightarrow> (if k = 0 then \<not> ellipsis else ellipsis)
         | c # t \<Rightarrow>
             if c = CHR ''.'' then k \<ge> 1 \<and> ipv4_ok s \<and> (if k = 1 then \<not> ellipsis else ellipsis)
             else if c \<noteq> CHR '':'' then False
             else case t of
               [] \<Rightarrow> False
             | d # u \<Rightarrow>
                 if d = CHR '':'' then \<not> ellipsis \<and> (if u = [] then k > 0 else ipv6_groups k True u)
                 else ipv6_groups k ellipsis t)"

definition ipv6_ok :: "string \<Rightarrow> bool" where
  "ipv6_ok s \<longleftrightarrow>
     (if take 2 s = ''::'' then drop 2 s = [] \<or> ipv6_groups 8 True (drop 2 s) else ipv6_groups 8 False s)"

definition ParseIP_ok :: "string \<Rightarrow> bool" where
  "ParseIP_ok s \<longleftrightarrow>
     (case dropWhile (\<lambda>c. c \<notin> {CHR ''.'', CHR '':'', CHR ''%''}) s of
        [] \<Rightarrow> False
      | c # _ \<Rightarrow> if c = CHR ''.'' then ipv4_ok s else c = CHR '':'' \<and> ipv6_ok s)"

text \<open>The value \<open>strconv.Atoi\<close> returns beside its error: nothing for a text that is no number, the nearest for a
  number out of range.\<close>

definition Atoi_value :: "string \<Rightarrow> int" where
  "Atoi_value s =
     (case ParseInt64 s of
        Some n \<Rightarrow> n
      | None \<Rightarrow>
          let neg = (s \<noteq> [] \<and> hd s = CHR ''-''); ds = (if s \<noteq> [] \<and> hd s \<in> {CHR ''-'', CHR ''+''} then tl s else s)
          in if ds = [] \<or> digits_value 0 ds = None then 0 else if neg then - (2 ^ 63) else 2 ^ 63 - 1)"

definition ascii_space :: "char \<Rightarrow> bool" where
  "ascii_space c \<longleftrightarrow> c \<in> {CHR '' '', CHR 0x09, CHR 0x0A, CHR 0x0B, CHR 0x0C, CHR 0x0D}"

definition TrimSpace :: "string \<Rightarrow> string" where
  "TrimSpace s = rev (dropWhile ascii_space (rev (dropWhile ascii_space s)))"

section \<open>The tool\<close>

definition CheckIp :: "string \<Rightarrow> bool" where
  "CheckIp ipStr = ParseIP_ok ipStr"

definition InetAton :: "string \<Rightarrow> 64 word outcome" where
  "InetAton ipStr =
     (let bits = split_on CHR ''.'' ipStr
      in if length bits < 4 then Panic ''index out of range''
         else let b0 = Atoi_value (bits ! 0); b1 = Atoi_value (bits ! 1); b2 = Atoi_value (bits ! 2); b3 = Atoi_value (bits ! 3)
              in Ret (push_bit 24 (word_of_int b0) + push_bit 16 (word_of_int b1) + push_bit 8 (word_of_int b2) + word_of_int b3))"

definition InetNtoa :: "64 word \<Rightarrow> byte \<times> byte \<times> byte \<times> byte" where
  "InetNtoa ipnr =
     (let b0 = ucast (ipnr AND 0xFF); b1 = ucast (signed_drop_bit 8 ipnr AND 0xFF);
          b2 = ucast (signed_drop_bit 16 ipnr AND 0xFF); b3 = ucast (signed_drop_bit 24 ipnr AND 0xFF)
      in (b3, b2, b1, b0))"

definition IsInnerIp :: "string \<Rightarrow> bool outcome" where
  "IsInnerIp ipStr =
     (if \<not> CheckIp ipStr then Ret False
      else outcome_bind (InetAton ipStr) (\<lambda>inputIpNum.
           outcome_bind (InetAton ''10.255.255.255'') (\<lambda>innerIpA.
           outcome_bind (InetAton ''172.16.255.255'') (\<lambda>innerIpB.
           outcome_bind (InetAton ''192.168.255.255'') (\<lambda>innerIpC.
           outcome_bind (InetAton ''100.64.255.255'') (\<lambda>innerIpD.
           outcome_bind (InetAton ''127.255.255.255'') (\<lambda>innerIpF.
             Ret (signed_drop_bit 24 inputIpNum = signed_drop_bit 24 innerIpA \<or>
                  signed_drop_bit 20 inputIpNum = signed_drop_bit 20 innerIpB \<or>
                  signed_drop_bit 16 inputIpNum = signed_drop_bit 16 innerIpC \<or>
                  signed_drop_bit 22 inputIpNum = signed_drop_bit 22 innerIpD \<or>
                  signed_drop_bit 24 inputIpNum = signed_drop_bit 24 innerIpF))))))))"

fun first_global :: "string list \<Rightarrow> string outcome" where
  "first_global [] = Ret []"
| "first_global (ip # ips) =
     outcome_bind (IsInnerIp (TrimSpace ip)) (\<lambda>inner. if \<not> inner then Ret (TrimSpace ip) else first_global ips)"

definition GetGlobalIPFromXforwardedFor :: "string \<Rightarrow> string outcome" where
  "GetGlobalIPFromXforwardedFor xforwardedFor = first_global (split_on CHR '','' xforwardedFor)"

text \<open>A lookup of a header by a name, and what is found there if it is not empty.\<close>

definition forwarded_ip :: "string \<Rightarrow> http_request \<Rightarrow> string outcome" where
  "forwarded_ip name r =
     (let forwarded = header_get (CanonicalHeaderKey name) (hr_Header r)
      in if length forwarded > 0 then GetGlobalIPFromXforwardedFor forwarded else Ret [])"

definition RealIP :: "http_request \<Rightarrow> string outcome" where
  "RealIP r =
     (let remote = split_on CHR '':'' (hr_RemoteAddr r) ! 0
      in outcome_bind (IsInnerIp remote) (\<lambda>inner.
         if \<not> inner then Ret remote
         else outcome_bind (forwarded_ip ''X-Forwarded-For'' r) (\<lambda>ip.
              if ip \<noteq> [] then Ret ip
              else outcome_bind (forwarded_ip ''x-forwarded-for'' r) (\<lambda>ip.
                   if ip \<noteq> [] then Ret ip else Ret remote))))"

section \<open>Dotted quads\<close>

lemma digits_value_digits: "digits_value acc s = Some n \<Longrightarrow> list_all is_digit s"
  by (induction acc s rule: digits_value.induct) (auto simp: is_digit_def split: if_splits)

lemma format_digits_digits: "list_all is_digit (format_digits n)"
  using digits_value_digits[OF digits_value_format] .

lemma format_digits_no_sep:
  assumes "\<not> is_digit c"
  shows "c \<notin> set (format_digits n)"
  using format_digits_digits[of n] assms by (auto simp: list_all_iff)

lemma format_digits_no_leading_zero: "hd (format_digits n) \<noteq> CHR ''0'' \<or> length (format_digits n) = 1"
proof (induction n rule: format_digits.induct)
  case (1 n)
  show ?case
  proof (cases "n < 10")
    case False
    obtain d ds where f: "format_digits (n div 10) = d # ds" using format_digits_head by blast
    have "d \<noteq> CHR ''0''"
    proof (cases "length (format_digits (n div 10)) = 1")
      case True
      then have "n div 10 < 10" using format_digits_head[of "n div 10 div 10"] f
        by (cases "n div 10 < 10") (auto simp: format_digits.simps[of "n div 10"])
      moreover have "n div 10 \<noteq> 0" using False by simp
      ultimately show ?thesis using f digit_char[of "n div 10"]
        by (auto simp: format_digits.simps[of "n div 10"] digit_def)
    qed (use 1[OF False] f in auto)
    then show ?thesis using f False by (simp add: format_digits.simps[of n])
  qed (simp add: format_digits.simps[of n])
qed

lemma ipv4_field_format: "n < 256 \<Longrightarrow> ipv4_field (format_digits n)"
  using format_digits_digits[of n] format_digits_no_leading_zero[of n] format_digits_head[of n]
  by (auto simp: ipv4_field_def digits_value_format)

lemma Atoi_format: "n < 256 \<Longrightarrow> Atoi_value (format_digits n) = int n"
  using ParseInt64_FormatInt[of "int n"] by (simp add: Atoi_value_def FormatInt_def)

lemma split_on_quad:
  "split_on CHR ''.'' (ip_text (IPv4 a b c d)) = map format_digits [a, b, c, d]"
  by (simp add: split_on_append split_on_clean format_digits_no_sep is_digit_def less_eq_char_def)

lemma quad_is_address:
  assumes "a < 256" "b < 256" "c < 256" "d < 256"
  shows "CheckIp (ip_text (IPv4 a b c d))"
proof -
  let ?sep = "\<lambda>c. c \<notin> {CHR ''.'', CHR '':'', CHR ''%''}"
  have "\<forall>x \<in> set (format_digits a). ?sep x"
    using format_digits_no_sep[of "CHR ''.''" a] format_digits_no_sep[of "CHR '':''" a] format_digits_no_sep[of "CHR ''%''" a]
    by (auto simp: is_digit_def less_eq_char_def)
  then have "dropWhile ?sep (ip_text (IPv4 a b c d)) = CHR ''.'' # drop (length (format_digits a) + 1) (ip_text (IPv4 a b c d))"
    by (simp add: dropWhile_append2)
  moreover have "ipv4_ok (ip_text (IPv4 a b c d))"
    using assms by (simp add: ipv4_ok_def split_on_quad ipv4_field_format del: ip_text.simps)
  ultimately show ?thesis by (simp add: CheckIp_def ParseIP_ok_def del: ip_text.simps)
qed

definition quad_number :: "nat \<Rightarrow> nat \<Rightarrow> nat \<Rightarrow> nat \<Rightarrow> int" where
  "quad_number a b c d = int (a * 2 ^ 24 + b * 2 ^ 16 + c * 2 ^ 8 + d)"

lemma InetAton_quad:
  assumes "a < 256" "b < 256" "c < 256" "d < 256"
  shows "InetAton (ip_text (IPv4 a b c d)) = Ret (word_of_int (quad_number a b c d))"
  using assms
  by (simp add: InetAton_def split_on_quad Atoi_format quad_number_def push_bit_eq_mult mult.commute del: ip_text.simps)

text \<open>An arithmetic shift of a number that is not negative is a division.\<close>

lemma signed_drop_bit_number:
  assumes "0 \<le> n" "n < 2 ^ 63"
  shows "signed_drop_bit k (word_of_int n :: 64 word) = word_of_int (n div 2 ^ k)"
proof -
  have "signed_take_bit 63 n = n" using assms by (simp add: signed_take_bit_int_eq_self)
  moreover have "signed_drop_bit k (word_of_int n :: 64 word) = word_of_int (drop_bit k (signed_take_bit 63 n))"
    by transfer simp
  ultimately show ?thesis by (simp add: drop_bit_eq_div)
qed

lemma quad_div:
  assumes "c < 256" "d < 256" "r < n" "n * 2 ^ 16 * m = 2 ^ 24"
  shows "(a * 2 ^ 24 + (n * q + r) * 2 ^ 16 + c * 2 ^ 8 + d) div (n * 2 ^ 16) = a * m + (q :: nat)"
proof -
  have a: "a * 2 ^ 24 = n * 2 ^ 16 * (a * m)" using assms(4) by (metis mult.commute mult.left_commute)
  have "(n * q + r) * 2 ^ 16 = n * 2 ^ 16 * q + r * 2 ^ 16" by (simp add: algebra_simps)
  moreover have "r * 2 ^ 16 + (c * 2 ^ 8 + d) < n * 2 ^ 16"
  proof -
    have "(r + 1) * 2 ^ 16 \<le> n * 2 ^ 16" using assms(3) by (intro mult_le_mono1) simp
    then show ?thesis using assms(1,2) by simp
  qed
  ultimately have sum: "a * 2 ^ 24 + (n * q + r) * 2 ^ 16 + c * 2 ^ 8 + d = (n * 2 ^ 16) * (a * m + q) + (r * 2 ^ 16 + (c * 2 ^ 8 + d))"
    unfolding a by (simp add: distrib_left)
  show ?thesis unfolding sum using \<open>r * 2 ^ 16 + (c * 2 ^ 8 + d) < n * 2 ^ 16\<close>
    by (simp only: div_mult_self4 div_less add.right_neutral)
qed

lemma quad_parts:
  assumes "b < 256" "c < 256" "d < 256"
  shows "quad_number a b c d div 2 ^ 24 = int a" "quad_number a b c d div 2 ^ 16 = int (a * 256 + b)"
    "quad_number a b c d div 2 ^ 20 = int (a * 16 + b div 16)" "quad_number a b c d div 2 ^ 22 = int (a * 4 + b div 64)"
proof -
  let ?n = "a * 2 ^ 24 + b * 2 ^ 16 + c * 2 ^ 8 + d"
  have "?n div 2 ^ 24 = a" "?n div 2 ^ 16 = a * 256 + b" "?n div 2 ^ 20 = a * 16 + b div 16" "?n div 2 ^ 22 = a * 4 + b div 64"
    using quad_div[OF assms(2,3), of b 256 1 a 0] quad_div[OF assms(2,3), of 0 1 256 a b]
      quad_div[OF assms(2,3), of "b mod 16" 16 16 a "b div 16"] quad_div[OF assms(2,3), of "b mod 64" 64 4 a "b div 64"] assms(1)
    by simp_all
  then show "quad_number a b c d div 2 ^ 24 = int a" "quad_number a b c d div 2 ^ 16 = int (a * 256 + b)"
    "quad_number a b c d div 2 ^ 20 = int (a * 16 + b div 16)" "quad_number a b c d div 2 ^ 22 = int (a * 4 + b div 64)"
    unfolding quad_number_def by (metis of_nat_numeral of_nat_power zdiv_int)+
qed

lemma quad_number_range:
  assumes "a < 256" "b < 256" "c < 256" "d < 256"
  shows "0 \<le> quad_number a b c d" "quad_number a b c d < 2 ^ 32"
  using assms by (simp_all add: quad_number_def)

lemma small_words_eq:
  assumes "0 \<le> m" "m < 2 ^ 32" "0 \<le> n" "n < 2 ^ 32"
  shows "(word_of_int m :: 64 word) = word_of_int n \<longleftrightarrow> m = n"
  using assms by (auto simp: word_of_int_eq_iff take_bit_int_eq_self)

lemma same_shift:
  assumes "0 \<le> m" "m < 2 ^ 32" "0 \<le> n" "n < 2 ^ 32"
  shows "signed_drop_bit k (word_of_int m :: 64 word) = signed_drop_bit k (word_of_int n) \<longleftrightarrow> m div 2 ^ k = n div 2 ^ k"
proof -
  have "0 \<le> x div 2 ^ k \<and> x div 2 ^ k < 2 ^ 32" if "0 \<le> x" "x < 2 ^ 32" for x :: int
    using that zdiv_mono2[of x 1 "2 ^ k"] by (simp add: pos_imp_zdiv_nonneg_iff)
  with assms show ?thesis by (simp add: signed_drop_bit_number small_words_eq)
qed

lemma inner_constants:
  "''10.255.255.255'' = ip_text (IPv4 10 255 255 255)" "''172.16.255.255'' = ip_text (IPv4 172 16 255 255)"
  "''192.168.255.255'' = ip_text (IPv4 192 168 255 255)" "''100.64.255.255'' = ip_text (IPv4 100 64 255 255)"
  "''127.255.255.255'' = ip_text (IPv4 127 255 255 255)"
  by (simp_all add: format_digits.simps digit_def char_of_def bit_0)

text \<open>The test of the tool on an IPv4 address is that of the addresses a server registers, and the loop-back network.\<close>

lemma IsInnerIp_quad:
  assumes "a < 256" "b < 256" "c < 256" "d < 256"
  shows "IsInnerIp (ip_text (IPv4 a b c d)) = Ret (isPrivateIP a b \<or> a = 127)"
proof -
  note shift = same_shift[OF quad_number_range[OF assms] quad_number_range] and parts = quad_parts[OF assms(2-4)]
  have digits: "a * n + q = k * n + j \<longleftrightarrow> a = k \<and> q = j" if "q < n" "j < n" for q n k j :: nat
    using that by (metis add.commute add.right_neutral div_less div_mult_self1 mod_less mod_mult_self1 not_less_zero)
  have "IsInnerIp (ip_text (IPv4 a b c d)) =
      Ret (a = 10 \<or> int a * 16 + int (b div 16) = 2753 \<or> int a * 256 + int b = 49320 \<or> int a * 4 + int (b div 64) = 401 \<or> a = 127)"
    unfolding IsInnerIp_def inner_constants
    using quad_is_address[OF assms] by (simp add: InetAton_quad assms shift parts[simplified] quad_parts[simplified] del: ip_text.simps)
  moreover have "int a * 16 + int (b div 16) = 2753 \<longleftrightarrow> a = 172 \<and> b div 16 = 1"
    using digits[of "b div 16" 16 1 172] assms(2) by linarith
  moreover have "int a * 256 + int b = 49320 \<longleftrightarrow> a = 192 \<and> b = 168"
    using digits[of b 256 168 192] assms(2) by linarith
  moreover have "int a * 4 + int (b div 64) = 401 \<longleftrightarrow> a = 100 \<and> b div 64 = 1"
    using digits[of "b div 64" 4 1 100] assms(2) by linarith
  ultimately show ?thesis by (auto simp: isPrivateIP_def)
qed

section \<open>The address of a client\<close>

fun quad_ok :: "raw_addr \<Rightarrow> bool" where
  "quad_ok (IPv4 a b c d) \<longleftrightarrow> a < 256 \<and> b < 256 \<and> c < 256 \<and> d < 256"
| "quad_ok _ \<longleftrightarrow> False"

fun public_ip :: "raw_addr \<Rightarrow> bool" where
  "public_ip (IPv4 a b c d) \<longleftrightarrow> \<not> isPrivateIP a b \<and> a \<noteq> 127"
| "public_ip _ \<longleftrightarrow> False"

lemma IsInnerIp_text: "quad_ok q \<Longrightarrow> IsInnerIp (ip_text q) = Ret (\<not> public_ip q)"
  using IsInnerIp_quad by (cases q) (auto simp del: ip_text.simps)

lemma ip_text_chars: "quad_ok q \<Longrightarrow> x \<in> set (ip_text q) \<Longrightarrow> is_digit x \<or> x = CHR ''.''"
  using format_digits_digits by (cases q) (auto simp: list_all_iff)

lemma ip_text_clean:
  assumes "quad_ok q"
  shows "CHR '','' \<notin> set (ip_text q)" "CHR '':'' \<notin> set (ip_text q)" "\<forall>x \<in> set (ip_text q). \<not> ascii_space x" "ip_text q \<noteq> []"
proof -
  have "\<not> is_digit c \<and> c \<noteq> CHR ''.'' \<Longrightarrow> c \<notin> set (ip_text q)" for c using ip_text_chars[OF assms] by blast
  then show "CHR '','' \<notin> set (ip_text q)" "CHR '':'' \<notin> set (ip_text q)" by (simp_all add: is_digit_def less_eq_char_def)
  have "\<not> ascii_space c" if "is_digit c \<or> c = CHR ''.''" for c
    using that by (auto simp: is_digit_def ascii_space_def less_eq_char_def)
  then show "\<forall>x \<in> set (ip_text q). \<not> ascii_space x" using ip_text_chars[OF assms] by blast
  show "ip_text q \<noteq> []" using assms by (cases q) simp_all
qed

lemma TrimSpace_clean: "\<forall>x \<in> set s. \<not> ascii_space x \<Longrightarrow> TrimSpace s = s"
proof -
  have "dropWhile ascii_space t = t" if "\<forall>x \<in> set t. \<not> ascii_space x" for t using that by (cases t) auto
  from this[of s] this[of "rev s"] show "\<forall>x \<in> set s. \<not> ascii_space x \<Longrightarrow> TrimSpace s = s" by (simp add: TrimSpace_def)
qed

lemma TrimSpace_space: "TrimSpace (CHR '' '' # s) = TrimSpace s"
  by (simp add: TrimSpace_def ascii_space_def)

lemma split_on_list:
  assumes "\<forall>x \<in> set xs. c \<notin> set x" "c \<noteq> b" "xs \<noteq> []"
  shows "split_on c (join_text [c, b] xs) = hd xs # map ((#) b) (tl xs)"
  using assms
proof (induction "[c, b]" xs rule: join_text.induct)
  case (3 x y ys)
  then have "split_on c (b # join_text [c, b] (y # ys)) = (b # y) # map ((#) b) ys" by simp
  then show ?case using 3(2) by (simp add: split_on_append)
qed (simp_all add: split_on_clean)

lemma first_global_quads:
  assumes "\<forall>q \<in> set qs. quad_ok q" "length ts = length qs" "\<forall>i < length qs. TrimSpace (ts ! i) = ip_text (qs ! i)"
  shows "first_global ts = Ret (case filter public_ip qs of [] \<Rightarrow> [] | q # _ \<Rightarrow> ip_text q)"
  using assms
proof (induction ts arbitrary: qs)
  case (Cons t ts)
  then obtain q qs' where qs: "qs = q # qs'" by (cases qs) auto
  moreover have "first_global ts = Ret (case filter public_ip qs' of [] \<Rightarrow> [] | q # _ \<Rightarrow> ip_text q)"
    using Cons.prems qs by (intro Cons.IH) auto
  moreover have "TrimSpace t = ip_text q" using Cons.prems(3) qs by auto
  ultimately show ?case using Cons.prems(1) by (simp add: IsInnerIp_text)
qed simp

lemma GetGlobalIP_quads:
  assumes "\<forall>q \<in> set qs. quad_ok q" "qs \<noteq> []"
  shows "GetGlobalIPFromXforwardedFor (join_text '', '' (map ip_text qs)) =
    Ret (case filter public_ip qs of [] \<Rightarrow> [] | q # _ \<Rightarrow> ip_text q)"
proof -
  obtain q qs' where qs: "qs = q # qs'" using assms(2) by (cases qs) auto
  have "split_on CHR '','' (join_text '', '' (map ip_text qs)) = ip_text q # map ((#) CHR '' '') (map ip_text qs')"
    using split_on_list[of "map ip_text qs" "CHR '',''" "CHR '' ''"] assms(1) ip_text_clean(1) qs by auto
  moreover have "TrimSpace ((ip_text q # map ((#) CHR '' '') (map ip_text qs')) ! i) = ip_text (qs ! i)" if "i < length qs" for i
    using that assms(1) qs by (cases i) (simp_all add: TrimSpace_space TrimSpace_clean[OF ip_text_clean(3)])
  ultimately show ?thesis
    unfolding GetGlobalIPFromXforwardedFor_def
    using first_global_quads[OF assms(1), of "ip_text q # map ((#) CHR '' '') (map ip_text qs')"] qs by (simp del: first_global.simps)
qed

lemma canonical_forwarded: "CanonicalHeaderKey ''X-Forwarded-For'' = ''X-Forwarded-For''" "CanonicalHeaderKey ''x-forwarded-for'' = ''X-Forwarded-For''"
  by code_simp+


definition proxied :: http_request where
  "proxied = sample_http\<lparr>hr_RemoteAddr := ''10.0.0.1:80'',
     hr_Header := [''X-Forwarded-For'' \<mapsto> [''192.168.0.2, 202.106.9.134, 101.32.47.171'']]\<rparr>"


text \<open>
  An IPv6 address in the list has no dots to split at: indexing its parts panics. An IPv4 address in the
  notation of IPv6 counts as public even when it is private.
\<close>

lemma ipv6_forwarded_panics: "IsInnerIp ''2001:db8::1'' = Panic ''index out of range''"
  by code_simp

lemma mapped_address_is_public: "IsInnerIp ''::ffff:10.0.0.1'' = Ret False"
  by code_simp

text \<open>Numbers and addresses: \<open>InetNtoa\<close> gives back the parts \<open>InetAton\<close> was given.\<close>

lemma InetNtoa_InetAton:
  assumes "a < 256" "b < 256" "c < 256" "d < 256" "InetAton (ip_text (IPv4 a b c d)) = Ret n"
  shows "InetNtoa n = (of_nat a, of_nat b, of_nat c, of_nat d)"
proof -
  have n: "n = word_of_int (quad_number a b c d)" using assms(5) InetAton_quad[OF assms(1-4)] by simp
  have byte: "(ucast (word_of_int m AND 0xFF :: 64 word) :: byte) = word_of_int m" for m
    by transfer (simp add: take_bit_eq_mask mask_eq_exp_minus_1 ac_simps flip: take_bit_and)
  have "(a * 2 ^ 24 + b * 2 ^ 16 + c * 2 ^ 8 + d) div 2 ^ 8 = a * 65536 + b * 256 + c"
    using assms(4) by (intro div_nat_eqI) simp_all
  then have "quad_number a b c d div 2 ^ 8 = int (a * 65536 + b * 256 + c)"
    unfolding quad_number_def by (metis of_nat_numeral of_nat_power zdiv_int)
  note parts = this quad_parts[OF assms(2-4)]
  have shift: "signed_drop_bit k n = word_of_int (quad_number a b c d div 2 ^ k)" for k
    using signed_drop_bit_number quad_number_range[OF assms(1-4)] n by simp
  have zero: "(256 :: byte) = 0" "(65536 :: byte) = 0" "(16777216 :: byte) = 0" by (transfer; simp)+
  have "(word_of_int (int (a * 65536 + b * 256 + c)) :: byte) = of_nat c" "(word_of_int (int (a * 256 + b)) :: byte) = of_nat b"
    "(word_of_int (quad_number a b c d) :: byte) = of_nat d"
    by (simp_all add: quad_number_def zero)
  moreover have "ucast (n AND 0xFF) = (word_of_int (quad_number a b c d) :: byte)" by (simp only: n byte)
  ultimately show ?thesis
    by (simp only: InetNtoa_def shift byte parts Let_def) simp
qed

end
