(* ===== verification/Tcp_Server.thy ===== *)
theory Tcp_Server
  imports Mqant_Prelude "HOL-Library.Sublist"
begin

text \<open>
  The listeners of the gate (\<^verbatim>\<open>src/network/tcp_server.go\<close>): the
  accept loop with its delay after temporary errors, one goroutine per connection, and \<open>Close\<close>, which
  waits for them, as interleaved steps. A wait group is its counter. Durations are in nanoseconds. What is
  done with a connection is recorded in \<open>ts_log\<close>.
\<close>

section \<open>The server\<close>

definition go_Millisecond :: int where
  "go_Millisecond = 10 ^ 6"

definition accept_delay :: "int \<Rightarrow> int" where
  "accept_delay tempDelay =
     (let d = (if tempDelay = 0 then 5 * go_Millisecond else tempDelay * 2);
          mx = 1000 * go_Millisecond
      in if d > mx then mx else d)"

datatype accept_pc = A_begin | A_accept | A_returned
datatype conn_pc = C_begin | C_added | C_ran | C_closed | C_told | C_end
datatype close_pc = K_idle | K_listener_closed | K_waiting_conns | K_returned
datatype conn_event = Ran nat | Conn_closed nat | On_closed nat

record tcp_server =
  ts_open :: bool
  ts_accept :: accept_pc
  ts_tempDelay :: int
  ts_wgLn :: int
  ts_wgConns :: int
  ts_conns :: "conn_pc list"
  ts_close :: close_pc
  ts_log :: "conn_event list"

text \<open>\<open>init\<close> panics when the address cannot be listened on, no agent is given, or the certificates cannot be loaded.\<close>

definition tcp_init :: "go_error option \<Rightarrow> bool \<Rightarrow> bool \<Rightarrow> go_error option \<Rightarrow> tcp_server outcome" where
  "tcp_init listen new_agent tls load =
     (if listen \<noteq> None then Panic ''Tcp listen fail''
      else if \<not> new_agent then Panic ''NewAgent must not be nil''
      else if tls \<and> load \<noteq> None then Panic ''Load Tcp tls fail''
      else Ret \<lparr>ts_open = True, ts_accept = A_begin, ts_tempDelay = 0, ts_wgLn = 0, ts_wgConns = 0, ts_conns = [],
                ts_close = K_idle, ts_log = []\<rparr>)"

text \<open>The accept loop. A connection is accepted only while the listener is open; a
  temporary error may still be in progress when it is closed, afterwards \<open>Accept\<close> fails for good.\<close>

inductive tcp_run :: "tcp_server \<Rightarrow> tcp_server \<Rightarrow> bool" where
  run_begin: "ts_accept s = A_begin \<Longrightarrow> tcp_run s (s\<lparr>ts_wgLn := ts_wgLn s + 1, ts_accept := A_accept\<rparr>)"
| temporary: "ts_accept s = A_accept \<Longrightarrow> tcp_run s (s\<lparr>ts_tempDelay := accept_delay (ts_tempDelay s)\<rparr>)"
| accepted: "ts_accept s = A_accept \<Longrightarrow> ts_open s \<Longrightarrow>
    tcp_run s (s\<lparr>ts_tempDelay := 0, ts_conns := ts_conns s @ [C_begin]\<rparr>)"
| failed: "ts_accept s = A_accept \<Longrightarrow> tcp_run s (s\<lparr>ts_wgLn := ts_wgLn s - 1, ts_accept := A_returned\<rparr>)"

text \<open>The goroutine of connection \<open>i\<close>.\<close>

inductive tcp_conn_run :: "nat \<Rightarrow> tcp_server \<Rightarrow> tcp_server \<Rightarrow> bool" for i where
  add: "i < length (ts_conns s) \<Longrightarrow> ts_conns s ! i = C_begin \<Longrightarrow>
    tcp_conn_run i s (s\<lparr>ts_wgConns := ts_wgConns s + 1, ts_conns := (ts_conns s)[i := C_added]\<rparr>)"
| agent_run: "i < length (ts_conns s) \<Longrightarrow> ts_conns s ! i = C_added \<Longrightarrow>
    tcp_conn_run i s (s\<lparr>ts_conns := (ts_conns s)[i := C_ran], ts_log := ts_log s @ [Ran i]\<rparr>)"
| conn_close: "i < length (ts_conns s) \<Longrightarrow> ts_conns s ! i = C_ran \<Longrightarrow>
    tcp_conn_run i s (s\<lparr>ts_conns := (ts_conns s)[i := C_closed], ts_log := ts_log s @ [Conn_closed i]\<rparr>)"
| agent_closed: "i < length (ts_conns s) \<Longrightarrow> ts_conns s ! i = C_closed \<Longrightarrow>
    tcp_conn_run i s (s\<lparr>ts_conns := (ts_conns s)[i := C_told], ts_log := ts_log s @ [On_closed i]\<rparr>)"
| finished: "i < length (ts_conns s) \<Longrightarrow> ts_conns s ! i = C_told \<Longrightarrow>
    tcp_conn_run i s (s\<lparr>ts_wgConns := ts_wgConns s - 1, ts_conns := (ts_conns s)[i := C_end]\<rparr>)"

inductive tcp_Close :: "tcp_server \<Rightarrow> tcp_server \<Rightarrow> bool" where
  close_listener: "ts_close s = K_idle \<Longrightarrow> tcp_Close s (s\<lparr>ts_open := False, ts_close := K_listener_closed\<rparr>)"
| wait_listener: "ts_close s = K_listener_closed \<Longrightarrow> ts_wgLn s = 0 \<Longrightarrow> tcp_Close s (s\<lparr>ts_close := K_waiting_conns\<rparr>)"
| wait_conns: "ts_close s = K_waiting_conns \<Longrightarrow> ts_wgConns s = 0 \<Longrightarrow> tcp_Close s (s\<lparr>ts_close := K_returned\<rparr>)"

inductive tcp_step :: "tcp_server \<Rightarrow> tcp_server \<Rightarrow> bool" where
  runs: "tcp_run s t \<Longrightarrow> tcp_step s t"
| conn: "tcp_conn_run i s t \<Longrightarrow> tcp_step s t"
| closes: "tcp_Close s t \<Longrightarrow> tcp_step s t"

inductive_cases tcp_stepE: "tcp_step s t"

definition tcp_initial :: "tcp_server \<Rightarrow> bool" where
  "tcp_initial s \<longleftrightarrow> (\<exists>listen new_agent tls load. tcp_init listen new_agent tls load = Ret s)"

section \<open>What it keeps\<close>

definition busy :: "conn_pc \<Rightarrow> bool" where
  "busy c \<longleftrightarrow> c \<in> {C_added, C_ran, C_closed, C_told}"

definition conn_events :: "nat \<Rightarrow> conn_pc \<Rightarrow> conn_event list" where
  "conn_events i c =
     (case c of C_begin \<Rightarrow> [] | C_added \<Rightarrow> [] | C_ran \<Rightarrow> [Ran i] | C_closed \<Rightarrow> [Ran i, Conn_closed i]
      | C_told \<Rightarrow> [Ran i, Conn_closed i, On_closed i] | C_end \<Rightarrow> [Ran i, Conn_closed i, On_closed i])"

fun event_conn :: "conn_event \<Rightarrow> nat" where
  "event_conn (Ran i) = i"
| "event_conn (Conn_closed i) = i"
| "event_conn (On_closed i) = i"

definition tcp_inv :: "tcp_server \<Rightarrow> bool" where
  "tcp_inv s \<longleftrightarrow>
     (ts_tempDelay s = 0 \<or> 5 * go_Millisecond \<le> ts_tempDelay s \<and> ts_tempDelay s \<le> 1000 * go_Millisecond) \<and>
     ts_wgLn s = (if ts_accept s = A_accept then 1 else 0) \<and>
     ts_wgConns s = int (length (filter busy (ts_conns s))) \<and>
     (\<forall>i < length (ts_conns s). filter (\<lambda>e. event_conn e = i) (ts_log s) = conn_events i (ts_conns s ! i)) \<and>
     (\<forall>e \<in> set (ts_log s). event_conn e < length (ts_conns s))"

lemma accept_delay_bounds:
  "d = 0 \<or> 5 * go_Millisecond \<le> d \<and> d \<le> 1000 * go_Millisecond \<Longrightarrow>
    5 * go_Millisecond \<le> accept_delay d \<and> accept_delay d \<le> 1000 * go_Millisecond"
  by (auto simp: accept_delay_def go_Millisecond_def Let_def)

lemma length_filter_update:
  assumes "i < length xs"
  shows "int (length (filter P (xs[i := y]))) =
    int (length (filter P xs)) - (if P (xs ! i) then 1 else 0) + (if P y then 1 else 0)"
  using assms
proof (induction xs arbitrary: i)
  case (Cons x xs)
  show ?case
  proof (cases i)
    case (Suc j)
    with Cons.IH[of j] Cons.prems show ?thesis by (auto split: if_splits)
  qed simp
qed simp

text \<open>A step of a connection that appends what belongs to it.\<close>

lemma conn_log_step:
  assumes "\<forall>j < length cs. filter (\<lambda>e. event_conn e = j) log = events j (cs ! j)" "i < length cs"
    "events i (cs ! i) @ es = events i c" "\<forall>e \<in> set es. event_conn e = i"
  shows "\<forall>j < length cs. filter (\<lambda>e. event_conn e = j) (log @ es) = events j (cs[i := c] ! j)"
proof (intro allI impI)
  fix j assume "j < length cs"
  then show "filter (\<lambda>e. event_conn e = j) (log @ es) = events j (cs[i := c] ! j)"
    using assms by (cases "j = i") (auto simp: filter_empty_conv filter_id_conv)
qed

lemma tcp_inv_conn_step:
  assumes "tcp_inv s" "i < length (ts_conns s)" "conn_events i (ts_conns s ! i) @ es = conn_events i c"
    "\<forall>e \<in> set es. event_conn e = i"
    "n = ts_wgConns s - (if busy (ts_conns s ! i) then 1 else 0) + (if busy c then 1 else 0)"
  shows "tcp_inv (s\<lparr>ts_wgConns := n, ts_conns := (ts_conns s)[i := c], ts_log := ts_log s @ es\<rparr>)"
  using assms conn_log_step[of "ts_conns s" "ts_log s" conn_events, OF _ assms(2-4)] length_filter_update[OF assms(2), of busy c]
  by (auto simp: tcp_inv_def)

lemma tcp_inv_conn:
  assumes "tcp_inv s" "tcp_conn_run i s t"
  shows "tcp_inv t"
  using assms(2)
proof cases
  case add
  then show ?thesis using tcp_inv_conn_step[OF assms(1), of i "[]" C_added] by (simp add: busy_def conn_events_def)
next
  case agent_run
  then show ?thesis using tcp_inv_conn_step[OF assms(1), of i "[Ran i]" C_ran] by (simp add: busy_def conn_events_def)
next
  case conn_close
  then show ?thesis using tcp_inv_conn_step[OF assms(1), of i "[Conn_closed i]" C_closed] by (simp add: busy_def conn_events_def)
next
  case agent_closed
  then show ?thesis using tcp_inv_conn_step[OF assms(1), of i "[On_closed i]" C_told] by (simp add: busy_def conn_events_def)
next
  case finished
  then show ?thesis using tcp_inv_conn_step[OF assms(1), of i "[]" C_end] by (simp add: busy_def conn_events_def)
qed

lemma tcp_inv_run:
  assumes "tcp_inv s" "tcp_run s t"
  shows "tcp_inv t"
  using assms(2)
proof cases
  case temporary
  with assms(1) accept_delay_bounds[of "ts_tempDelay s"] show ?thesis by (auto simp: tcp_inv_def)
next
  case accepted
  have "filter (\<lambda>e. event_conn e = length (ts_conns s)) (ts_log s) = []"
    using assms(1) by (auto simp: tcp_inv_def filter_empty_conv)
  with assms(1) accepted show ?thesis
    by (auto simp: tcp_inv_def busy_def conn_events_def nth_append less_Suc_eq)
qed (use assms(1) in \<open>auto simp: tcp_inv_def\<close>)

lemma tcp_inv_close:
  assumes "tcp_inv s" "tcp_Close s t"
  shows "tcp_inv t"
  using assms(2) by cases (use assms(1) in \<open>simp_all add: tcp_inv_def\<close>)

text \<open>Only the last wait of \<open>Close\<close> makes it return.\<close>

lemma run_keeps_close:
  assumes "tcp_run s t"
  shows "ts_close t = ts_close s"
  using assms by cases simp_all

lemma conn_keeps_close:
  assumes "tcp_conn_run i s t"
  shows "ts_close t = ts_close s"
  using assms by cases simp_all

lemma close_returns_after_wait:
  assumes "tcp_step s t" "ts_close s \<noteq> K_returned" "ts_close t = K_returned"
  shows "ts_wgConns s = 0 \<and> ts_conns t = ts_conns s"
  using assms(1)
proof cases
  case closes
  then show ?thesis using assms(2,3) by cases simp_all
qed (use assms(2,3) in \<open>simp_all add: run_keeps_close conn_keeps_close\<close>)

interpretation tcp_sys: invariant_system tcp_initial tcp_step tcp_inv
proof
  show "tcp_initial s \<Longrightarrow> tcp_inv s" for s
    by (auto simp: tcp_initial_def tcp_init_def tcp_inv_def split: if_splits)
  show "tcp_inv s \<Longrightarrow> tcp_step s t \<Longrightarrow> tcp_inv t" for s t
    by (erule tcp_stepE) (blast intro: tcp_inv_run tcp_inv_conn tcp_inv_close)+
qed

section \<open>Properties\<close>

text \<open>C18: a connection is cleaned up after its agent, once, and \<open>Close\<close> waits for what has begun. In every
  interleaving: what happens to a connection is the run of its agent, then the closing of the
  connection, then \<open>OnClose\<close>, each at most once; the delay after a temporary error is between five
  milliseconds and a second; and when \<open>Close\<close> returns, the goroutine of every connection has either ended
  or not yet entered itself into the wait group.\<close>

theorem connections_cleaned_up_once:
  assumes "reach tcp_initial tcp_step s"
  shows "(\<forall>i < length (ts_conns s). prefix (filter (\<lambda>e. event_conn e = i) (ts_log s)) [Ran i, Conn_closed i, On_closed i]) \<and>
    (ts_tempDelay s = 0 \<or> 5 * go_Millisecond \<le> ts_tempDelay s \<and> ts_tempDelay s \<le> 1000 * go_Millisecond) \<and>
    (\<forall>t. tcp_step s t \<and> ts_close s \<noteq> K_returned \<and> ts_close t = K_returned \<longrightarrow> (\<forall>c \<in> set (ts_conns t). c = C_end \<or> c = C_begin))"
proof -
  have inv: "tcp_inv s" using tcp_sys.inv_reach[OF assms] .
  have prefix_events: "prefix (conn_events i c) [Ran i, Conn_closed i, On_closed i]" for i c
    by (cases c) (simp_all add: conn_events_def)
  have ended: "c = C_end \<or> c = C_begin"
    if "tcp_step s t" "ts_close s \<noteq> K_returned" "ts_close t = K_returned" "c \<in> set (ts_conns t)" for t c
  proof -
    note close_returns_after_wait[OF that(1-3)]
    then have "\<forall>c \<in> set (ts_conns t). \<not> busy c" using inv by (simp add: tcp_inv_def filter_empty_conv)
    with that(4) have "\<not> busy c" by blast
    then show ?thesis by (cases c) (simp_all add: busy_def)
  qed
  show ?thesis
  proof (intro conjI allI impI ballI)
    fix i assume "i < length (ts_conns s)"
    with inv show "prefix (filter (\<lambda>e. event_conn e = i) (ts_log s)) [Ran i, Conn_closed i, On_closed i]"
      by (simp add: tcp_inv_def prefix_events)
  next
    show "ts_tempDelay s = 0 \<or> 5 * go_Millisecond \<le> ts_tempDelay s \<and> ts_tempDelay s \<le> 1000 * go_Millisecond"
      using inv unfolding tcp_inv_def by (elim conjE)
  next
    fix t c assume "tcp_step s t \<and> ts_close s \<noteq> K_returned \<and> ts_close t = K_returned" "c \<in> set (ts_conns t)"
    then show "c = C_end \<or> c = C_begin" using ended by blast
  qed
qed

definition fresh_tcp :: tcp_server where
  "fresh_tcp = \<lparr>ts_open = True, ts_accept = A_begin, ts_tempDelay = 0, ts_wgLn = 0, ts_wgConns = 0, ts_conns = [],
     ts_close = K_idle, ts_log = []\<rparr>"

lemma fresh_tcp_initial: "tcp_initial fresh_tcp"
  unfolding tcp_initial_def
  by (rule exI[of _ None], rule exI[of _ True], rule exI[of _ False], rule exI[of _ None]) (simp add: tcp_init_def fresh_tcp_def)

theorem connections_cleaned_up_once_witness:
  "\<exists>s :: tcp_server. ts_accept s = A_accept \<and> 5 * go_Millisecond \<le> ts_tempDelay s \<and> ts_tempDelay s \<le> 1000 * go_Millisecond"
proof -
  define s1 where "s1 = fresh_tcp\<lparr>ts_wgLn := 1, ts_accept := A_accept\<rparr>"
  define s2 where "s2 = s1\<lparr>ts_tempDelay := accept_delay 0\<rparr>"
  have "tcp_step fresh_tcp s1" using tcp_step.runs[OF tcp_run.run_begin[of fresh_tcp]] by (simp add: s1_def fresh_tcp_def)
  moreover have "tcp_step s1 s2" using tcp_step.runs[OF tcp_run.temporary[of s1]] by (simp add: s2_def s1_def fresh_tcp_def)
  ultimately have "reach tcp_initial tcp_step s2" using fresh_tcp_initial by (blast intro: reach.intros)
  moreover have "ts_tempDelay s2 \<noteq> 0" "ts_accept s2 = A_accept"
    by (simp_all add: s2_def s1_def accept_delay_def go_Millisecond_def Let_def)
  ultimately have "5 * go_Millisecond \<le> ts_tempDelay s2 \<and> ts_tempDelay s2 \<le> 1000 * go_Millisecond"
    using connections_cleaned_up_once[of s2] by presburger
  then show ?thesis using \<open>ts_accept s2 = A_accept\<close> by (intro exI[of _ s2]) simp
qed

text \<open>
  A goroutine enters itself into the wait group only when it runs, so that \<open>Close\<close> may return before: the
  agent of a connection that was accepted earlier runs after \<open>Close\<close> has returned.
\<close>

lemma agent_may_run_after_close:
  "\<exists>s. reach tcp_initial tcp_step s \<and> ts_close s = K_returned \<and> ts_conns s = [C_added]"
proof -
  define s1 where "s1 = fresh_tcp\<lparr>ts_wgLn := 1, ts_accept := A_accept\<rparr>"
  define s2 where "s2 = s1\<lparr>ts_conns := [C_begin]\<rparr>"
  define s3 where "s3 = s2\<lparr>ts_open := False, ts_close := K_listener_closed\<rparr>"
  define s4 where "s4 = s3\<lparr>ts_wgLn := 0, ts_accept := A_returned\<rparr>"
  define s5 where "s5 = s4\<lparr>ts_close := K_waiting_conns\<rparr>"
  define s6 where "s6 = s5\<lparr>ts_close := K_returned\<rparr>"
  define s7 where "s7 = s6\<lparr>ts_wgConns := 1, ts_conns := [C_added]\<rparr>"
  note defs = s1_def s2_def s3_def s4_def s5_def s6_def s7_def fresh_tcp_def
  have "tcp_step fresh_tcp s1" using tcp_step.runs[OF tcp_run.run_begin[of fresh_tcp]] by (simp add: defs)
  moreover have "tcp_step s1 s2" using tcp_step.runs[OF tcp_run.accepted[of s1]] by (simp add: defs)
  moreover have "tcp_step s2 s3" using tcp_step.closes[OF tcp_Close.close_listener[of s2]] by (simp add: defs)
  moreover have "tcp_step s3 s4" using tcp_step.runs[OF tcp_run.failed[of s3]] by (simp add: defs)
  moreover have "tcp_step s4 s5" using tcp_step.closes[OF tcp_Close.wait_listener[of s4]] by (simp add: defs)
  moreover have "tcp_step s5 s6" using tcp_step.closes[OF tcp_Close.wait_conns[of s5]] by (simp add: defs)
  moreover have "tcp_step s6 s7" using tcp_step.conn[OF tcp_conn_run.add[of 0 s6]] by (simp add: defs)
  ultimately have "reach tcp_initial tcp_step s7" using reach_init[of tcp_initial, OF fresh_tcp_initial, of tcp_step] by (meson reach_step)
  then show ?thesis by (intro exI[of _ s7]) (simp add: s7_def s6_def)
qed

end
