(* ===== verification/Ws_Server.thy ===== *)
theory Ws_Server
  imports Ip_Tool Tcp_Server
begin

text \<open>
  The WebSocket listener of the gate (\<^verbatim>\<open>src/network/ws_server_x.go\<close>) and its connections
  (\<^verbatim>\<open>src/network/ws_conn_x.go\<close>). The HTTP server of the library runs one goroutine per connection, in which
  the handler of the gate runs; a panic of the handler ends its goroutine and is recovered by the library.
\<close>

section \<open>Connections\<close>

text \<open>The wrapper over a connection of the library, which is closed by \<open>close\<close>.\<close>

record 'c ws_conn =
  wc_conn :: 'c
  wc_closeFlag :: bool

definition newWSConn :: "'c \<Rightarrow> 'c ws_conn" where
  "newWSConn conn = \<lparr>wc_conn = conn, wc_closeFlag = False\<rparr>"

definition ws_doDestroy :: "('c \<Rightarrow> go_error option \<times> 'c) \<Rightarrow> 'c ws_conn \<Rightarrow> 'c ws_conn" where
  "ws_doDestroy close w =
     (let w = w\<lparr>wc_conn := snd (close (wc_conn w))\<rparr>
      in if \<not> wc_closeFlag w then w\<lparr>wc_closeFlag := True\<rparr> else w)"

definition ws_Destroy :: "('c \<Rightarrow> go_error option \<times> 'c) \<Rightarrow> 'c ws_conn \<Rightarrow> 'c ws_conn" where
  "ws_Destroy close w = ws_doDestroy close w"

definition ws_conn_Close :: "('c \<Rightarrow> go_error option \<times> 'c) \<Rightarrow> 'c ws_conn \<Rightarrow> go_error option \<times> 'c ws_conn" where
  "ws_conn_Close close w =
     (if wc_closeFlag w then (None, w)
      else let w = w\<lparr>wc_closeFlag := True\<rparr>
           in case close (wc_conn w) of (err, conn) \<Rightarrow> (err, w\<lparr>wc_conn := conn\<rparr>))"

definition ws_RemoteAddr :: "http_request \<Rightarrow> string outcome" where
  "ws_RemoteAddr r = RealIP r"

definition ws_SetDeadline ::
    "('c \<Rightarrow> go_error option \<times> 'c) \<Rightarrow> ('c \<Rightarrow> go_error option \<times> 'c) \<Rightarrow> 'c ws_conn \<Rightarrow> go_error option \<times> 'c ws_conn" where
  "ws_SetDeadline set_read set_write w =
     (case set_read (wc_conn w) of
        (Some err, conn) \<Rightarrow> (Some err, w\<lparr>wc_conn := conn\<rparr>)
      | (None, conn) \<Rightarrow> (case set_write conn of (err, conn) \<Rightarrow> (err, w\<lparr>wc_conn := conn\<rparr>)))"

text \<open>However often it is closed, the connection under the wrapper is closed once.\<close>

lemma ws_close_once:
  assumes "ws_conn_Close close (newWSConn c) = (err, w)"
  shows "(err, wc_conn w) = close c \<and> ws_conn_Close close w = (None, w)"
  using assms by (auto simp: ws_conn_Close_def newWSConn_def Let_def split: prod.splits)

section \<open>The server\<close>

datatype ws_pc = In_conn conn_pc | Panicked
datatype ws_close_pc = WK_idle | WK_waiting | WK_returned

record ws_server =
  ws_open :: bool
  ws_HTTPTimeout :: int
  ws_wg :: int
  ws_conns :: "ws_pc list"
  ws_close :: ws_close_pc
  ws_log :: "conn_event list"

definition ws_Start :: "go_error option \<Rightarrow> int \<Rightarrow> bool \<Rightarrow> bool \<Rightarrow> go_error option \<Rightarrow> ws_server outcome" where
  "ws_Start listen httpTimeout new_agent tls load =
     (if listen \<noteq> None then Panic ''Tcp listen fail''
      else let httpTimeout = (if httpTimeout \<le> 0 then 10 * 1000 * go_Millisecond else httpTimeout)
           in if \<not> new_agent then Panic ''NewAgent must not be nil''
              else if tls \<and> load \<noteq> None then Panic ''Load ws_server tls fail''
              else Ret \<lparr>ws_open = True, ws_HTTPTimeout = httpTimeout, ws_wg = 0, ws_conns = [], ws_close = WK_idle, ws_log = []\<rparr>)"

text \<open>
  The handshake: the origin, of which a failure to parse is ignored, and the protocol. \<open>ParseRequestURI\<close> is
  that of \<^verbatim>\<open>net/url\<close>.
\<close>

definition ws_Handshake ::
    "(string \<Rightarrow> 'u option) \<Rightarrow> bool \<Rightarrow> string \<Rightarrow> http_request \<Rightarrow> ('u option \<times> string list) outcome" where
  "ws_Handshake ParseRequestURI tls request_uri r =
     (let scheme = (if tls then ''wss'' else ''ws'')
      in outcome_bind (RealIP r) (\<lambda>real_ip.
           let origin = ParseRequestURI (scheme @ ''://'' @ real_ip @ request_uri);
               offeredProtocol = header_get (CanonicalHeaderKey ''Sec-WebSocket-Protocol'') (hr_Header r);
               ptls = split_on CHR '','' offeredProtocol
           in Ret (origin, if length ptls > 0 then [ptls ! 0] else [''mqtt''])))"

text \<open>The default protocol is never chosen, since splitting gives at least one part.\<close>

lemma handshake_never_defaults:
  assumes "ws_Handshake P tls u r = Ret (origin, protocols)"
  shows "protocols = [split_on CHR '','' (header_get (CanonicalHeaderKey ''Sec-WebSocket-Protocol'') (hr_Header r)) ! 0]"
  using assms by (auto simp: ws_Handshake_def Let_def outcome_bind_Ret_iff)

text \<open>The handler of connection \<open>i\<close>; its deferred part leaves the wait group also when the agent panics.\<close>

inductive ws_echo :: "nat \<Rightarrow> ws_server \<Rightarrow> ws_server \<Rightarrow> bool" for i where
  echo_add: "i < length (ws_conns s) \<Longrightarrow> ws_conns s ! i = In_conn C_begin \<Longrightarrow>
    ws_echo i s (s\<lparr>ws_wg := ws_wg s + 1, ws_conns := (ws_conns s)[i := In_conn C_added]\<rparr>)"
| echo_run: "i < length (ws_conns s) \<Longrightarrow> ws_conns s ! i = In_conn C_added \<Longrightarrow>
    ws_echo i s (s\<lparr>ws_conns := (ws_conns s)[i := In_conn C_ran], ws_log := ws_log s @ [Ran i]\<rparr>)"
| echo_panic: "i < length (ws_conns s) \<Longrightarrow> ws_conns s ! i = In_conn C_added \<Longrightarrow>
    ws_echo i s (s\<lparr>ws_wg := ws_wg s - 1, ws_conns := (ws_conns s)[i := Panicked]\<rparr>)"
| echo_close: "i < length (ws_conns s) \<Longrightarrow> ws_conns s ! i = In_conn C_ran \<Longrightarrow>
    ws_echo i s (s\<lparr>ws_conns := (ws_conns s)[i := In_conn C_closed], ws_log := ws_log s @ [Conn_closed i]\<rparr>)"
| echo_told: "i < length (ws_conns s) \<Longrightarrow> ws_conns s ! i = In_conn C_closed \<Longrightarrow>
    ws_echo i s (s\<lparr>ws_conns := (ws_conns s)[i := In_conn C_told], ws_log := ws_log s @ [On_closed i]\<rparr>)"
| echo_done: "i < length (ws_conns s) \<Longrightarrow> ws_conns s ! i = In_conn C_told \<Longrightarrow>
    ws_echo i s (s\<lparr>ws_wg := ws_wg s - 1, ws_conns := (ws_conns s)[i := In_conn C_end]\<rparr>)"

inductive ws_Close :: "ws_server \<Rightarrow> ws_server \<Rightarrow> bool" where
  ws_close_listener: "ws_close s = WK_idle \<Longrightarrow> ws_Close s (s\<lparr>ws_open := False, ws_close := WK_waiting\<rparr>)"
| ws_wait: "ws_close s = WK_waiting \<Longrightarrow> ws_wg s = 0 \<Longrightarrow> ws_Close s (s\<lparr>ws_close := WK_returned\<rparr>)"

text \<open>The HTTP server accepts a connection while the listener is open.\<close>

inductive ws_step :: "ws_server \<Rightarrow> ws_server \<Rightarrow> bool" where
  ws_accepts: "ws_open s \<Longrightarrow> ws_step s (s\<lparr>ws_conns := ws_conns s @ [In_conn C_begin]\<rparr>)"
| ws_echoes: "ws_echo i s t \<Longrightarrow> ws_step s t"
| ws_closes: "ws_Close s t \<Longrightarrow> ws_step s t"

inductive_cases ws_stepE: "ws_step s t"

definition ws_initial :: "ws_server \<Rightarrow> bool" where
  "ws_initial s \<longleftrightarrow> (\<exists>listen httpTimeout new_agent tls load. ws_Start listen httpTimeout new_agent tls load = Ret s)"

section \<open>What it keeps\<close>

fun ws_busy :: "ws_pc \<Rightarrow> bool" where
  "ws_busy (In_conn c) = busy c"
| "ws_busy Panicked = False"

fun ws_events :: "nat \<Rightarrow> ws_pc \<Rightarrow> conn_event list" where
  "ws_events i (In_conn c) = conn_events i c"
| "ws_events i Panicked = []"

definition ws_inv :: "ws_server \<Rightarrow> bool" where
  "ws_inv s \<longleftrightarrow>
     ws_wg s = int (length (filter ws_busy (ws_conns s))) \<and> 0 < ws_HTTPTimeout s \<and>
     (\<forall>i < length (ws_conns s). filter (\<lambda>e. event_conn e = i) (ws_log s) = ws_events i (ws_conns s ! i)) \<and>
     (\<forall>e \<in> set (ws_log s). event_conn e < length (ws_conns s))"

lemma ws_inv_conn_step:
  assumes "ws_inv s" "i < length (ws_conns s)" "ws_events i (ws_conns s ! i) @ es = ws_events i c"
    "\<forall>e \<in> set es. event_conn e = i"
    "n = ws_wg s - (if ws_busy (ws_conns s ! i) then 1 else 0) + (if ws_busy c then 1 else 0)"
  shows "ws_inv (s\<lparr>ws_wg := n, ws_conns := (ws_conns s)[i := c], ws_log := ws_log s @ es\<rparr>)"
  using assms conn_log_step[of "ws_conns s" "ws_log s" ws_events, OF _ assms(2-4)] length_filter_update[OF assms(2), of ws_busy c]
  by (auto simp: ws_inv_def)

lemma ws_inv_echo:
  assumes "ws_inv s" "ws_echo i s t"
  shows "ws_inv t"
  using assms(2)
proof cases
  case echo_add
  then show ?thesis using ws_inv_conn_step[OF assms(1), of i "[]" "In_conn C_added"] by (simp add: busy_def conn_events_def)
next
  case echo_run
  then show ?thesis using ws_inv_conn_step[OF assms(1), of i "[Ran i]" "In_conn C_ran"] by (simp add: busy_def conn_events_def)
next
  case echo_panic
  then show ?thesis using ws_inv_conn_step[OF assms(1), of i "[]" Panicked] by (simp add: busy_def conn_events_def)
next
  case echo_close
  then show ?thesis using ws_inv_conn_step[OF assms(1), of i "[Conn_closed i]" "In_conn C_closed"] by (simp add: busy_def conn_events_def)
next
  case echo_told
  then show ?thesis using ws_inv_conn_step[OF assms(1), of i "[On_closed i]" "In_conn C_told"] by (simp add: busy_def conn_events_def)
next
  case echo_done
  then show ?thesis using ws_inv_conn_step[OF assms(1), of i "[]" "In_conn C_end"] by (simp add: busy_def conn_events_def)
qed

lemma ws_inv_step:
  assumes "ws_inv s" "ws_step s t"
  shows "ws_inv t"
  using assms(2)
proof cases
  case ws_accepts
  have "filter (\<lambda>e. event_conn e = length (ws_conns s)) (ws_log s) = []"
    using assms(1) by (auto simp: ws_inv_def filter_empty_conv)
  with assms(1) ws_accepts show ?thesis
    by (auto simp: ws_inv_def busy_def conn_events_def nth_append less_Suc_eq)
next
  case ws_echoes
  then show ?thesis using ws_inv_echo[OF assms(1)] by blast
next
  case ws_closes
  then show ?thesis by cases (use assms(1) in \<open>simp_all add: ws_inv_def\<close>)
qed

interpretation ws_sys: invariant_system ws_initial ws_step ws_inv
proof
  show "ws_initial s \<Longrightarrow> ws_inv s" for s
    by (auto simp: ws_initial_def ws_Start_def ws_inv_def go_Millisecond_def Let_def split: if_splits)
qed (rule ws_inv_step)

text \<open>
  In every interleaving what happens to a connection is a beginning of run, close, and the end told to the
  agent; the counter of the wait group is the number of the handlers that have entered it and not left; and
  requests have a time limit.
\<close>

theorem ws_connections_cleaned_up:
  assumes "reach ws_initial ws_step s"
  shows "(\<forall>i < length (ws_conns s). prefix (filter (\<lambda>e. event_conn e = i) (ws_log s)) [Ran i, Conn_closed i, On_closed i]) \<and>
    ws_wg s = int (length (filter ws_busy (ws_conns s))) \<and> 0 < ws_HTTPTimeout s"
proof -
  have inv: "ws_inv s" using ws_sys.inv_reach[OF assms] .
  have "prefix (ws_events i c) [Ran i, Conn_closed i, On_closed i]" for i c
  proof (cases c)
    case (In_conn p)
    then show ?thesis by (cases p) (simp_all add: conn_events_def)
  qed simp
  with inv show ?thesis by (simp add: ws_inv_def)
qed

text \<open>After a panic of the agent neither is its connection closed by the handler nor its end told to it.\<close>

lemma panicked_never_told:
  assumes "reach ws_initial ws_step s" "i < length (ws_conns s)" "ws_conns s ! i = Panicked"
  shows "Conn_closed i \<notin> set (ws_log s) \<and> On_closed i \<notin> set (ws_log s)"
proof -
  have "filter (\<lambda>e. event_conn e = i) (ws_log s) = []"
    using ws_sys.inv_reach[OF assms(1)] assms(2,3) by (simp add: ws_inv_def)
  then show ?thesis by (auto simp: filter_empty_conv)
qed

end
