(* ===== verification/Module_Manager.thy ===== *)
theory Module_Manager
  imports Mqant_Prelude
begin

text \<open>
  The manager of the modules of a process (\<^verbatim>\<open>src/module/base/module_manager.go\<close>,
  \<^verbatim>\<open>module_agent.go\<close>): the check of the configuration, the choice of the modules that run in this
  process, their start and their stop. The modules themselves are code of the user: their hooks
  are parameters (\<open>mod_env\<close>) which may return, panic or never return. Agents are shared between the
  lists of the manager, so the lists hold references to a store of agents. A Go map is iterated in
  an arbitrary order: the configuration is the list of its entries in the order of the iteration.
\<close>

section \<open>Data\<close>

record 'v module_settings =
  ID :: string
  Host :: string
  ProcessID :: string
  Settings :: "string \<rightharpoonup> 'v"

type_synonym 'v mod_conf = "(string \<times> 'v module_settings list) list"

record ('m, 'v) mod_env =
  GetType :: "'m \<Rightarrow> string"
  OnInit :: "'m \<Rightarrow> 'v module_settings option \<Rightarrow> unit outcome"
  GetModuleInited :: "('m \<Rightarrow> unit outcome) option"
  OnReady :: "'m \<Rightarrow> unit outcome"
  Run :: "'m \<Rightarrow> unit outcome"
  takes_signal :: "'m \<Rightarrow> bool"
  OnDestroy :: "'m \<Rightarrow> unit outcome"

record ('m, 'v) module_agent =
  mi :: 'm
  settings :: "'v module_settings option"
  closeSig :: bool

record ('m, 'v) module_manager =
  agents :: "('m, 'v) module_agent list"
  mods :: "nat list"
  runMods :: "nat list"

definition NewModuleManager :: "('m, 'v) module_manager" where
  "NewModuleManager = \<lparr>agents = [], mods = [], runMods = []\<rparr>"

definition mgr_Register :: "'m \<Rightarrow> ('m, 'v) module_manager \<Rightarrow> ('m, 'v) module_manager" where
  "mgr_Register m mer = mer\<lparr>agents := agents mer @ [\<lparr>mi = m, settings = None, closeSig = False\<rparr>],
     mods := mods mer @ [length (agents mer)]\<rparr>"

definition RegisterRunMod :: "'m \<Rightarrow> ('m, 'v) module_manager \<Rightarrow> ('m, 'v) module_manager" where
  "RegisterRunMod m mer = mer\<lparr>agents := agents mer @ [\<lparr>mi = m, settings = None, closeSig = False\<rparr>],
     runMods := runMods mer @ [length (agents mer)]\<rparr>"

section \<open>The check of the configuration\<close>

fun check_type :: "string \<Rightarrow> 'v module_settings list \<Rightarrow> smap \<Rightarrow> smap \<Rightarrow> smap outcome" where
  "check_type T [] gid pid = Ret gid"
| "check_type T (s # ss) gid pid =
     (case gid (ID s) of
        Some _ \<Rightarrow> Panic ''ID (%s) been used in modules of type [%s] and cannot be reused''
      | None \<Rightarrow>
          (case pid (ProcessID s) of
             Some _ \<Rightarrow> Panic ''In the list of modules of type [%s], ProcessID (%s) has been used for ID module for (%s)''
           | None \<Rightarrow> check_type T ss (gid(ID s \<mapsto> T)) (pid(ProcessID s \<mapsto> ID s))))"

fun check_types :: "'v mod_conf \<Rightarrow> smap \<Rightarrow> smap outcome" where
  "check_types [] gid = Ret gid"
| "check_types ((T, ss) # conf) gid = outcome_bind (check_type T ss gid Map.empty) (check_types conf)"

definition CheckModuleSettings :: "'v mod_conf \<Rightarrow> unit outcome" where
  "CheckModuleSettings conf = outcome_bind (check_types conf Map.empty) (\<lambda>_. Ret ())"

section \<open>Start and stop\<close>

text \<open>
  What the manager does to the modules, as a trace: a hook is recorded when it returns, \<open>ERun\<close> is the
  start of the goroutine of a module.
\<close>

datatype 'v mod_event =
    EInit nat "'v module_settings option"
  | EReady nat
  | ERun nat
  | EClose nat
  | EDone nat
  | EDestroy nat

type_synonym ('e, 'a) traced = "'e list \<times> 'a outcome"

definition then_do :: "('e, 'a) traced \<Rightarrow> ('a \<Rightarrow> ('e, 'b) traced) \<Rightarrow> ('e, 'b) traced" where
  "then_do m f =
     (case m of
        (es, Ret a) \<Rightarrow> (case f a of (es', r) \<Rightarrow> (es @ es', r))
      | (es, Panic p) \<Rightarrow> (es, Panic p)
      | (es, Hang) \<Rightarrow> (es, Hang))"

definition hook :: "unit outcome \<Rightarrow> 'e list \<Rightarrow> ('e, unit) traced" where
  "hook out es = (case out of Ret _ \<Rightarrow> (es, out) | _ \<Rightarrow> ([], out))"

definition use_setting :: "string \<Rightarrow> nat \<Rightarrow> 'v module_settings \<Rightarrow> ('m, 'v) module_manager \<Rightarrow> ('m, 'v) module_manager" where
  "use_setting pid r s mer =
     (if pid = ProcessID s
      then mer\<lparr>runMods := runMods mer @ [r], agents := (agents mer)[r := (agents mer ! r)\<lparr>settings := Some s\<rparr>]\<rparr>
      else mer)"

definition match_module :: "('m, 'v) mod_env \<Rightarrow> 'v mod_conf \<Rightarrow> string \<Rightarrow> nat \<Rightarrow> ('m, 'v) module_manager \<Rightarrow> ('m, 'v) module_manager" where
  "match_module E conf pid r mer =
     (case map_of conf (GetType E (mi (agents mer ! r))) of
        None \<Rightarrow> mer
      | Some modSettings \<Rightarrow> fold (use_setting pid r) modSettings mer)"

definition init_one :: "('m, 'v) mod_env \<Rightarrow> ('m, 'v) module_agent \<Rightarrow> nat \<Rightarrow> bool \<Rightarrow> ('v mod_event, unit) traced" where
  "init_one E a r bootstrap =
     then_do (hook (OnInit E (mi a) (settings a)) [EInit r (settings a)]) (\<lambda>_.
     then_do (hook (case GetModuleInited E of None \<Rightarrow> Ret () | Some f \<Rightarrow> f (mi a)) []) (\<lambda>_.
     hook (OnReady E (mi a)) ([EReady r] @ (if bootstrap then [ERun r] else []))))"

fun init_all :: "('m, 'v) mod_env \<Rightarrow> ('m, 'v) module_agent list \<Rightarrow> bool \<Rightarrow> nat list \<Rightarrow> ('v mod_event, unit) traced" where
  "init_all E as bootstrap [] = ([], Ret ())"
| "init_all E as bootstrap (r # rs) = then_do (init_one E (as ! r) r bootstrap) (\<lambda>_. init_all E as bootstrap rs)"

text \<open>
  \<open>Init\<close>: the check, the choice, then the modules that were registered to run from the beginning
  (they run as soon as they are ready) and the chosen ones, which run when all are ready.
\<close>

definition mgr_Init :: "('m, 'v) mod_env \<Rightarrow> 'v mod_conf \<Rightarrow> 'v mod_conf \<Rightarrow> string \<Rightarrow> ('m, 'v) module_manager \<Rightarrow>
    ('v mod_event, ('m, 'v) module_manager) traced" where
  "mgr_Init E global conf pid mer =
     then_do (hook (CheckModuleSettings global) []) (\<lambda>_.
       let mer' = fold (match_module E conf pid) (mods mer) mer;
           bootstrap = runMods mer;
           entries = drop (length bootstrap) (runMods mer')
       in then_do (init_all E (agents mer') True bootstrap) (\<lambda>_.
          then_do (init_all E (agents mer') False entries) (\<lambda>_.
            (map ERun entries, Ret mer'))))"

text \<open>
  \<open>run\<close> logs a panic of the module and panics again, which ends the process; \<open>destroy\<close> logs it and
  goes on. The channel of the close signal has room for one value.
\<close>

definition run_mod :: "('m, 'v) mod_env \<Rightarrow> ('m, 'v) module_agent \<Rightarrow> unit outcome" where
  "run_mod E a = Run E (mi a)"

definition destroy_mod :: "('m, 'v) mod_env \<Rightarrow> ('m, 'v) module_agent \<Rightarrow> unit outcome" where
  "destroy_mod E a = (case OnDestroy E (mi a) of Panic _ \<Rightarrow> Ret () | out \<Rightarrow> out)"

fun destroy_all :: "('m, 'v) mod_env \<Rightarrow> nat list \<Rightarrow> ('m, 'v) module_manager \<Rightarrow> ('v mod_event, ('m, 'v) module_manager) traced" where
  "destroy_all E [] mer = ([], Ret mer)"
| "destroy_all E (r # rs) mer =
     (let a = agents mer ! r
      in if closeSig a then ([], Hang)
         else then_do ([EClose r], Ret ()) (\<lambda>_.
              then_do (hook (run_mod E a) [EDone r]) (\<lambda>_.
              then_do (hook (destroy_mod E a) [EDestroy r]) (\<lambda>_.
                destroy_all E rs (mer\<lparr>agents := (agents mer)[r := a\<lparr>closeSig := \<not> takes_signal E (mi a)\<rparr>]\<rparr>)))))"

definition mgr_Destroy :: "('m, 'v) mod_env \<Rightarrow> ('m, 'v) module_manager \<Rightarrow> ('v mod_event, ('m, 'v) module_manager) traced" where
  "mgr_Destroy E mer = destroy_all E (rev (runMods mer)) mer"

section \<open>The check is the documented rule\<close>

text \<open>What the comment of the check asks for: ids are unique, process ids are unique per type.\<close>

definition all_ids :: "'v mod_conf \<Rightarrow> string list" where
  "all_ids conf = concat (map (\<lambda>(T, ss). map ID ss) conf)"

definition settings_rule :: "'v mod_conf \<Rightarrow> bool" where
  "settings_rule conf \<longleftrightarrow> distinct (all_ids conf) \<and> (\<forall>(T, ss) \<in> set conf. distinct (map ProcessID ss))"

lemma all_ids_Cons: "set (all_ids ((T, ss) # conf)) = ID ` set ss \<union> set (all_ids conf)"
  by (simp add: all_ids_def)

lemma settings_rule_Cons:
  "settings_rule ((T, ss) # conf) \<longleftrightarrow>
     distinct (map ID ss) \<and> distinct (map ProcessID ss) \<and> ID ` set ss \<inter> set (all_ids conf) = {} \<and> settings_rule conf"
proof -
  have "all_ids ((T, ss) # conf) = map ID ss @ all_ids conf" by (simp add: all_ids_def)
  then show ?thesis by (auto simp: settings_rule_def)
qed

lemma check_type_iff:
  "(\<exists>g. check_type T ss gid pid = Ret g) \<longleftrightarrow>
     distinct (map ID ss) \<and> ID ` set ss \<inter> dom gid = {} \<and>
     distinct (map ProcessID ss) \<and> ProcessID ` set ss \<inter> dom pid = {}"
proof (induction ss arbitrary: gid pid)
  case (Cons s ss)
  show ?case
  proof (cases "gid (ID s) = None \<and> pid (ProcessID s) = None")
    case True
    then have "check_type T (s # ss) gid pid = check_type T ss (gid(ID s \<mapsto> T)) (pid(ProcessID s \<mapsto> ID s))" by simp
    moreover have "ID s \<notin> dom gid" "ProcessID s \<notin> dom pid" using True by auto
    ultimately show ?thesis
      by (simp only: Cons.IH dom_fun_upd option.simps if_False list.map distinct.simps list.set image_insert set_map
          disjoint_insert(1) insert_disjoint(1)) metis
  qed (auto split: option.splits)
qed simp

lemma check_type_Ret: "check_type T ss gid pid = Ret g \<Longrightarrow> dom g = dom gid \<union> ID ` set ss"
  by (induction ss arbitrary: gid pid) (auto split: option.splits)

lemma check_types_iff:
  "(\<exists>g. check_types conf gid = Ret g) \<longleftrightarrow> settings_rule conf \<and> set (all_ids conf) \<inter> dom gid = {}"
proof (induction conf arbitrary: gid)
  case (Cons c conf)
  obtain T ss where c: "c = (T, ss)" by (cases c)
  have here: "(\<exists>g. check_type T ss gid Map.empty = Ret g) \<longleftrightarrow>
      distinct (map ID ss) \<and> ID ` set ss \<inter> dom gid = {} \<and> distinct (map ProcessID ss)"
    using check_type_iff[of T ss gid Map.empty] by simp
  show ?case
  proof (cases "\<exists>g. check_type T ss gid Map.empty = Ret g")
    case True
    then obtain g where g: "check_type T ss gid Map.empty = Ret g" by blast
    then have "check_types (c # conf) gid = check_types conf g" using c by simp
    then show ?thesis
      using True here unfolding c settings_rule_Cons all_ids_Cons
      by (simp only: Cons.IH check_type_Ret[OF g]) blast
  next
    case False
    then have "\<nexists>g. check_types (c # conf) gid = Ret g"
      using c by (cases "check_type T ss gid Map.empty") auto
    with False here show ?thesis unfolding c settings_rule_Cons all_ids_Cons by blast
  qed
qed (simp add: settings_rule_def all_ids_def)

lemma check_settings_iff: "CheckModuleSettings conf = Ret () \<longleftrightarrow> settings_rule conf"
  using check_types_iff[of conf Map.empty]
  by (cases "check_types conf Map.empty") (auto simp: CheckModuleSettings_def)

lemma check_type_no_hang: "check_type T ss gid pid \<noteq> Hang"
  by (induction ss arbitrary: gid pid) (auto split: option.splits)

lemma check_types_no_hang: "check_types conf gid \<noteq> Hang"
proof (induction conf arbitrary: gid)
  case (Cons c conf)
  then show ?case
    using check_type_no_hang by (cases c; cases "check_type (fst c) (snd c) gid Map.empty") auto
qed simp

text \<open>The check of the module settings is the documented rule, whatever order the map is iterated
  in: it passes exactly when no id is used twice and no type has a process id twice, and in every
  other case it panics.
\<close>

theorem module_settings_check_is_rule:
  "(CheckModuleSettings conf = Ret () \<longleftrightarrow> settings_rule conf) \<and>
   ((\<exists>p. CheckModuleSettings conf = Panic p) \<longleftrightarrow> \<not> settings_rule conf)"
  using check_types_iff[of conf Map.empty] check_types_no_hang[of conf Map.empty]
  by (cases "check_types conf Map.empty") (auto simp: CheckModuleSettings_def)

section \<open>No entry is opened before all modules are ready\<close>

lemma then_do_simps [simp]:
  "then_do (es, Panic p) f = (es, Panic p)" "then_do (es, Hang) f = (es, Hang)"
  "then_do (es, Ret a) f = (es @ fst (f a), snd (f a))"
  by (simp_all add: then_do_def split_beta)

lemma then_do_Ret:
  "then_do m f = (es, Ret b) \<longleftrightarrow> (\<exists>es1 a es2. m = (es1, Ret a) \<and> f a = (es2, Ret b) \<and> es = es1 @ es2)"
  by (cases m; cases "snd m") (auto simp: then_do_def split: prod.splits)

lemma hook_Ret: "hook out es = (es', Ret x) \<longleftrightarrow> out = Ret x \<and> es' = es"
  by (cases out) (auto simp: hook_def)

lemma hook_events: "set (fst (hook out es)) \<subseteq> set es"
  by (cases out) (auto simp: hook_def)

lemma then_do_events: "set (fst (then_do m f)) \<subseteq> set (fst m) \<union> (\<Union>a. set (fst (f a)))"
  by (cases m; cases "snd m") auto

text \<open>A module that was initialised and is ready, and runs from now on if it is one of the first.\<close>

definition init_trace :: "('m, 'v) module_agent list \<Rightarrow> bool \<Rightarrow> nat \<Rightarrow> 'v mod_event list" where
  "init_trace as bootstrap r = [EInit r (settings (as ! r)), EReady r] @ (if bootstrap then [ERun r] else [])"

lemma init_one_Ret: "init_one E (as ! r) r b = (es, Ret x) \<Longrightarrow> es = init_trace as b r"
  by (auto simp: init_one_def then_do_Ret hook_Ret init_trace_def)

lemma init_one_events: "set (fst (init_one E (as ! r) r b)) \<subseteq> set (init_trace as b r)"
  by (cases "OnInit E (mi (as ! r)) (settings (as ! r))";
      cases "(case GetModuleInited E of None \<Rightarrow> Ret () | Some f \<Rightarrow> f (mi (as ! r)))";
      cases "OnReady E (mi (as ! r))")
    (auto simp: init_one_def hook_def init_trace_def)

lemma init_all_Ret: "init_all E as b rs = (es, Ret x) \<Longrightarrow> es = concat (map (init_trace as b) rs)"
  by (induction rs arbitrary: es) (auto simp: then_do_Ret dest: init_one_Ret)

lemma init_all_events: "set (fst (init_all E as b rs)) \<subseteq> (\<Union>r \<in> set rs. set (init_trace as b r))"
proof (induction rs)
  case (Cons r rs)
  then show ?case
    using then_do_events[of "init_one E (as ! r) r b" "\<lambda>_. init_all E as b rs"] init_one_events[of E as r b] by auto
qed simp

lemma init_all_runs: "ERun q \<in> set (fst (init_all E as b rs)) \<Longrightarrow> b \<and> q \<in> set rs"
  using init_all_events[of E as b rs] by (auto simp: init_trace_def split: if_splits)

lemma prefix_before: "pre @ x # post = as @ bs \<Longrightarrow> x \<notin> set as \<Longrightarrow> set as \<subseteq> set pre"
  by (auto simp: append_eq_append_conv2 Cons_eq_append_conv)

lemma init_cases:
  fixes E conf pid mer
  defines "mer' \<equiv> fold (match_module E conf pid) (mods mer) mer"
  defines "entries \<equiv> drop (length (runMods mer)) (runMods mer')"
  assumes init: "mgr_Init E global conf pid mer = (es, res)"
  obtains (started) "res = Ret mer'" "CheckModuleSettings global = Ret ()"
      "es = (concat (map (init_trace (agents mer') True) (runMods mer)) @ concat (map (init_trace (agents mer') False) entries)) @ map ERun entries"
    | (failed) "\<forall>m. res \<noteq> Ret m" "\<And>q. ERun q \<in> set es \<Longrightarrow> q \<in> set (runMods mer)"
proof (cases "\<exists>m. res = Ret m")
  case True
  with init show thesis
    by (intro started) (auto simp: mgr_Init_def Let_def then_do_Ret hook_Ret mer'_def entries_def dest!: init_all_Ret)
next
  case False
  have "q \<in> set (runMods mer)" if q: "ERun q \<in> set es" for q
  proof -
    let ?A = "init_all E (agents mer') True (runMods mer)" and ?B = "init_all E (agents mer') False entries"
    obtain x where chk: "CheckModuleSettings global = Ret x"
      using q init by (cases "CheckModuleSettings global") (auto simp: mgr_Init_def hook_def)
    then have *: "(es, res) = then_do ?A (\<lambda>_. then_do ?B (\<lambda>_. (map ERun entries, Ret mer')))"
      using init by (simp add: mgr_Init_def hook_def Let_def mer'_def entries_def)
    then have "ERun q \<in> set (fst ?A) \<union> set (fst ?B)"
      using q False by (cases ?A; cases "snd ?A"; cases ?B; cases "snd ?B") auto
    then show ?thesis using init_all_runs[of q E "agents mer'"] by blast
  qed
  then show thesis using False failed by blast
qed

lemma init_opens_last:
  assumes "mgr_Init E global conf pid mer = (es, res)" "es = pre @ ERun r # post" "r \<notin> set (runMods mer)"
  shows "\<exists>mer'. res = Ret mer' \<and>
    EReady ` (set (runMods mer) \<union> set (drop (length (runMods mer)) (runMods mer'))) \<subseteq> set pre"
  using assms(1)
proof (cases rule: init_cases)
  case started
  let ?mer' = "fold (match_module E conf pid) (mods mer) mer"
  let ?entries = "drop (length (runMods mer)) (runMods ?mer')"
  let ?inits = "concat (map (init_trace (agents ?mer') True) (runMods mer)) @ concat (map (init_trace (agents ?mer') False) ?entries)"
  have "ERun r \<notin> set ?inits" using assms(3) by (auto simp: init_trace_def)
  with started(3) assms(2) have "set ?inits \<subseteq> set pre" by (intro prefix_before[of pre _ post]) simp_all
  moreover have "EReady ` (set (runMods mer) \<union> set ?entries) \<subseteq> set ?inits" by (auto simp: init_trace_def)
  ultimately show ?thesis using started(1) by blast
next
  case failed
  then show ?thesis using assms(2,3) by auto
qed

text \<open>Managers as a process builds them, before \<open>Init\<close>.\<close>

inductive registered :: "('m, 'v) module_manager \<Rightarrow> bool" where
  reg_new: "registered NewModuleManager"
| reg_module: "registered mer \<Longrightarrow> registered (mgr_Register m mer)"
| reg_run: "registered mer \<Longrightarrow> registered (RegisterRunMod m mer)"

lemma registered_wf:
  "registered mer \<Longrightarrow> distinct (mods mer @ runMods mer) \<and> set (mods mer @ runMods mer) \<subseteq> {..<length (agents mer)} \<and>
     (\<forall>a \<in> set (agents mer). settings a = None \<and> \<not> closeSig a)"
  by (induction rule: registered.induct)
    (auto simp: NewModuleManager_def mgr_Register_def RegisterRunMod_def)

text \<open>C20: no entry is opened before all modules are ready. Whatever the hooks of the modules do, a
  module that was not registered to run from the beginning is started by \<open>Init\<close> only after every
  module that runs in this process is ready; if a hook of any module or the check of the
  settings panics, none of them is started.
\<close>

theorem entries_open_after_all_ready:
  assumes "mgr_Init E global conf pid mer = (es, res)"
    and "es = pre @ ERun r # post" "r \<notin> set (runMods mer)"
  shows "\<exists>mer'. res = Ret mer' \<and> settings_rule global \<and>
    (\<forall>q \<in> set (runMods mer) \<union> set (drop (length (runMods mer)) (runMods mer')). EReady q \<in> set pre)"
proof -
  obtain mer' where "res = Ret mer'"
    "EReady ` (set (runMods mer) \<union> set (drop (length (runMods mer)) (runMods mer'))) \<subseteq> set pre"
    using init_opens_last[OF assms] by blast
  moreover have "CheckModuleSettings global = Ret ()"
    using assms(1) calculation(1) by (cases rule: init_cases) simp_all
  ultimately show ?thesis using check_settings_iff by blast
qed

section \<open>Modules run once, with their settings, and stop in reverse\<close>

text \<open>The setting of a module in a process: the one of its type with this process id.\<close>

definition chosen :: "('m, 'v) mod_env \<Rightarrow> 'v mod_conf \<Rightarrow> string \<Rightarrow> 'm \<Rightarrow> 'v module_settings option" where
  "chosen E conf pid m = Option.bind (map_of conf (GetType E m)) (find (\<lambda>s. ProcessID s = pid))"

lemma fold_use_none: "\<forall>s \<in> set ss. ProcessID s \<noteq> pid \<Longrightarrow> fold (use_setting pid r) ss mer = mer"
  by (induction ss arbitrary: mer) (auto simp: use_setting_def)

lemma fold_use_setting:
  "distinct (map ProcessID ss) \<Longrightarrow>
   fold (use_setting pid r) ss mer = (case find (\<lambda>s. ProcessID s = pid) ss of None \<Rightarrow> mer | Some s \<Rightarrow> use_setting pid r s mer)"
proof (induction ss arbitrary: mer)
  case (Cons s ss)
  show ?case
  proof (cases "ProcessID s = pid")
    case True
    then have "\<forall>s' \<in> set ss. ProcessID s' \<noteq> pid" using Cons.prems by (auto simp: image_iff)
    with True show ?thesis by (simp add: fold_use_none)
  next
    case False
    then have "use_setting pid r s mer = mer" by (simp add: use_setting_def)
    with False Cons show ?thesis by simp
  qed
qed simp

lemma match_module_chosen:
  assumes "settings_rule conf"
  shows "match_module E conf pid r mer =
    (case chosen E conf pid (mi (agents mer ! r)) of
       None \<Rightarrow> mer
     | Some s \<Rightarrow> mer\<lparr>runMods := runMods mer @ [r], agents := (agents mer)[r := (agents mer ! r)\<lparr>settings := Some s\<rparr>]\<rparr>)"
proof (cases "map_of conf (GetType E (mi (agents mer ! r)))")
  case (Some ss)
  then have "distinct (map ProcessID ss)" using assms map_of_SomeD by (fastforce simp: settings_rule_def)
  moreover have "find (\<lambda>s. ProcessID s = pid) ss = Some s \<Longrightarrow> ProcessID s = pid" for s
    by (auto simp: find_Some_iff)
  ultimately show ?thesis
    by (cases "find (\<lambda>s. ProcessID s = pid) ss")
      (simp_all add: match_module_def chosen_def Some fold_use_setting use_setting_def)
qed (simp add: match_module_def chosen_def)

lemma fold_match:
  assumes "settings_rule conf" "distinct ms" "set ms \<subseteq> {..<length (agents mer)}"
  shows "runMods (fold (match_module E conf pid) ms mer) =
      runMods mer @ filter (\<lambda>r. chosen E conf pid (mi (agents mer ! r)) \<noteq> None) ms \<and>
    length (agents (fold (match_module E conf pid) ms mer)) = length (agents mer) \<and>
    (\<forall>q < length (agents mer). agents (fold (match_module E conf pid) ms mer) ! q =
      (case chosen E conf pid (mi (agents mer ! q)) of
         Some s \<Rightarrow> if q \<in> set ms then (agents mer ! q)\<lparr>settings := Some s\<rparr> else agents mer ! q
       | None \<Rightarrow> agents mer ! q))"
  using assms(2,3)
proof (induction ms arbitrary: mer)
  case (Cons r ms)
  let ?mer = "match_module E conf pid r mer"
  have len: "length (agents ?mer) = length (agents mer)"
    and other: "q \<noteq> r \<Longrightarrow> agents ?mer ! q = agents mer ! q"
    and same: "mi (agents ?mer ! q) = mi (agents mer ! q)" for q
    using Cons.prems(2) by (auto simp: match_module_chosen[OF assms(1)] nth_list_update split: option.splits)
  have IH: "runMods (fold (match_module E conf pid) ms ?mer) =
      runMods ?mer @ filter (\<lambda>r. chosen E conf pid (mi (agents ?mer ! r)) \<noteq> None) ms"
    "length (agents (fold (match_module E conf pid) ms ?mer)) = length (agents ?mer)"
    "\<And>q. q < length (agents ?mer) \<Longrightarrow> agents (fold (match_module E conf pid) ms ?mer) ! q =
      (case chosen E conf pid (mi (agents ?mer ! q)) of
         Some s \<Rightarrow> if q \<in> set ms then (agents ?mer ! q)\<lparr>settings := Some s\<rparr> else agents ?mer ! q
       | None \<Rightarrow> agents ?mer ! q)"
    using Cons.IH[of ?mer] Cons.prems len by simp_all
  have here: "agents ?mer ! r = (case chosen E conf pid (mi (agents mer ! r)) of
      Some s \<Rightarrow> (agents mer ! r)\<lparr>settings := Some s\<rparr> | None \<Rightarrow> agents mer ! r)"
    using Cons.prems(2) by (auto simp: match_module_chosen[OF assms(1)] split: option.splits)
  have run: "runMods ?mer = runMods mer @ (if chosen E conf pid (mi (agents mer ! r)) \<noteq> None then [r] else [])"
    by (auto simp: match_module_chosen[OF assms(1)] split: option.splits)
  show ?case
  proof (intro conjI allI impI)
    fix q assume q: "q < length (agents mer)"
    show "agents (fold (match_module E conf pid) (r # ms) mer) ! q =
      (case chosen E conf pid (mi (agents mer ! q)) of
         Some s \<Rightarrow> if q \<in> set (r # ms) then (agents mer ! q)\<lparr>settings := Some s\<rparr> else agents mer ! q
       | None \<Rightarrow> agents mer ! q)"
    proof (cases "q = r")
      case True
      then have "q \<notin> set ms" using Cons.prems(1) by simp
      with True q len show ?thesis by (simp add: IH(3) same here split: option.splits)
    next
      case False
      with q len IH(3)[of q] other[OF False] show ?thesis by (simp split: option.splits)
    qed
  qed (simp_all add: IH(1,2) len run same)
qed (auto split: option.splits)

definition is_run :: "'v mod_event \<Rightarrow> bool" where
  "is_run e \<longleftrightarrow> (case e of ERun _ \<Rightarrow> True | _ \<Rightarrow> False)"

lemma run_trace: "filter is_run (concat (map (init_trace as b) rs)) = (if b then map ERun rs else [])"
  by (induction rs) (auto simp: init_trace_def is_run_def)

lemma run_ERun [simp]: "filter is_run (map ERun rs) = map ERun rs"
  by (induction rs) (auto simp: is_run_def)

definition stop_trace :: "nat \<Rightarrow> 'v mod_event list" where
  "stop_trace r = [EClose r, EDone r, EDestroy r]"

lemma destroy_all_stops:
  assumes "distinct rs" "\<forall>r \<in> set rs. \<not> closeSig (agents mer ! r)" "\<forall>m. Run E m = Ret ()" "\<forall>m. OnDestroy E m \<noteq> Hang"
  shows "fst (destroy_all E rs mer) = concat (map stop_trace rs) \<and> (\<exists>mer'. snd (destroy_all E rs mer) = Ret mer')"
  using assms(1,2)
proof (induction rs arbitrary: mer)
  case (Cons r rs)
  let ?a = "agents mer ! r"
  let ?mer = "mer\<lparr>agents := (agents mer)[r := ?a\<lparr>closeSig := \<not> takes_signal E (mi ?a)\<rparr>]\<rparr>"
  have stop: "destroy_mod E ?a = Ret ()" "run_mod E ?a = Ret ()"
    using assms(3,4) by (auto simp: destroy_mod_def run_mod_def split: outcome.splits)
  have "\<forall>q \<in> set rs. \<not> closeSig (agents ?mer ! q)"
    using Cons.prems by (auto, metis nth_list_update_neq)
  with Cons.IH[of ?mer] Cons.prems stop show ?case
    by (simp add: Let_def hook_def stop_trace_def)
qed simp

text \<open>Every module of the process runs exactly once, with its settings, and the modules stop in
  the reverse order. After a successful \<open>Init\<close> of a manager the running modules are the ones
  registered to run and then, in the order of registration, those whose type has a setting for this
  process; their goroutines were started once each in that order, and each has that setting. If the
  goroutines end when they are told to, \<open>Destroy\<close> returns, having signalled, awaited and destroyed
  each of them, the last one first, even if the destructors panic.
\<close>

theorem modules_run_once_and_stop_in_reverse:
  assumes "registered mer" "mgr_Init E conf conf pid mer = (es, Ret mer')"
    and "\<forall>m. Run E m = Ret ()" "\<forall>m. OnDestroy E m \<noteq> Hang"
  shows "runMods mer' = runMods mer @ filter (\<lambda>r. chosen E conf pid (mi (agents mer ! r)) \<noteq> None) (mods mer) \<and>
    filter is_run es = map ERun (runMods mer') \<and> distinct (runMods mer') \<and>
    (\<forall>r \<in> set (mods mer). settings (agents mer' ! r) = chosen E conf pid (mi (agents mer ! r))) \<and>
    fst (mgr_Destroy E mer') = concat (map stop_trace (rev (runMods mer'))) \<and>
    (\<exists>mer''. snd (mgr_Destroy E mer') = Ret mer'')"
  using assms(2)
proof (cases rule: init_cases)
  case started
  note wf = registered_wf[OF assms(1)]
  have mer': "mer' = fold (match_module E conf pid) (mods mer) mer" using started(1) by simp
  have rule: "settings_rule conf" using started(2) check_settings_iff by blast
  have ms: "distinct (mods mer)" "set (mods mer) \<subseteq> {..<length (agents mer)}" using wf by auto
  note F = fold_match[OF rule ms, of E pid, folded mer']
  have run: "runMods mer' = runMods mer @ filter (\<lambda>r. chosen E conf pid (mi (agents mer ! r)) \<noteq> None) (mods mer)"
    using F by blast
  have agent: "agents mer' ! q = (case chosen E conf pid (mi (agents mer ! q)) of
         Some s \<Rightarrow> if q \<in> set (mods mer) then (agents mer ! q)\<lparr>settings := Some s\<rparr> else agents mer ! q
       | None \<Rightarrow> agents mer ! q)" if "q < length (agents mer)" for q using F that by blast
  have fresh: "settings (agents mer ! q) = None" "\<not> closeSig (agents mer ! q)" if "q < length (agents mer)" for q
    using wf that by simp_all
  have dist: "distinct (runMods mer')" using wf unfolding run by auto
  have set: "\<forall>r \<in> set (mods mer). settings (agents mer' ! r) = chosen E conf pid (mi (agents mer ! r))"
    using ms(2) fresh(1) by (auto simp: agent subset_iff split: option.splits)
  have "\<not> closeSig (agents mer' ! r)" if "r \<in> set (runMods mer')" for r
  proof -
    have "r < length (agents mer)" using that wf unfolding run by auto
    then show ?thesis using fresh(2) by (auto simp: agent split: option.splits)
  qed
  then have stop: "fst (mgr_Destroy E mer') = concat (map stop_trace (rev (runMods mer'))) \<and>
      (\<exists>mer''. snd (mgr_Destroy E mer') = Ret mer'')"
    unfolding mgr_Destroy_def using destroy_all_stops[of "rev (runMods mer')" mer' E] dist assms(3,4) by simp
  have "filter is_run es = map ERun (runMods mer')"
    using started(3) run unfolding mer'[symmetric] by (simp add: run_trace)
  with run dist set stop show ?thesis by blast
qed simp

definition demo_hooks :: "(string, unit) mod_env" where
  "demo_hooks = \<lparr>GetType = (\<lambda>m. m), OnInit = (\<lambda>_ _. Ret ()), GetModuleInited = None, OnReady = (\<lambda>_. Ret ()),
     Run = (\<lambda>_. Ret ()), takes_signal = (\<lambda>_. True), OnDestroy = (\<lambda>m. if m = ''Gate'' then Panic ''late'' else Ret ())\<rparr>"

definition demo_setting :: "string \<Rightarrow> string \<Rightarrow> unit module_settings" where
  "demo_setting i p = \<lparr>ID = i, Host = [], ProcessID = p, Settings = Map.empty\<rparr>"

definition demo_conf :: "unit mod_conf" where
  "demo_conf = [(''Gate'', [demo_setting ''g1'' ''dev'', demo_setting ''g2'' ''pub'']), (''Chat'', [demo_setting ''c1'' ''pub''])]"

definition demo_manager :: "(string, unit) module_manager" where
  "demo_manager = mgr_Register ''Chat'' (mgr_Register ''Gate'' (RegisterRunMod ''Timer'' NewModuleManager))"

lemmas demo_manager_simps = demo_hooks_def demo_setting_def demo_conf_def demo_manager_def NewModuleManager_def
  mgr_Register_def RegisterRunMod_def mgr_Init_def CheckModuleSettings_def match_module_def use_setting_def
  init_one_def hook_def Let_def

definition demo_started :: "(string, unit) module_manager" where
  "demo_started = demo_manager\<lparr>runMods := [0, 1],
     agents := (agents demo_manager)[1 := \<lparr>mi = ''Gate'', settings = Some (demo_setting ''g1'' ''dev''), closeSig = False\<rparr>]\<rparr>"

lemma demo_init:
  "mgr_Init demo_hooks demo_conf demo_conf ''dev'' demo_manager =
     ([EInit 0 None, EReady 0, ERun 0, EInit 1 (Some (demo_setting ''g1'' ''dev'')), EReady 1, ERun 1], Ret demo_started)"
  by (simp add: demo_manager_simps demo_started_def)

lemma entries_open_after_all_ready_witness:
  "\<exists>mer'. Ret demo_started = Ret mer' \<and> settings_rule demo_conf \<and>
    (\<forall>q \<in> set (runMods demo_manager) \<union> set (drop (length (runMods demo_manager)) (runMods mer')).
       EReady q \<in> set [EInit 0 None, EReady 0, ERun 0, EInit 1 (Some (demo_setting ''g1'' ''dev'')), EReady 1])"
  by (rule entries_open_after_all_ready[OF demo_init, where r = 1 and post = "[]"])
    (simp_all add: demo_manager_def NewModuleManager_def mgr_Register_def RegisterRunMod_def)

lemma modules_run_once_and_stop_in_reverse_witness:
  "settings (agents demo_started ! 1) = chosen demo_hooks demo_conf ''dev'' ''Gate'' \<and>
   fst (mgr_Destroy demo_hooks demo_started) = stop_trace 1 @ stop_trace 0"
proof -
  have reg: "registered demo_manager" unfolding demo_manager_def by (intro registered.intros)
  have ends: "\<forall>m. Run demo_hooks m = Ret ()" "\<forall>m. OnDestroy demo_hooks m \<noteq> Hang" by (simp_all add: demo_hooks_def)
  have "runMods demo_started = [0, 1]" "1 \<in> set (mods demo_manager)" "mi (agents demo_manager ! 1) = ''Gate''"
    by (simp_all add: demo_started_def demo_manager_def NewModuleManager_def mgr_Register_def RegisterRunMod_def)
  then show ?thesis
    using modules_run_once_and_stop_in_reverse[OF reg demo_init ends] by simp
qed

end
