(* ===== verification/Gate_Module.thy ===== *)
theory Gate_Module
  imports Gate_Handler Rpc_Server Ws_Server Module_Manager
begin

text \<open>
  The gate as a module (\<^verbatim>\<open>src/gate/base/mqtt_gate.go\<close>, \<^verbatim>\<open>src/gate/options.go\<close>): its options with the settings of
  the configuration, the functions it registers for the sessions, and \<open>Run\<close>, which holds the listeners.
\<close>

section \<open>Options and settings\<close>

record gate_options =
  gto_ConcurrentTasks :: int
  gto_BufSize :: int
  gto_MaxPackSize :: int
  gto_TLS :: bool
  gto_TCPAddr :: string
  gto_WsAddr :: string
  gto_CertFile :: string
  gto_KeyFile :: string
  gto_Heartbeat :: int
  gto_OverTime :: int

definition gate_NewOptions :: "(gate_options \<Rightarrow> gate_options) list \<Rightarrow> gate_options" where
  "gate_NewOptions opts =
     fold (\<lambda>o'. o') opts
       \<lparr>gto_ConcurrentTasks = 20, gto_BufSize = 2048, gto_MaxPackSize = 65535, gto_TLS = False, gto_TCPAddr = [], gto_WsAddr = [],
        gto_CertFile = [], gto_KeyFile = [], gto_Heartbeat = 60 * 10 ^ 9, gto_OverTime = 10 * 10 ^ 9\<rparr>"

text \<open>Values of a configuration file; a type assertion panics on a value of another type.\<close>

datatype conf_value = CV_string string | CV_bool bool | CV_other

definition string_setting :: "(string \<rightharpoonup> conf_value) \<Rightarrow> string \<Rightarrow> string \<Rightarrow> string outcome" where
  "string_setting conf k given =
     (if given \<noteq> [] then Ret given
      else case conf k of
        None \<Rightarrow> Ret []
      | Some (CV_string v) \<Rightarrow> Ret v
      | Some _ \<Rightarrow> Panic ''interface conversion: interface {} is not string'')"

definition bool_setting :: "(string \<rightharpoonup> conf_value) \<Rightarrow> string \<Rightarrow> bool \<Rightarrow> bool outcome" where
  "bool_setting conf k given =
     (if given then Ret given
      else case conf k of
        None \<Rightarrow> Ret False
      | Some (CV_bool v) \<Rightarrow> Ret v
      | Some _ \<Rightarrow> Panic ''interface conversion: interface {} is not bool'')"

definition gate_settings :: "(string \<rightharpoonup> conf_value) \<Rightarrow> gate_options \<Rightarrow> gate_options outcome" where
  "gate_settings conf o' =
     outcome_bind (string_setting conf ''WSAddr'' (gto_WsAddr o')) (\<lambda>ws.
     outcome_bind (string_setting conf ''TCPAddr'' (gto_TCPAddr o')) (\<lambda>tcp.
     outcome_bind (bool_setting conf ''TLS'' (gto_TLS o')) (\<lambda>tls.
     outcome_bind (string_setting conf ''CertFile'' (gto_CertFile o')) (\<lambda>cert.
     outcome_bind (string_setting conf ''KeyFile'' (gto_KeyFile o')) (\<lambda>key.
       Ret (o'\<lparr>gto_WsAddr := ws, gto_TCPAddr := tcp, gto_TLS := tls, gto_CertFile := cert, gto_KeyFile := key\<rparr>))))))"

section \<open>The functions of a gate\<close>

definition gate_functions :: "string list" where
  "gate_functions = [''Update'', ''Bind'', ''UnBind'', ''Push'', ''Set'', ''Remove'', ''Send'', ''SendBatch'', ''BroadCast'', ''IsConnect'', ''Close'']"

fun register_functions ::
    "(string \<Rightarrow> ('j, 'o, 'v, 'w) FunctionInfo) \<Rightarrow> string list \<Rightarrow> ('j, 'o, 'v, 'w) RPCServer \<Rightarrow> ('j, 'o, 'v, 'w) RPCServer outcome" where
  "register_functions fns [] s = Ret s"
| "register_functions fns (f # fs) s = outcome_bind (rpc_RegisterGO f (fns f) s) (register_functions fns fs)"

text \<open>\<open>OnInit\<close> after that of the base module, which has made the server; \<open>fns\<close> are the methods of the handler.\<close>

definition gate_OnInit ::
    "(string \<rightharpoonup> conf_value) \<Rightarrow> (gate_options \<Rightarrow> gate_options) list \<Rightarrow> (string \<Rightarrow> ('j, 'o, 'v, 'w) FunctionInfo) \<Rightarrow>
     'st \<Rightarrow> ('j, 'o, 'v, 'w) RPCServer \<Rightarrow> (gate_options \<times> 'st handler \<times> ('j, 'o, 'v, 'w) RPCServer) outcome" where
  "gate_OnInit conf opts fns st s =
     outcome_bind (gate_settings conf (gate_NewOptions opts)) (\<lambda>o'.
     outcome_bind (register_functions fns gate_functions s) (\<lambda>s. Ret (o', NewGateHandler st, s)))"

lemma register_functions_ok:
  "distinct fs \<Longrightarrow> \<forall>f \<in> set fs. rs_functions s f = None \<Longrightarrow>
   \<exists>s'. register_functions fns fs s = Ret s' \<and>
     rs_functions s' = (\<lambda>f. if f \<in> set fs then Some ((fns f)\<lparr>Goroutine := True\<rparr>) else rs_functions s f)"
proof (induction fs arbitrary: s)
  case (Cons f fs)
  let ?s = "s\<lparr>rs_functions := (rs_functions s)(f \<mapsto> (fns f)\<lparr>Goroutine := True\<rparr>)\<rparr>"
  have "rpc_RegisterGO f (fns f) s = Ret ?s" using Cons.prems(2) by (simp add: rpc_RegisterGO_def register_with_def)
  moreover obtain s' where "register_functions fns fs ?s = Ret s'"
      "rs_functions s' = (\<lambda>g. if g \<in> set fs then Some ((fns g)\<lparr>Goroutine := True\<rparr>) else rs_functions ?s g)"
  proof -
    have "\<forall>g \<in> set fs. rs_functions ?s g = None" using Cons.prems by auto
    with Cons.IH[of ?s] Cons.prems(1) that show thesis by auto
  qed
  ultimately show ?case using Cons.prems(1) by (auto simp: fun_eq_iff)
qed simp

text \<open>
  A gate starts with exactly the functions of its handler, each run in a goroutine of its own; what its
  options leave empty is taken from the settings, and what they give is not changed.
\<close>

theorem gate_starts_with_handler:
  assumes "gate_OnInit conf opts fns st (NewRPCServer w) = Ret (o', h, s)"
  shows "dom (rs_functions s) = set gate_functions \<and> (\<forall>f \<in> set gate_functions. rs_functions s f = Some ((fns f)\<lparr>Goroutine := True\<rparr>)) \<and>
    sessions h = [] \<and>
    (gto_TCPAddr (gate_NewOptions opts) \<noteq> [] \<longrightarrow> gto_TCPAddr o' = gto_TCPAddr (gate_NewOptions opts)) \<and>
    (\<forall>a. gto_TCPAddr (gate_NewOptions opts) = [] \<and> conf ''TCPAddr'' = Some (CV_string a) \<longrightarrow> gto_TCPAddr o' = a) \<and>
    (gto_WsAddr (gate_NewOptions opts) \<noteq> [] \<longrightarrow> gto_WsAddr o' = gto_WsAddr (gate_NewOptions opts)) \<and>
    (\<forall>a. gto_WsAddr (gate_NewOptions opts) = [] \<and> conf ''WSAddr'' = Some (CV_string a) \<longrightarrow> gto_WsAddr o' = a) \<and>
    (gto_TLS (gate_NewOptions opts) \<longrightarrow> gto_TLS o')"
proof -
  have given: "gate_settings conf (gate_NewOptions opts) = Ret o'" "register_functions fns gate_functions (NewRPCServer w) = Ret s"
      "h = NewGateHandler st"
    using assms by (auto simp: gate_OnInit_def outcome_bind_Ret_iff)
  have "distinct gate_functions" by (simp add: gate_functions_def)
  have fresh: "rs_functions (NewRPCServer w) f = None" for f by (simp add: NewRPCServer_def)
  from register_functions_ok[OF \<open>distinct gate_functions\<close>, of "NewRPCServer w" fns] given(2)
  have "rs_functions s = (\<lambda>f. if f \<in> set gate_functions then Some ((fns f)\<lparr>Goroutine := True\<rparr>) else None)"
    by (simp add: fresh fun_eq_iff)
  moreover have "string_setting conf ''TCPAddr'' (gto_TCPAddr (gate_NewOptions opts)) = Ret (gto_TCPAddr o')"
    "string_setting conf ''WSAddr'' (gto_WsAddr (gate_NewOptions opts)) = Ret (gto_WsAddr o')"
    "bool_setting conf ''TLS'' (gto_TLS (gate_NewOptions opts)) = Ret (gto_TLS o')"
    using given(1) by (auto simp: gate_settings_def outcome_bind_Ret_iff)
  ultimately show ?thesis
    using given(3) by (auto simp: NewGateHandler_def string_setting_def bool_setting_def dom_def split: if_splits)
qed

section \<open>Run\<close>

text \<open>What listening on an address and loading the certificates answer.\<close>

record listen_env =
  le_listen :: "string \<Rightarrow> go_error option"
  le_load :: "string \<Rightarrow> string \<Rightarrow> go_error option"

datatype gate_event = Ws_started | Tcp_started | Close_signal | Agents_closed "gate_agent list" | Ws_closed | Tcp_closed

definition started :: "'s outcome \<Rightarrow> unit outcome" where
  "started out = outcome_bind out (\<lambda>_. Ret ())"

definition gate_Run :: "listen_env \<Rightarrow> gate_options \<Rightarrow> 'st handler \<Rightarrow> (gate_event, 'st handler) traced" where
  "gate_Run L o' h =
     (let ws = (gto_WsAddr o' \<noteq> []); tcp = (gto_TCPAddr o' \<noteq> []); load = le_load L (gto_CertFile o') (gto_KeyFile o')
      in then_do (if ws then hook (started (ws_Start (le_listen L (gto_WsAddr o')) (30 * 10 ^ 9) True (gto_TLS o') load)) [Ws_started]
                  else ([], Ret ())) (\<lambda>_.
         then_do (if tcp then hook (started (tcp_init (le_listen L (gto_TCPAddr o')) True (gto_TLS o') load)) [Tcp_started]
                  else ([], Ret ())) (\<lambda>_.
         then_do ([Close_signal], Ret ()) (\<lambda>_.
           let (closed, h) = handler_OnDestroy h
           in (Agents_closed closed # (if ws then [Ws_closed] else []) @ (if tcp then [Tcp_closed] else []), Ret h)))))"

text \<open>
  A gate that stops has closed the agent of every session and forgotten them, and has closed every listener
  it had opened, but the agents first: a client that connects in between is not closed, and the listener
  waits for it.
\<close>

theorem gate_stops_clean:
  assumes "gate_Run L o' h = (es, Ret h')"
  shows "sessions h' = [] \<and> Agents_closed (map (agent_Close \<circ> snd) (sessions h)) \<in> set es \<and>
    (Ws_started \<in> set es \<longleftrightarrow> Ws_closed \<in> set es) \<and> (Tcp_started \<in> set es \<longleftrightarrow> Tcp_closed \<in> set es) \<and>
    (Tcp_started \<in> set es \<longleftrightarrow> gto_TCPAddr o' \<noteq> [])"
  using assms by (auto simp: gate_Run_def Let_def then_do_Ret hook_Ret handler_OnDestroy_def split: if_splits)

end
