(* ===== verification/Utils_Codec.thy ===== *)
theory Utils_Codec
  imports Ip_Tool
begin

text \<open>
  The encodings of the tool box: numbers in base 62 (\<^verbatim>\<open>src/utils/base62.go\<close>), identifiers as hexadecimal
  strings and their generator (\<^verbatim>\<open>src/utils/id.go\<close>), and strings encrypted with AES in CFB mode
  (\<^verbatim>\<open>src/utils/aes/aes_encrypt.go\<close>). The block cipher is a parameter, of which only the block size is used.
\<close>

section \<open>Base 62\<close>

definition CODE62 :: string where
  "CODE62 = ''0123456789abcdefghijklmnopqrstuvwxyzABCDEFGHIJKLMNOPQRSTUVWXYZ''"

definition CodeLenth :: int where
  "CodeLenth = 62"

text \<open>A character that is not in the map reads as zero.\<close>

definition EDOC :: "char \<Rightarrow> int" where
  "EDOC c = (case map_of (zip CODE62 [0..<62]) c of Some k \<Rightarrow> int k | None \<Rightarrow> 0)"

function base62_loop :: "int \<Rightarrow> string" where
  "base62_loop number =
     (if number > 0 then CODE62 ! nat (number mod CodeLenth) # base62_loop (number div CodeLenth) else [])"
  by auto
termination by (relation "measure nat") (auto simp: CodeLenth_def)

declare base62_loop.simps [simp del]

definition IntToBase62 :: "int \<Rightarrow> string" where
  "IntToBase62 number = (if number = 0 then ''0'' else base62_loop number)"

text \<open>
  \<open>int64(math.Pow(62, i))\<close>: exact as long as it fits, for a larger power what the platform makes of a float
  that is out of range.
\<close>

definition pow62 :: "(nat \<Rightarrow> 64 word) \<Rightarrow> nat \<Rightarrow> 64 word" where
  "pow62 out_of_range i = (if i \<le> 10 then 62 ^ i else out_of_range i)"

fun base62_sum :: "(nat \<Rightarrow> 64 word) \<Rightarrow> nat \<Rightarrow> string \<Rightarrow> 64 word \<Rightarrow> 64 word" where
  "base62_sum P index [] result = result"
| "base62_sum P index (c # cs) result = base62_sum P (Suc index) cs (result + of_int (EDOC c) * pow62 P index)"

definition Base62ToInt :: "(nat \<Rightarrow> 64 word) \<Rightarrow> string \<Rightarrow> 64 word" where
  "Base62ToInt P str = base62_sum P 0 (TrimSpace str) 0"

section \<open>Identifiers\<close>

definition ID_String :: "64 word \<Rightarrow> string" where
  "ID_String i = map (\<lambda>k. hex_digit (unat (drop_bit (4 * k) i AND 15))) (rev [0..<16])"

text \<open>\<open>strconv.ParseUint(s, 16, 64)\<close>, an error being None.\<close>

fun hex_number :: "nat \<Rightarrow> string \<Rightarrow> nat option" where
  "hex_number acc [] = Some acc"
| "hex_number acc (c # cs) = (case hex_value c of None \<Rightarrow> None | Some d \<Rightarrow> hex_number (16 * acc + d) cs)"

definition ParseID :: "string \<Rightarrow> 64 word option" where
  "ParseID s =
     (if s = [] then None
      else case hex_number 0 s of Some n \<Rightarrow> if n < 2 ^ 64 then Some (of_nat n) else None | None \<Rightarrow> None)"

text \<open>JSON for a string and for an unsigned integer are parameters.\<close>

definition ID_MarshalJSON :: "(string \<Rightarrow> go_error + bytes) \<Rightarrow> 64 word \<Rightarrow> go_error + bytes" where
  "ID_MarshalJSON marshal i = marshal (ID_String i)"

definition parseJSONString :: "(bytes \<Rightarrow> string option) \<Rightarrow> bytes \<Rightarrow> 64 word option" where
  "parseJSONString json_string data = (case json_string data of None \<Rightarrow> None | Some s \<Rightarrow> ParseID s)"

definition parseJSONInt :: "(bytes \<Rightarrow> 64 word option) \<Rightarrow> bytes \<Rightarrow> 64 word option" where
  "parseJSONInt json_uint data = json_uint data"

definition ID_UnmarshalJSON ::
    "(bytes \<Rightarrow> string option) \<Rightarrow> (bytes \<Rightarrow> 64 word option) \<Rightarrow> bytes \<Rightarrow> go_error + 64 word" where
  "ID_UnmarshalJSON json_string json_uint data =
     (case parseJSONString json_string data of
        Some i \<Rightarrow> Inr i
      | None \<Rightarrow>
          (case parseJSONInt json_uint data of
             Some i \<Rightarrow> Inr i
           | None \<Rightarrow> Inl (Errorf ''%s is not a valid ID'' [AS (str_of_bytes data)])))"

text \<open>The generator: a counter of sixteen bytes, the block it was encrypted to, and the position in the block.\<close>

record id_state =
  id_ctr :: bytes
  id_n :: nat
  id_b :: bytes

definition id_init :: "bytes \<Rightarrow> id_state" where
  "id_init seed = \<lparr>id_ctr = drop 16 seed, id_n = 16, id_b = replicate 16 0\<rparr>"

text \<open>The increment, from the last byte to the first as long as there is a carry.\<close>

fun inc_rev :: "bytes \<Rightarrow> bytes" where
  "inc_rev [] = []"
| "inc_rev (x # xs) = (if x + 1 \<noteq> 0 then (x + 1) # xs else (x + 1) # inc_rev xs)"

definition inc_ctr :: "bytes \<Rightarrow> bytes" where
  "inc_ctr ctr = rev (inc_rev (rev ctr))"

text \<open>The identifier as the eight bytes it is read from.\<close>

definition GenerateID :: "(bytes \<Rightarrow> bytes) \<Rightarrow> id_state \<Rightarrow> bytes \<times> id_state" where
  "GenerateID encrypt st =
     (let st = (if id_n st = 16 then st\<lparr>id_b := encrypt (id_ctr st), id_ctr := inc_ctr (id_ctr st), id_n := 0\<rparr> else st)
      in (take 8 (drop (id_n st) (id_b st)), st\<lparr>id_n := id_n st + 8\<rparr>))"

section \<open>Encrypted strings\<close>

definition NewAesEncrypt :: "string \<Rightarrow> go_error + string" where
  "NewAesEncrypt key =
     (if length key < 16 then Inl (Errorf ''The length of res key shall not be less than 16'' []) else Inr key)"

definition getKey :: "string \<Rightarrow> bytes outcome" where
  "getKey strKey =
     (let keyLen = length strKey; arrKey = bytes_of_str strKey
      in if keyLen < 16 then Panic ''The length of res key shall not be less than 16''
         else if keyLen \<ge> 32 then Ret (take 32 arrKey)
         else if keyLen \<ge> 24 then Ret (take 24 arrKey)
         else Ret (take 16 arrKey))"

text \<open>The stream of CFB over a cipher with blocks of sixteen bytes.\<close>

function cfb_encrypt :: "(bytes \<Rightarrow> bytes) \<Rightarrow> bytes \<Rightarrow> bytes \<Rightarrow> bytes" where
  "cfb_encrypt E iv src =
     (if src = [] then []
      else let out = map2 (XOR) (E iv) (take 16 src) in out @ cfb_encrypt E out (drop 16 src))"
  by auto
termination by (relation "measure (\<lambda>(_, _, src). length src)") auto

function cfb_decrypt :: "(bytes \<Rightarrow> bytes) \<Rightarrow> bytes \<Rightarrow> bytes \<Rightarrow> bytes" where
  "cfb_decrypt E iv src =
     (if src = [] then []
      else map2 (XOR) (E iv) (take 16 src) @ cfb_decrypt E (take 16 src) (drop 16 src))"
  by auto
termination by (relation "measure (\<lambda>(_, _, src). length src)") auto

declare cfb_encrypt.simps [simp del] cfb_decrypt.simps [simp del]

text \<open>The keys \<open>getKey\<close> returns have a length AES accepts, so \<open>NewCipher\<close> does not fail.\<close>

definition aes_Encrypt :: "(bytes \<Rightarrow> bytes \<Rightarrow> bytes) \<Rightarrow> string \<Rightarrow> string \<Rightarrow> bytes outcome" where
  "aes_Encrypt aes strKey strMesg =
     outcome_bind (getKey strKey) (\<lambda>key. Ret (cfb_encrypt (aes key) (take 16 key) (bytes_of_str strMesg)))"

text \<open>The deferred function takes the panic of \<open>getKey\<close> for an error; it is a string, so that this panics again.\<close>

definition aes_Decrypt :: "(bytes \<Rightarrow> bytes \<Rightarrow> bytes) \<Rightarrow> string \<Rightarrow> bytes \<Rightarrow> string outcome" where
  "aes_Decrypt aes strKey src =
     (case getKey strKey of
        Ret key \<Rightarrow> Ret (str_of_bytes (cfb_decrypt (aes key) (take 16 key) src))
      | Panic _ \<Rightarrow> Panic ''interface conversion: interface {} is string, not error''
      | Hang \<Rightarrow> Hang)"

section \<open>Reading back what was written\<close>

lemma map2_xor_xor: "length ys \<le> length xs \<Longrightarrow> map2 (XOR) xs (map2 (XOR) xs ys) = ys" for xs ys :: bytes
proof (induction ys arbitrary: xs)
  case (Cons y ys)
  then show ?case by (cases xs) (simp_all add: xor.assoc[symmetric])
qed simp

lemma cfb_decrypt_step:
  "take 16 s = out \<Longrightarrow> drop 16 s = rest \<Longrightarrow> s \<noteq> [] \<Longrightarrow> cfb_decrypt E iv s = map2 (XOR) (E iv) out @ cfb_decrypt E out rest"
  by (subst cfb_decrypt.simps) simp

lemma cfb_roundtrip:
  assumes "\<forall>x. length (E x) = 16"
  shows "cfb_decrypt E iv (cfb_encrypt E iv src) = src \<and> length (cfb_encrypt E iv src) = length src"
  using assms
proof (induction E iv src rule: cfb_encrypt.induct)
  case (1 E iv src)
  show ?case
  proof (cases "src = []")
    case False
    let ?out = "map2 (XOR) (E iv) (take 16 src)" and ?rest = "cfb_encrypt E (map2 (XOR) (E iv) (take 16 src)) (drop 16 src)"
    have len: "length ?out = min 16 (length src)" using 1(2) by simp
    have enc: "cfb_encrypt E iv src = ?out @ ?rest" using False by (simp add: cfb_encrypt.simps[of E iv src] Let_def)
    have "take 16 (?out @ ?rest) = ?out \<and> drop 16 (?out @ ?rest) = ?rest"
    proof (cases "length src < 16")
      case True
      then show ?thesis using len by (simp add: cfb_encrypt.simps)
    qed (use len in auto)
    moreover have "length ?out > 0" unfolding len using False by simp
    then have "?out @ ?rest \<noteq> []" by (metis append_is_Nil_conv length_greater_0_conv)
    ultimately have "cfb_decrypt E iv (?out @ ?rest) = map2 (XOR) (E iv) ?out @ cfb_decrypt E ?out ?rest"
      by (intro cfb_decrypt_step) blast+
    also have "\<dots> = take 16 src @ drop 16 src"
      using 1(1)[OF False refl 1(2)] map2_xor_xor[of "take 16 src" "E iv"] 1(2) by simp
    finally have "cfb_decrypt E iv (cfb_encrypt E iv src) = src" using enc by simp
    moreover have "length (cfb_encrypt E iv src) = length src" using enc len 1(1)[OF False refl 1(2)] by simp
    ultimately show ?thesis ..
  qed (simp add: cfb_encrypt.simps cfb_decrypt.simps)
qed

text \<open>what was encrypted is decrypted with the same key. Whatever the block cipher is, as long as its blocks
  have sixteen bytes: with a key that \<open>NewAesEncrypt\<close> accepts, encrypting a string returns as many bytes as
  it has and decrypting these returns the string.\<close>

theorem encrypted_text_decrypts:
  assumes "\<forall>k x. length (aes k x) = 16" "NewAesEncrypt key = Inr strKey"
  shows "\<exists>c. aes_Encrypt aes strKey m = Ret c \<and> length c = length m \<and> aes_Decrypt aes strKey c = Ret m"
proof -
  have "\<exists>k. getKey strKey = Ret k" using assms(2) by (auto simp: NewAesEncrypt_def getKey_def Let_def split: if_splits)
  then obtain k where k: "getKey strKey = Ret k" by blast
  show ?thesis
    using cfb_roundtrip[of "aes k" "take 16 k" "bytes_of_str m"] assms(1) by (simp add: aes_Encrypt_def aes_Decrypt_def k)
qed

theorem encrypted_text_decrypts_witness:
  "\<exists>c. aes_Encrypt (\<lambda>k x. replicate 16 (hd x)) ''0123456789abcdef'' ''hello'' = Ret c \<and> length c = 5 \<and>
     aes_Decrypt (\<lambda>k x. replicate 16 (hd x)) ''0123456789abcdef'' c = Ret ''hello''"
  using encrypted_text_decrypts[of "\<lambda>k x. replicate 16 (hd x)" "''0123456789abcdef''" "''0123456789abcdef''" "''hello''"]
  by (auto simp: NewAesEncrypt_def)

text \<open>
  The key gives the initialisation vector too, so the first block of every message is combined with the same
  bytes: two ciphertexts show the difference of their first blocks.
\<close>

lemma first_blocks_leak:
  assumes "\<forall>k x. length (aes k x) = 16" "aes_Encrypt aes strKey m = Ret c" "aes_Encrypt aes strKey m' = Ret c'"
    "length m = 16" "length m' = 16"
  shows "map2 (XOR) c c' = map2 (XOR) (bytes_of_str m) (bytes_of_str m')"
proof -
  obtain k where k: "getKey strKey = Ret k" using assms(2) by (auto simp: aes_Encrypt_def outcome_bind_Ret_iff)
  have one: "cfb_encrypt E iv src = map2 (XOR) (E iv) src" if "length src = 16" for E iv src
    using that by (subst cfb_encrypt.simps) (auto simp: cfb_encrypt.simps Let_def)
  have "c = map2 (XOR) (aes k (take 16 k)) (bytes_of_str m)" "c' = map2 (XOR) (aes k (take 16 k)) (bytes_of_str m')"
    using assms(2-5) by (simp_all add: aes_Encrypt_def k one)
  moreover have "map2 (XOR) (map2 (XOR) ks xs) (map2 (XOR) ks ys) = map2 (XOR) xs ys"
    if "length xs = length ks" "length ys = length ks" for ks xs ys :: bytes
    using that
    by (intro nth_equalityI) (simp_all add: xor.assoc xor.left_commute)
  ultimately show ?thesis using assms(1,4,5) by simp
qed

section \<open>Numbers\<close>

lemma EDOC_CODE62: "k < 62 \<Longrightarrow> EDOC (CODE62 ! k) = int k"
proof -
  have "distinct CODE62" "length CODE62 = 62" by code_simp+
  then show "k < 62 \<Longrightarrow> EDOC (CODE62 ! k) = int k" by (simp add: EDOC_def map_of_zip_nth)
qed

lemma base62_loop_length: "n < 62 ^ m \<Longrightarrow> length (base62_loop n) \<le> m"
proof (induction m arbitrary: n)
  case 0
  then show ?case by (simp add: base62_loop.simps)
next
  case (Suc m)
  have "n div 62 < 62 ^ m" using Suc.prems by simp
  then show ?case using Suc.IH[of "n div 62"] by (subst base62_loop.simps) (simp add: CodeLenth_def)
qed

lemma digit_sum: "of_int x * 62 ^ i + of_int (y * 62 ^ Suc i) = (of_int ((x + y * 62) * 62 ^ i) :: 64 word)"
  by (simp add: algebra_simps)

lemma base62_sum_loop:
  "0 \<le> n \<Longrightarrow> length (base62_loop n) + i \<le> 11 \<Longrightarrow> base62_sum P i (base62_loop n) r = r + of_int (n * 62 ^ i)"
proof (induction n arbitrary: i r rule: base62_loop.induct)
  case (1 n)
  show ?case
  proof (cases "n > 0")
    case True
    have loop: "base62_loop n = CODE62 ! nat (n mod 62) # base62_loop (n div 62)"
      using True by (subst base62_loop.simps) (simp add: CodeLenth_def)
    have i: "length (base62_loop (n div 62)) + Suc i \<le> 11" "i \<le> 10" using 1(3) loop by simp_all
    have "base62_sum P i (base62_loop n) r = r + (of_int (n mod 62) * 62 ^ i + of_int (n div 62 * 62 ^ Suc i))"
      using 1(1)[unfolded CodeLenth_def, OF True _ i(1)] 1(2) i(2) EDOC_CODE62[of "nat (n mod 62)"]
      by (simp add: loop pow62_def nat_less_iff add.assoc)
    also have "of_int (n mod 62) * 62 ^ i + of_int (n div 62 * 62 ^ Suc i) = (of_int ((n mod 62 + n div 62 * 62) * 62 ^ i) :: 64 word)"
      by (rule digit_sum)
    finally show ?thesis by (simp only: mod_div_mult_eq)
  qed (use 1 in \<open>simp add: base62_loop.simps\<close>)
qed

text \<open>Every number of 63 bits is read back, however a float out of range is converted.\<close>

theorem base62_roundtrip:
  assumes "0 \<le> n" "n < 2 ^ 63"
  shows "Base62ToInt P (IntToBase62 n) = word_of_int n"
proof (cases "n = 0")
  case True
  have "TrimSpace ''0'' = ''0''" "EDOC CHR ''0'' = 0" by code_simp+
  then show ?thesis using True by (simp add: IntToBase62_def Base62ToInt_def)
next
  case False
  have clean: "\<forall>x \<in> set CODE62. \<not> ascii_space x" by code_simp
  have "set (base62_loop m) \<subseteq> set CODE62" for m
  proof (induction m rule: base62_loop.induct)
    case (1 m)
    have "nat (m mod 62) < length CODE62" by (simp add: CODE62_def nat_less_iff)
    with 1 show ?case by (subst base62_loop.simps) (auto simp: CodeLenth_def)
  qed
  then have "TrimSpace (base62_loop n) = base62_loop n" using clean by (intro TrimSpace_clean) blast
  moreover have "length (base62_loop n) \<le> 11" using assms(2) by (intro base62_loop_length) simp
  ultimately show ?thesis using False base62_sum_loop[OF assms(1), of 0 P 0] by (simp add: IntToBase62_def Base62ToInt_def)
qed

section \<open>Identifiers are read back, and the counter counts\<close>

lemma hex_number_digits:
  "\<forall>d \<in> set ds. d < 16 \<Longrightarrow> hex_number acc (map hex_digit ds) = Some (foldl (\<lambda>a d. 16 * a + d) acc ds)"
  by (induction ds arbitrary: acc) (simp_all add: hex_value_digit)

lemma nibbles_value:
  "foldl (\<lambda>a d. 16 * a + d) 0 (map (\<lambda>k. n div 16 ^ k mod 16) (rev [0..<m])) = n mod 16 ^ m" for n :: nat
proof (induction m arbitrary: n)
  case (Suc m)
  have shift: "rev [0..<Suc m] = map Suc (rev [0..<m]) @ [0]"
    by (simp add: rev_map upt_conv_Cons map_Suc_upt[symmetric] del: upt_Suc)
  have "n div 16 ^ Suc k mod 16 = n div 16 div 16 ^ k mod 16" for k by (simp add: div_mult2_eq)
  then have "map (\<lambda>k. n div 16 ^ k mod 16) (rev [0..<Suc m]) = map (\<lambda>k. n div 16 div 16 ^ k mod 16) (rev [0..<m]) @ [n mod 16]"
    unfolding shift by simp
  then show ?case using Suc.IH[of "n div 16"] by (simp add: mod_mult2_eq)
qed simp

lemma ID_String_nibbles: "ID_String i = map hex_digit (map (\<lambda>k. unat i div 16 ^ k mod 16) (rev [0..<16]))"
proof -
  have "unat (drop_bit (4 * k) i AND 15) = unat i div 16 ^ k mod 16" for k
  proof -
    have "drop_bit (4 * k) i AND 15 = take_bit 4 (drop_bit (4 * k) i)" by (simp add: take_bit_eq_mask mask_eq_exp_minus_1)
    moreover have "unat (take_bit 4 (drop_bit (4 * k) i)) = take_bit 4 (drop_bit (4 * k) (unat i))"
      using unsigned_less[of i, where ?'a = nat] by (simp only: unsigned_take_bit_eq unsigned_drop_bit_eq) (simp add: take_bit_nat_eq_self)
    ultimately show ?thesis by (simp only: take_bit_eq_mod drop_bit_eq_div power_mult) simp
  qed
  then show ?thesis by (simp add: ID_String_def)
qed

theorem id_roundtrip: "ParseID (ID_String i) = Some i"
proof -
  have "hex_number 0 (ID_String i) = Some (unat i mod 16 ^ 16)"
    unfolding ID_String_nibbles using hex_number_digits[of "map (\<lambda>k. unat i div 16 ^ k mod 16) (rev [0..<16])" 0] nibbles_value[of "unat i" 16]
    by simp
  moreover have "unat i < 2 ^ 64" using unsigned_less[of i, where ?'a = nat] by simp
  ultimately have "hex_number 0 (ID_String i) = Some (unat i)" by simp
  moreover have "ID_String i \<noteq> []" by (simp add: ID_String_def)
  ultimately show ?thesis using \<open>unat i < 2 ^ 64\<close> by (simp add: ParseID_def)
qed

fun le_value :: "bytes \<Rightarrow> nat" where
  "le_value [] = 0"
| "le_value (x # xs) = unat x + 256 * le_value xs"

definition ctr_value :: "bytes \<Rightarrow> nat" where
  "ctr_value ctr = le_value (rev ctr)"

lemma le_value_less: "le_value xs < 256 ^ length xs"
proof (induction xs)
  case (Cons x xs)
  have "unat x < 256" using unsigned_less[of x, where ?'a = nat] by simp
  then show ?case using Cons by (simp add: less_mult_imp_div_less) 
qed simp

lemma inc_rev_value: "le_value (inc_rev xs) = (le_value xs + 1) mod 256 ^ length xs \<and> length (inc_rev xs) = length xs"
proof (induction xs)
  case (Cons x xs)
  show ?case
  proof (cases "x + 1 = 0")
    case True
    then have "x = - 1" by (simp add: eq_neg_iff_add_eq_0)
    then have "unat x = 255" by (simp add: unsigned_minus_1_eq_mask mask_eq_exp_minus_1)
    moreover have "256 * ((le_value xs + 1) mod 256 ^ length xs) = (256 + 256 * le_value xs) mod (256 * 256 ^ length xs)"
      using mult_mod_right[of 256 "le_value xs + 1" "256 ^ length xs"] by (simp add: add.commute)
    ultimately show ?thesis using True Cons by simp
  next
    case False
    have next_byte: "unat (x + 1) = unat x + 1" using unatSuc[of x] False by (simp add: add.commute)
    have "le_value (x # xs) + 1 < 256 ^ length (x # xs)"
      using le_value_less[of "(x + 1) # xs"] next_byte by simp
    then show ?thesis using False next_byte by simp
  qed
qed simp

text \<open>The counter of the generator is a number of 128 bits that grows by one and wraps around.\<close>

theorem counter_counts: "length ctr = 16 \<Longrightarrow> ctr_value (inc_ctr ctr) = (ctr_value ctr + 1) mod 2 ^ 128"
  using inc_rev_value[of "rev ctr"] by (simp add: ctr_value_def inc_ctr_def)

end
