(* ===== verification/App_Start.thy ===== *)
theory App_Start
  imports Module_Manager
begin

text \<open>
  The start and the end of an application (\<^verbatim>\<open>src/app/app.go\<close>, \<^verbatim>\<open>src/conf/loader.go\<close>): its options with the
  command line and the defaults, the configuration, and \<open>Run\<close>, which drives the module manager until a
  signal comes. What the operating system and NATS answer is given by \<open>os_env\<close>; a program that exits is a
  panic. Durations are in nanoseconds.
\<close>

section \<open>Options\<close>

record app_options =
  ao_Nats :: bool
  ao_Debug :: bool
  ao_Parse :: bool
  ao_WorkDir :: string
  ao_ConfPath :: string
  ao_LogDir :: string
  ao_ProcessID :: string
  ao_KillWaitTTL :: int
  ao_RegisterInterval :: int
  ao_RegisterTTL :: int
  ao_RPCExpired :: int
  ao_RPCMaxCoroutine :: int

text \<open>The values of the flags: what the command line gives, or the defaults of the flags.\<close>

record app_flags =
  fl_wd :: string
  fl_conf :: string
  fl_pid :: string
  fl_log :: string

definition no_flags :: app_flags where
  "no_flags = \<lparr>fl_wd = [], fl_conf = [], fl_pid = ''development'', fl_log = []\<rparr>"

text \<open>
  \<open>os_open\<close> opens a path from a working directory; \<open>os_dpanic\<close> tells whether the logger panics at this
  level; \<open>os_exec_dir\<close> is the directory of the program.
\<close>

record os_env =
  os_cwd :: string
  os_open :: "string \<Rightarrow> string \<Rightarrow> go_error option"
  os_getwd :: "string \<Rightarrow> go_error + string"
  os_exec_dir :: string
  os_nats :: "go_error option"
  os_dpanic :: bool

definition parseFlag :: "app_flags \<Rightarrow> app_options \<Rightarrow> app_options" where
  "parseFlag fl opt =
     (let opt = (if fl_wd fl \<noteq> [] then opt\<lparr>ao_WorkDir := fl_wd fl\<rparr> else opt);
          opt = (if fl_conf fl \<noteq> [] then opt\<lparr>ao_ConfPath := fl_conf fl\<rparr> else opt);
          opt = (if fl_pid fl \<noteq> [] then opt\<lparr>ao_ProcessID := fl_pid fl\<rparr> else opt)
      in if fl_log fl \<noteq> [] then opt\<lparr>ao_LogDir := fl_log fl\<rparr> else opt)"

definition default_options :: app_options where
  "default_options =
     \<lparr>ao_Nats = False, ao_Debug = True, ao_Parse = True, ao_WorkDir = [], ao_ConfPath = [], ao_LogDir = [], ao_ProcessID = [],
      ao_KillWaitTTL = 60 * 10 ^ 9, ao_RegisterInterval = 10 * 10 ^ 9, ao_RegisterTTL = 20 * 10 ^ 9,
      ao_RPCExpired = 10 * 10 ^ 9, ao_RPCMaxCoroutine = 0\<rparr>"

text \<open>The working directory, and the directory the process is in afterwards.\<close>

definition app_dir :: "os_env \<Rightarrow> string \<Rightarrow> (string \<times> string) outcome" where
  "app_dir os workDir =
     (if workDir \<noteq> [] then
        (case os_open os (os_cwd os) workDir of
           Some err \<Rightarrow> Panic (error_text err)
         | None \<Rightarrow> (case os_getwd os workDir of Inl err \<Rightarrow> Panic (error_text err) | Inr dir \<Rightarrow> Ret (dir, dir)))
      else (case os_getwd os (os_cwd os) of Inr dir \<Rightarrow> Ret (dir, os_cwd os) | Inl _ \<Rightarrow> Ret (os_exec_dir os, os_cwd os)))"

definition fill_paths :: "string \<Rightarrow> app_options \<Rightarrow> app_options" where
  "fill_paths appDir opt =
     (let opt = opt\<lparr>ao_WorkDir := appDir\<rparr>;
          opt = (if ao_ConfPath opt = [] then opt\<lparr>ao_ConfPath := appDir @ ''/bin/conf/server.yaml''\<rparr> else opt)
      in if ao_LogDir opt = [] then opt\<lparr>ao_LogDir := appDir @ ''/bin/logs''\<rparr> else opt)"

definition newOptions :: "os_env \<Rightarrow> app_flags \<Rightarrow> (app_options \<Rightarrow> app_options) list \<Rightarrow> app_options outcome" where
  "newOptions os fl opts =
     (let opt = fold (\<lambda>o'. o') opts default_options;
          opt = (if ao_Parse opt then parseFlag fl opt else opt)
      in if \<not> ao_Nats opt \<and> os_nats os \<noteq> None \<and> os_dpanic os then Panic ''Nats connect fail''
         else let opt = (if \<not> ao_Nats opt then opt\<lparr>ao_Nats := (os_nats os = None)\<rparr> else opt);
                  opt = (if ao_ProcessID opt = [] then opt\<lparr>ao_ProcessID := ''development''\<rparr> else opt)
              in outcome_bind (app_dir os (ao_WorkDir opt)) (\<lambda>(appDir, cwd).
                 let opt = fill_paths appDir opt
                 in if os_open os cwd (ao_ConfPath opt) \<noteq> None then Panic ''config path error %v'' else Ret opt))"

lemma fill_paths_simps:
  "ao_ProcessID (fill_paths dir opt) = ao_ProcessID opt" "ao_WorkDir (fill_paths dir opt) = dir"
  "ao_ConfPath (fill_paths dir opt) \<noteq> []" "ao_LogDir (fill_paths dir opt) \<noteq> []"
  by (simp_all add: fill_paths_def Let_def)

text \<open>What a successful start has gone through.\<close>

lemma newOptions_Ret:
  assumes "newOptions os fl opts = Ret opt"
  defines "given \<equiv> fold (\<lambda>o'. o') opts default_options"
  obtains dir cwd opt0 where "app_dir os (ao_WorkDir opt0) = Ret (dir, cwd)" "opt = fill_paths dir opt0"
    "ao_ProcessID opt0 = (let pid = ao_ProcessID (if ao_Parse given then parseFlag fl given else given) in if pid = [] then ''development'' else pid)"
    "os_open os cwd (ao_ConfPath opt) = None"
proof -
  define opt1 where "opt1 = (if ao_Parse given then parseFlag fl given else given)"
  define opt2 where "opt2 = (if \<not> ao_Nats opt1 then opt1\<lparr>ao_Nats := (os_nats os = None)\<rparr> else opt1)"
  define opt3 where "opt3 = (if ao_ProcessID opt2 = [] then opt2\<lparr>ao_ProcessID := ''development''\<rparr> else opt2)"
  let ?rest = "outcome_bind (app_dir os (ao_WorkDir opt3)) (\<lambda>(appDir, cwd). let opt = fill_paths appDir opt3
      in if os_open os cwd (ao_ConfPath opt) \<noteq> None then Panic ''config path error %v'' else Ret opt)"
  have "newOptions os fl opts =
      (if \<not> ao_Nats opt1 \<and> os_nats os \<noteq> None \<and> os_dpanic os then Panic ''Nats connect fail'' else ?rest)"
    unfolding newOptions_def Let_def opt3_def opt2_def opt1_def given_def ..
  then have "?rest = Ret opt"
    using assms(1) by (cases "\<not> ao_Nats opt1 \<and> os_nats os \<noteq> None \<and> os_dpanic os") (simp_all only: if_True if_False outcome.distinct simp_thms)
  then obtain dir cwd where d: "app_dir os (ao_WorkDir opt3) = Ret (dir, cwd)"
      "(if os_open os cwd (ao_ConfPath (fill_paths dir opt3)) \<noteq> None then Panic ''config path error %v'' else Ret (fill_paths dir opt3)) = Ret opt"
    by (auto simp: outcome_bind_Ret_iff Let_def)
  moreover have "opt = fill_paths dir opt3" "os_open os cwd (ao_ConfPath opt) = None"
    using d(2) by (simp_all split: if_splits)
  moreover have "ao_ProcessID opt3 = (let pid = ao_ProcessID opt1 in if pid = [] then ''development'' else pid)"
    by (simp add: opt3_def opt2_def Let_def)
  ultimately show thesis using that unfolding opt1_def by blast
qed

text \<open>The flag for the process id has a default, so an option that sets the id is lost whenever the flags are parsed.\<close>

lemma process_id_option_lost:
  assumes "newOptions os no_flags opts = Ret opt" "ao_Parse (fold (\<lambda>o'. o') opts default_options)"
  shows "ao_ProcessID opt = ''development''"
  using assms(1)
proof (rule newOptions_Ret)
  fix dir cwd opt0
  assume "opt = fill_paths dir opt0" "ao_ProcessID opt0 = (let pid = ao_ProcessID (if ao_Parse (fold (\<lambda>o'. o') opts default_options)
      then parseFlag no_flags (fold (\<lambda>o'. o') opts default_options) else fold (\<lambda>o'. o') opts default_options) in if pid = [] then ''development'' else pid)"
  then show ?thesis using assms(2) by (simp add: fill_paths_simps parseFlag_def no_flags_def Let_def)
qed

text \<open>The options of an application that starts are complete, and its configuration file can be opened.\<close>

lemma newOptions_complete:
  assumes "newOptions os fl opts = Ret opt"
  shows "ao_ProcessID opt \<noteq> [] \<and> ao_ConfPath opt \<noteq> [] \<and> ao_LogDir opt \<noteq> [] \<and> (\<exists>cwd. os_open os cwd (ao_ConfPath opt) = None)"
  using assms by (rule newOptions_Ret) (auto simp: fill_paths_simps Let_def)

section \<open>The configuration\<close>

record 'v app_config =
  ac_RPCExpired :: int
  ac_MaxCoroutine :: int
  ac_RPCLog :: bool
  ac_Module :: "'v mod_conf"

text \<open>\<open>path.Ext\<close>: the suffix from the last dot of the last element.\<close>

definition path_Ext :: "string \<Rightarrow> string" where
  "path_Ext p =
     (let seg = takeWhile (\<lambda>c. c \<noteq> CHR ''/'') (rev p); suffix = takeWhile (\<lambda>c. c \<noteq> CHR ''.'') seg
      in if length suffix < length seg then CHR ''.'' # rev suffix else [])"

text \<open>\<open>parse\<close> reads a file in a format; a file that cannot be read or has another extension ends the program.\<close>

definition readFromFile :: "(string \<Rightarrow> string \<Rightarrow> 'v app_config option) \<Rightarrow> string \<Rightarrow> 'v app_config outcome" where
  "readFromFile parse url =
     (case path_Ext url of
        [] \<Rightarrow> Panic ''slice bounds out of range''
      | _ # extension \<Rightarrow>
          let read = (\<lambda>format. case parse format url of None \<Rightarrow> Panic ''exit: loading config fail'' | Some c \<Rightarrow> Ret c)
          in if extension = ''json'' then read ''json''
             else if extension = ''yaml'' \<or> extension = ''yml'' then read ''yaml''
             else if extension = ''toml'' then read ''toml''
             else Panic ''exit: invalid file exension'')"

definition LoadConfig :: "(string \<Rightarrow> string \<Rightarrow> 'v app_config option) \<Rightarrow> string \<Rightarrow> 'v app_config outcome" where
  "LoadConfig parse url =
     outcome_bind (readFromFile parse url) (\<lambda>c. Ret (if ac_RPCExpired c = 0 then c\<lparr>ac_RPCExpired := 10\<rparr> else c))"

definition Configure :: "'v app_config \<Rightarrow> app_options \<Rightarrow> app_options" where
  "Configure c opts =
     (let opts = opts\<lparr>ao_RPCExpired := 10 ^ 9 * ac_RPCExpired c, ao_RPCMaxCoroutine := ac_MaxCoroutine c\<rparr>
      in if ao_Debug opts then opts\<lparr>ao_RPCExpired := 3600 * 10 ^ 9\<rparr> else opts)"

text \<open>A limit for remote calls is never zero after the configuration was loaded, unless it is negative there.\<close>

lemma rpc_limit_positive:
  assumes "LoadConfig parse url = Ret c" "0 \<le> ac_RPCExpired c"
  shows "0 < ao_RPCExpired (Configure c opts)"
proof -
  obtain a where "c = (if ac_RPCExpired a = 0 then a\<lparr>ac_RPCExpired := 10\<rparr> else a)"
    using assms(1) by (auto simp: LoadConfig_def outcome_bind_Ret_iff)
  then have "ac_RPCExpired c \<noteq> 0" by simp
  then show ?thesis using assms(2) by (simp add: Configure_def Let_def)
qed

text \<open>The configuration replaces what the options of the application said about remote calls.\<close>

lemma rpc_options_overwritten:
  "Configure c (opts\<lparr>ao_RPCExpired := e, ao_RPCMaxCoroutine := n\<rparr>) = Configure c opts"
  by (simp add: Configure_def Let_def)

section \<open>Serializers and results\<close>

definition AddRPCSerialize :: "string \<Rightarrow> 's \<Rightarrow> (string \<rightharpoonup> 's) \<Rightarrow> go_error option \<times> (string \<rightharpoonup> 's)" where
  "AddRPCSerialize nm i serializes =
     (case serializes nm of
        Some _ \<Rightarrow> (Some (Errorf ''rpc serialize name(%s) has been occupied'' [AS nm]), serializes)
      | None \<Rightarrow> (None, serializes(nm \<mapsto> i)))"

text \<open>The result of a call as it is sent to a client; \<open>json\<close> encodes the trace, the error text and the result.\<close>

definition ProtocolMarshal ::
    "(string \<Rightarrow> 'r \<Rightarrow> go_error option \<Rightarrow> bytes option \<times> go_error option) option \<Rightarrow>
     (string \<Rightarrow> string \<Rightarrow> 'r \<Rightarrow> go_error + bytes) \<Rightarrow> string \<Rightarrow> 'r \<Rightarrow> go_error option \<Rightarrow> bytes option \<times> go_error option" where
  "ProtocolMarshal custom json trace result err =
     (case custom of
        Some f \<Rightarrow> f trace result err
      | None \<Rightarrow>
          let text = (case err of None \<Rightarrow> [] | Some e \<Rightarrow> error_text e)
          in case json trace text result of Inr b \<Rightarrow> (Some b, None) | Inl e \<Rightarrow> (None, Some e))"

lemma AddRPCSerialize_first_stays:
  "snd (AddRPCSerialize nm i S) nm' = (if nm' = nm \<and> S nm = None then Some i else S nm')"
  by (auto simp: AddRPCSerialize_def split: option.splits)

section \<open>Run\<close>

text \<open>
  What happens, in order: the manager's events, what the modules and the application are told, the signal,
  and how the process ends. \<open>re_late\<close> is the number of events of the stop after which the time limit for it
  was over, if it was.
\<close>

datatype 'v run_event =
    Config_loaded
  | Told_loaded nat
  | Mgr "'v mod_event"
  | Startup
  | Signal
  | Stopped
  | Close_timeout

record ('m, 'v) run_env =
  re_mods :: "('m, 'v) mod_env"
  re_parse :: "string \<Rightarrow> string \<Rightarrow> 'v app_config option"
  re_configurationLoaded :: "unit outcome option"
  re_OnAppConfigurationLoaded :: "'m \<Rightarrow> unit outcome"
  re_startup :: "unit outcome option"
  re_late :: "nat option"

definition callback :: "unit outcome option \<Rightarrow> unit outcome" where
  "callback f = (case f of None \<Rightarrow> Ret () | Some out \<Rightarrow> out)"

definition of_manager :: "('v mod_event, 'a) traced \<Rightarrow> ('v run_event, 'a) traced" where
  "of_manager m = (map Mgr (fst m), snd m)"

fun register_all :: "('m, 'v) run_env \<Rightarrow> nat \<Rightarrow> 'm list \<Rightarrow> ('m, 'v) module_manager \<Rightarrow> ('v run_event, ('m, 'v) module_manager) traced" where
  "register_all R i [] mer = ([], Ret mer)"
| "register_all R i (m # ms) mer =
     then_do (hook (re_OnAppConfigurationLoaded R m) [Told_loaded i]) (\<lambda>_. register_all R (Suc i) ms (mgr_Register m mer))"

text \<open>
  The stop runs in a goroutine of its own; a panic there ends the process. A stop that takes too long is logged
  with \<open>DPanic\<close>, which panics in the development logger that the option \<open>Debug\<close> selects.
\<close>

definition close_timeout :: "bool \<Rightarrow> unit outcome" where
  "close_timeout debug = (if debug then Panic ''mqant close timeout'' else Ret ())"

definition app_stop :: "('m, 'v) run_env \<Rightarrow> bool \<Rightarrow> ('m, 'v) module_manager \<Rightarrow> ('v run_event, unit) traced" where
  "app_stop R debug mer =
     (case mgr_Destroy (re_mods R) mer of
        (es, out) \<Rightarrow>
          (case re_late R of
             Some n \<Rightarrow> (map Mgr (take n es) @ [Close_timeout], close_timeout debug)
           | None \<Rightarrow>
               (case out of
                  Ret _ \<Rightarrow> (map Mgr es @ [Stopped], Ret ())
                | Panic p \<Rightarrow> (map Mgr es, Panic p)
                | Hang \<Rightarrow> (map Mgr es @ [Close_timeout], close_timeout debug))))"

definition app_Run :: "('m, 'v) run_env \<Rightarrow> app_options \<Rightarrow> 'm \<Rightarrow> 'm list \<Rightarrow> ('v run_event, app_options) traced" where
  "app_Run R opts timer ms =
     (case LoadConfig (re_parse R) (ao_ConfPath opts) of
        Panic p \<Rightarrow> ([], Panic p)
      | Hang \<Rightarrow> ([], Hang)
      | Ret c \<Rightarrow>
          let opts = Configure c opts
          in then_do (hook (callback (re_configurationLoaded R)) [Config_loaded]) (\<lambda>_.
             then_do (register_all R 1 ms (RegisterRunMod timer NewModuleManager)) (\<lambda>mer.
             then_do (of_manager (mgr_Init (re_mods R) (ac_Module c) (ac_Module c) (ao_ProcessID opts) mer)) (\<lambda>mer.
             then_do (hook (callback (re_startup R)) [Startup]) (\<lambda>_.
             then_do ([Signal], Ret ()) (\<lambda>_.
             then_do (app_stop R (ao_Debug opts) mer) (\<lambda>_. ([], Ret opts))))))))"

lemma register_all_Ret:
  assumes "register_all R i ms mer = (es, Ret mer')" "registered mer"
  shows "es = map Told_loaded [i..<i + length ms] \<and> mer' = fold mgr_Register ms mer \<and> registered mer'"
  using assms
proof (induction ms arbitrary: i mer es)
  case (Cons m ms)
  then obtain es' where rest: "register_all R (Suc i) ms (mgr_Register m mer) = (es', Ret mer')" "es = Told_loaded i # es'"
    by (auto simp: then_do_Ret hook_Ret)
  from Cons.IH[OF rest(1) reg_module[OF Cons.prems(2)]] rest(2) show ?case
    by (auto simp: upt_conv_Cons simp del: upt_Suc)
qed auto

lemma fold_Register:
  "agents (fold mgr_Register ms mer) = agents mer @ map (\<lambda>m. \<lparr>mi = m, settings = None, closeSig = False\<rparr>) ms \<and>
   mods (fold mgr_Register ms mer) = mods mer @ [length (agents mer)..<length (agents mer) + length ms] \<and>
   runMods (fold mgr_Register ms mer) = runMods mer"
proof (induction ms arbitrary: mer)
  case (Cons m ms)
  then show ?case by (simp add: mgr_Register_def upt_conv_Cons del: upt_Suc)
qed simp


text \<open>The modules of a process: the timer at place 0, then, in their order, the given modules that have a setting for it.\<close>

definition running :: "('m, 'v) run_env \<Rightarrow> 'v app_config \<Rightarrow> string \<Rightarrow> 'm list \<Rightarrow> nat list" where
  "running R c pid ms = 0 # filter (\<lambda>i. chosen (re_mods R) (ac_Module c) pid (ms ! (i - 1)) \<noteq> None) [1..<Suc (length ms)]"

text \<open>The parts of a run that returns, and what they are.\<close>

lemma app_Run_parts:
  assumes "app_Run R opts timer ms = (es, Ret opts')"
  obtains c mer inits mer' stop where "LoadConfig (re_parse R) (ao_ConfPath opts) = Ret c" "registered mer"
    "mer = fold mgr_Register ms (RegisterRunMod timer NewModuleManager)"
    "mgr_Init (re_mods R) (ac_Module c) (ac_Module c) (ao_ProcessID opts) mer = (inits, Ret mer')"
    "app_stop R (ao_Debug opts) mer' = (stop, Ret ())" "opts' = Configure c opts"
    "es = Config_loaded # map Told_loaded [1..<Suc (length ms)] @ map Mgr inits @ [Startup, Signal] @ stop"
proof -
  obtain c where c: "LoadConfig (re_parse R) (ao_ConfPath opts) = Ret c"
    using assms by (cases "LoadConfig (re_parse R) (ao_ConfPath opts)") (auto simp: app_Run_def)
  let ?pid = "ao_ProcessID opts"
  have pid: "ao_ProcessID (Configure c opts) = ?pid" "ao_Debug (Configure c opts) = ao_Debug opts" by (simp_all add: Configure_def Let_def)
  have "then_do (hook (callback (re_configurationLoaded R)) [Config_loaded]) (\<lambda>_.
      then_do (register_all R 1 ms (RegisterRunMod timer NewModuleManager)) (\<lambda>mer.
      then_do (of_manager (mgr_Init (re_mods R) (ac_Module c) (ac_Module c) ?pid mer)) (\<lambda>mer.
      then_do (hook (callback (re_startup R)) [Startup]) (\<lambda>_.
      then_do ([Signal], Ret ()) (\<lambda>_.
      then_do (app_stop R (ao_Debug opts) mer) (\<lambda>_. ([], Ret (Configure c opts)))))))) = (es, Ret opts')"
    using assms by (simp add: app_Run_def c pid Let_def)
  then obtain e1 mer e2 mer' e3 where parts: "register_all R 1 ms (RegisterRunMod timer NewModuleManager) = (e1, Ret mer)"
      "of_manager (mgr_Init (re_mods R) (ac_Module c) (ac_Module c) ?pid mer) = (e2, Ret mer')" "app_stop R (ao_Debug opts) mer' = (e3, Ret ())"
      "es = Config_loaded # e1 @ e2 @ [Startup, Signal] @ e3" "opts' = Configure c opts"
    unfolding then_do_Ret hook_Ret by auto
  have reg0: "registered (RegisterRunMod timer NewModuleManager)" by (intro registered.intros)
  note R = register_all_Ret[OF parts(1) reg0]
  obtain inits where i: "mgr_Init (re_mods R) (ac_Module c) (ac_Module c) ?pid mer = (inits, Ret mer')" "e2 = map Mgr inits"
    using parts(2) by (cases "mgr_Init (re_mods R) (ac_Module c) (ac_Module c) ?pid mer") (auto simp: of_manager_def)
  show thesis using that[OF c _ _ i(1) parts(3,5)] R parts(4) i(2) by auto
qed

lemma started_ready:
  assumes "mgr_Init E conf conf' pid mer = (inits, Ret mer')" "q \<in> set (runMods mer')"
    and "runMods mer' = runMods mer @ drop (length (runMods mer)) (runMods mer')"
  shows "EReady q \<in> set inits"
  using assms(1)
proof (cases rule: init_cases)
  case started
  then have fold: "fold (match_module E conf' pid) (mods mer) mer = mer'" by simp
  have "q \<in> set (runMods mer) \<or> q \<in> set (drop (length (runMods mer)) (runMods mer'))"
    using assms(2,3) by (metis Un_iff set_append)
  then show ?thesis using started(3) unfolding fold by (auto simp: init_trace_def)
qed simp


definition demo_config :: "unit app_config" where
  "demo_config = \<lparr>ac_RPCExpired = 0, ac_MaxCoroutine = 7, ac_RPCLog = False, ac_Module = demo_conf\<rparr>"

definition demo_run :: "(string, unit) run_env" where
  "demo_run = \<lparr>re_mods = demo_hooks, re_parse = (\<lambda>format url. if format = ''yaml'' then Some demo_config else None),
     re_configurationLoaded = None, re_OnAppConfigurationLoaded = (\<lambda>_. Ret ()), re_startup = None, re_late = None\<rparr>"

definition demo_options :: app_options where
  "demo_options = default_options\<lparr>ao_ConfPath := ''c/server.yml'', ao_ProcessID := ''dev'', ao_Debug := False\<rparr>"


end
