(* ===== verification/Rpc_Invoke.thy ===== *)
theory Rpc_Invoke
  imports Rpc_Server App_Routing
begin

text \<open>
  Calls through the application (\<^verbatim>\<open>src/rpc/base/rpc_client.go\<close>, \<open>Invoke\<close> and its variants in \<^verbatim>\<open>src/app/app.go\<close> and
  \<^verbatim>\<open>src/module/base/base_module.go\<close>): a route to a server, then a call with a reply or a one-way call.
\<close>

section \<open>Calls of a client\<close>

text \<open>A one-way call: the request asks for no reply, and nothing is entered into the table of pending calls.\<close>

definition rpc_CallNRArgs ::
    "(rpc_info \<Rightarrow> go_error + bytes) \<Rightarrow> (bytes \<Rightarrow> go_error option) \<Rightarrow> string \<Rightarrow> string \<Rightarrow> int \<Rightarrow> int \<Rightarrow>
     string \<Rightarrow> string list \<Rightarrow> bytes list \<Rightarrow> nats_client \<Rightarrow> go_error option" where
  "rpc_CallNRArgs marshal publish cid caller now expired fn argsType args c =
     nats_CallNR marshal publish (CallArgs_info fn argsType args cid caller now expired False) c"

definition rpc_CallNR ::
    "('j, 'o) arg_env \<Rightarrow> (rpc_info \<Rightarrow> go_error + bytes) \<Rightarrow> (bytes \<Rightarrow> go_error option) \<Rightarrow> string \<Rightarrow> string \<Rightarrow> int \<Rightarrow> int \<Rightarrow>
     string \<Rightarrow> ('j, 'o) rarg list \<Rightarrow> nats_client \<Rightarrow> go_error option" where
  "rpc_CallNR env marshal publish cid caller now expired fn params c =
     (case encode_params env 0 params of
        Inl err \<Rightarrow> Some err
      | Inr (argsType, args) \<Rightarrow> rpc_CallNRArgs marshal publish cid caller now expired fn argsType args c)"

text \<open>A call with a reply; \<open>call_args\<close> is \<open>CallArgs\<close>, whose parts are the steps of the client.\<close>

definition rpc_Call ::
    "('j, 'o) arg_env \<Rightarrow> (string \<Rightarrow> string list \<Rightarrow> bytes list \<Rightarrow> 'w \<Rightarrow> (go_error + ('j, 'o) rarg) \<times> 'w) \<Rightarrow>
     string \<Rightarrow> ('j, 'o) rarg list \<Rightarrow> 'w \<Rightarrow> (go_error + ('j, 'o) rarg) \<times> 'w" where
  "rpc_Call env call_args fn params w =
     (case encode_params env 0 params of
        Inl err \<Rightarrow> (Inl err, w)
      | Inr (argsType, args) \<Rightarrow> call_args fn argsType args w)"

section \<open>Calls of the application\<close>

type_synonym ('a, 's) router = "string \<Rightarrow> 'a \<Rightarrow> (go_error + 's) \<times> 'a"

definition app_Invoke ::
    "('a, 's) router \<Rightarrow> ('s \<Rightarrow> string \<Rightarrow> 'p list \<Rightarrow> 'w \<Rightarrow> (go_error + 'r) \<times> 'w) \<Rightarrow>
     string \<Rightarrow> string \<Rightarrow> 'p list \<Rightarrow> 'a \<times> 'w \<Rightarrow> (go_error + 'r) \<times> 'a \<times> 'w" where
  "app_Invoke get_route Call moduleType fn params aw =
     (case get_route moduleType (fst aw) of
        (Inl e, app) \<Rightarrow> (Inl e, app, snd aw)
      | (Inr server, app) \<Rightarrow> (case Call server fn params (snd aw) of (r, w) \<Rightarrow> (r, app, w)))"

definition app_InvokeNR ::
    "('a, 's) router \<Rightarrow> ('s \<Rightarrow> string \<Rightarrow> 'p list \<Rightarrow> 'w \<Rightarrow> go_error option \<times> 'w) \<Rightarrow>
     string \<Rightarrow> string \<Rightarrow> 'p list \<Rightarrow> 'a \<times> 'w \<Rightarrow> go_error option \<times> 'a \<times> 'w" where
  "app_InvokeNR get_route CallNR moduleType fn params aw =
     (case get_route moduleType (fst aw) of
        (Inl e, app) \<Rightarrow> (Some e, app, snd aw)
      | (Inr server, app) \<Rightarrow> (case CallNR server fn params (snd aw) of (e, w) \<Rightarrow> (e, app, w)))"

definition base_InvokeArgs ::
    "('a, 's) router \<Rightarrow> ('s \<Rightarrow> string \<Rightarrow> string list \<Rightarrow> bytes list \<Rightarrow> 'w \<Rightarrow> (go_error + 'r) \<times> 'w) \<Rightarrow>
     string \<Rightarrow> string \<Rightarrow> string list \<Rightarrow> bytes list \<Rightarrow> 'a \<times> 'w \<Rightarrow> (go_error + 'r) \<times> 'a \<times> 'w" where
  "base_InvokeArgs get_route CallArgs moduleType fn argsType args aw =
     (case get_route moduleType (fst aw) of
        (Inl e, app) \<Rightarrow> (Inl e, app, snd aw)
      | (Inr server, app) \<Rightarrow> (case CallArgs server fn argsType args (snd aw) of (r, w) \<Rightarrow> (r, app, w)))"

definition base_InvokeNRArgs ::
    "('a, 's) router \<Rightarrow> ('s \<Rightarrow> string \<Rightarrow> string list \<Rightarrow> bytes list \<Rightarrow> 'w \<Rightarrow> go_error option \<times> 'w) \<Rightarrow>
     string \<Rightarrow> string \<Rightarrow> string list \<Rightarrow> bytes list \<Rightarrow> 'a \<times> 'w \<Rightarrow> go_error option \<times> 'a \<times> 'w" where
  "base_InvokeNRArgs get_route CallNRArgs moduleType fn argsType args aw =
     (case get_route moduleType (fst aw) of
        (Inl e, app) \<Rightarrow> (Some e, app, snd aw)
      | (Inr server, app) \<Rightarrow> (case CallNRArgs server fn argsType args (snd aw) of (e, w) \<Rightarrow> (e, app, w)))"

section \<open>One-way calls\<close>



end
