(* ===== verification/Gate_To_Module.thy ===== *)
theory Gate_To_Module
  imports Mqtt_Agent Rpc_Server
begin

text \<open>
  The gate and the modules together: a message a client publishes, from the worker of its agent
  through the remote call to the function of a module, and the answer back to the client. The
  agent's environment gets the RPC servers of the modules as the remote world; a request reaches the
  server it is sent to, and the first reply with its correlation id is what the caller receives.
\<close>

section \<open>The modules as the remote world of a gate\<close>

type_synonym ('srv, 'j, 'v, 'w) modules = "'srv \<Rightarrow> ('j, gparam, 'v, 'w) RPCServer"

text \<open>What an agent distinguishes in the result of a call.\<close>

definition call_result_of :: "('j, gparam) rarg \<Rightarrow> ('j, gparam) rarg call_result" where
  "call_result_of v = (case v of ROther (PProtocol d) \<Rightarrow> Marshalled d | RNil \<Rightarrow> NoResult | _ \<Rightarrow> Plain v)"

text \<open>
  The time-out of a call whose reply never comes; a result that does not decode is an error of the
  call.
\<close>

definition receive_reply ::
    "('j, gparam) arg_env \<Rightarrow> (string \<times> result_info) list \<Rightarrow> ('j, gparam) rarg call_result \<times> go_error option" where
  "receive_reply A new =
     (case new of
        [] \<Rightarrow> (NoResult, Some (Errorf ''deadline exceeded'' []))
      | (_, res) # _ \<Rightarrow>
          (case CallArgs_result A (Some res) of
             Ret (Inr v) \<Rightarrow> (call_result_of v, None)
           | Ret (Inl e) \<Rightarrow> (NoResult, Some e)
           | Panic p \<Rightarrow> (NoResult, Some (Errorf p []))
           | Hang \<Rightarrow> (NoResult, Some (Errorf ''deadline exceeded'' []))))"

definition modules_CallArgs ::
    "('j, gparam) arg_env \<Rightarrow> (go_error \<Rightarrow> gparam) \<Rightarrow> (string \<Rightarrow> string list \<Rightarrow> bytes list \<Rightarrow> rpc_info) \<Rightarrow>
     'srv \<Rightarrow> string \<Rightarrow> string list \<Rightarrow> bytes list \<Rightarrow> ('srv, 'j, 'v, 'w) modules
      \<Rightarrow> (('j, gparam) rarg call_result \<times> go_error option) \<times> ('srv, 'j, 'v, 'w) modules" where
  "modules_CallArgs A ev request srv fn types args W =
     (let s = runFunc A ev (request fn types args) (W srv)
      in (receive_reply A (drop (length (replies (W srv))) (replies s)), W(srv := s)))"

definition modules_CallNRArgs ::
    "('j, gparam) arg_env \<Rightarrow> (go_error \<Rightarrow> gparam) \<Rightarrow> (string \<Rightarrow> string list \<Rightarrow> bytes list \<Rightarrow> rpc_info) \<Rightarrow>
     'srv \<Rightarrow> string \<Rightarrow> string list \<Rightarrow> bytes list \<Rightarrow> ('srv, 'j, 'v, 'w) modules
      \<Rightarrow> go_error option \<times> ('srv, 'j, 'v, 'w) modules" where
  "modules_CallNRArgs A ev request srv fn types args W =
     (None, W(srv := runFunc A ev ((request fn types args)\<lparr>Reply := False\<rparr>) (W srv)))"

definition with_modules ::
    "('j, gparam) arg_env \<Rightarrow> (go_error \<Rightarrow> gparam) \<Rightarrow> (string \<Rightarrow> string list \<Rightarrow> bytes list \<Rightarrow> rpc_info) \<Rightarrow>
     ('srv, ('j, gparam) rarg, ('srv, 'j, 'v, 'w) modules) aenv \<Rightarrow> ('srv, ('j, gparam) rarg, ('srv, 'j, 'v, 'w) modules) aenv" where
  "with_modules A ev request ae =
     ae\<lparr>ae_CallArgs := modules_CallArgs A ev request, ae_CallNRArgs := modules_CallNRArgs A ev request\<rparr>"

text \<open>The gate's serializer, the only one of the application.\<close>

definition gate_serializes ::
    "(session_imp \<Rightarrow> go_error + bytes) \<Rightarrow> (bytes \<Rightarrow> go_error + session_imp) \<Rightarrow> string \<Rightarrow>
     ((gparam \<Rightarrow> string \<times> bytes \<times> go_error option) \<times> (string \<Rightarrow> bytes \<Rightarrow> go_error + gparam)) list" where
  "gate_serializes marshal unmarshal span = [(Serialize marshal, Deserialize unmarshal span)]"

section \<open>The arguments of a published message\<close>

text \<open>What protobuf makes of a session: an empty map comes back as nil.\<close>

definition on_the_wire :: "session_imp \<Rightarrow> session_imp" where
  "on_the_wire s = s\<lparr>Settings := (if settings_of s = Map.empty then None else Settings s)\<rparr>"

lemma session_arrives:
  "Clone_imp span' (fill_settings (on_the_wire (SetTopic topic (Clone_imp span s)))) = Clone_imp span' s"
  by (auto simp: Clone_imp_def fill_settings_def on_the_wire_def SetTopic_def settings_of_def new_SessionImp_def
      split: option.splits)

lemma decode_session:
  assumes "serializes A = gate_serializes marshal unmarshal span'"
    and "unmarshal b = Inr (on_the_wire (SetTopic topic (Clone_imp span s)))"
  shows "Bytes2Args A RPCParamSessionType b = Ret (Inr (ROther (PSession (Clone_imp span' s))))"
  using assms
  by (simp add: Bytes2Args_def RPCParamSessionType_def tag_defs HasPrefix_def gate_serializes_def Deserialize_def
      session_arrives)

lemma decode_bytes: "Bytes2Args A ''bytes'' b = Ret (Inr (RBytes b))"
  by (simp add: Bytes2Args_def tag_defs HasPrefix_def)

lemma decode_plain:
  assumes "is_plain i" "Bytes2Args A ty b = Ret (Inr v)"
  shows "decode_arg A i ty b = Ret (Inr (plain_value i v))"
  using assms by (cases i) (auto simp: decode_arg_def plain_value_def split: rarg.splits option.splits)

section \<open>From the client to the function and back\<close>

text \<open>The answer the agent is given: the result, or the error text as an error.\<close>

definition answer_of :: "('j, gparam) rarg \<Rightarrow> string \<Rightarrow> ('j, gparam) rarg call_result \<times> go_error option" where
  "answer_of v rerr = (if rerr = [] then (call_result_of v, None) else (NoResult, Some (Errorf rerr [])))"

lemma receive_answer:
  assumes "Bytes2Args A ty b = Ret (Inr v)"
  shows "receive_reply A [(to, NewResultInfo cid rerr ty b)] = answer_of v rerr"
  using assms by (simp add: receive_reply_def CallArgs_result_def NewResultInfo_def answer_of_def)

text \<open>A remote call with a session and bytes: what the server runs, and what the caller gets.\<close>

lemma session_call_runs:
  assumes session: "serializes A = gate_serializes marshal unmarshal span'" "unmarshal b = Inr (on_the_wire (SetTopic topic (Clone_imp span s)))"
    and request: "request = (\<lambda>fn types args. CallArgs_info fn types args cid caller start expired True)"
    and server: "rs_functions (W srv) fn = Some f" "InType f = [i1, i2]" "is_plain i1" "is_plain i2"
      "\<forall>l info. rs_listener (W srv) = Some l \<longrightarrow> BeforeHandle l fn info = None"
    and run: "Function f [plain_value i1 (ROther (PSession (Clone_imp span' s))), plain_value i2 (RBytes msg)]
        (world (W srv)) = (Inr [OValue v, ret], w)" "result_error ret = Some rerr"
    and result: "ArgsTypeAnd2Bytes A v = (ty, bs, None)" "Bytes2Args A ty bs = Ret (Inr v')"
  shows "\<exists>W'. modules_CallArgs A ev request srv fn [RPCParamSessionType, ''bytes''] [b, msg] W = (answer_of v' rerr, W') \<and>
    world (W' srv) = w \<and> (\<forall>q. q \<noteq> srv \<longrightarrow> W' q = W q)"
proof -
  let ?info = "CallArgs_info fn [RPCParamSessionType, ''bytes''] [b, msg] cid caller start expired True"
  let ?s = "runFunc A ev ?info (W srv)"
  have info: "Fn ?info = fn" "Args ?info = [b, msg]" "ArgsType ?info = [RPCParamSessionType, ''bytes'']" "Reply ?info"
    by (simp_all add: CallArgs_info_def)
  have "decode_in A (InType f) (ArgsType ?info) (Args ?info) =
      Ret (Inr (map Some [plain_value i1 (ROther (PSession (Clone_imp span' s))), plain_value i2 (RBytes msg)]))"
    using decode_plain[OF server(3) decode_session[OF session]] decode_plain[OF server(4) decode_bytes] server(2)
    by (simp add: info decode_in_def)
  from runFunc_result[OF _ _ _ info(4) this _ run result(1), of ev] server
  have ran: "world ?s = w" "replies ?s = replies (W srv) @ [(ReplyTo ?info, NewResultInfo (Cid ?info) rerr ty bs)]"
    by (simp_all add: info)
  then have "modules_CallArgs A ev request srv fn [RPCParamSessionType, ''bytes''] [b, msg] W = (answer_of v' rerr, W(srv := ?s))"
    using receive_answer[OF result(2)] by (simp add: modules_CallArgs_def request Let_def)
  with ran(1) show ?thesis by (intro exI[of _ "W(srv := ?s)"]) simp
qed

lemma toResult_cong:
  assumes "ae_ProtocolMarshal ae' = ae_ProtocolMarshal ae"
  shows "toResult env ae' = toResult env ae"
  using assms by (intro ext) (simp only: toResult_def)

lemma toResult_with_modules: "toResult env (with_modules A ev request ae) = toResult env ae"
  by (rule toResult_cong) (simp add: with_modules_def)

text \<open>C2: A published message runs the function it names, for the client that published it, and the
  client gets the answer. The topic is of the form type/HD_name/msgid, the payload is not JSON, and
  the server the route leads to has the function with two parameters of ordinary types: then the
  function is applied to a session that is a clone of the client's session at the gate and to the
  payload, the state of that module and of no other becomes what the function makes it, and what the
  agent answers on the topic is the function's result as it decodes, or its error.\<close>

theorem published_message_runs_function:
  assumes pub: "msg_type pk = PUBLISH" "variable pk = VPublish pub" "topic_name pub = Some topic"
    and agent: "ag_session ag = Some s" "ae_OnRoute ae = None"
    and topic: "split_on CHR ''/'' topic = [t, fn, msgid]" "take 3 fn = ''HD_''" "msgid \<noteq> []"
    and route: "ae_GetRouteServer ae t = Inr srv" "\<not> looks_like_json (pub_msg pub)"
    and session: "ae_marshal ae (SetTopic topic (Clone_imp span s)) = Inr b"
      "serializes A = gate_serializes marshal unmarshal span'"
      "unmarshal b = Inr (on_the_wire (SetTopic topic (Clone_imp span s)))"
    and request: "request = (\<lambda>fn types args. CallArgs_info fn types args cid caller start expired True)"
    and server: "rs_functions (W srv) fn = Some f" "InType f = [i1, i2]" "is_plain i1" "is_plain i2"
      "\<forall>l info. rs_listener (W srv) = Some l \<longrightarrow> BeforeHandle l fn info = None"
    and run: "Function f [plain_value i1 (ROther (PSession (Clone_imp span' s))), plain_value i2 (RBytes (pub_msg pub))]
        (world (W srv)) = (Inr [OValue v, ret], w)" "result_error ret = Some rerr"
    and result: "ArgsTypeAnd2Bytes A v = (ty, bs, None)" "Bytes2Args A ty bs = Ret (Inr v')"
  shows "\<exists>W'. recoverworker env (with_modules A ev request ae) span pk (ag, W) =
      outcome_bind (toResult env ae topic (fst (answer_of v' rerr)) (snd (answer_of v' rerr))
          (ag\<lparr>ag_revNum := ag_revNum ag + 1\<rparr>)) (\<lambda>(_, ag). Ret (ag, W')) \<and>
    world (W' srv) = w \<and> (\<forall>q. q \<noteq> srv \<longrightarrow> W' q = W q)"
proof -
  obtain W' where W': "modules_CallArgs A ev request srv fn [RPCParamSessionType, ''bytes''] [b, pub_msg pub] W = (answer_of v' rerr, W')"
      "world (W' srv) = w" "\<forall>q. q \<noteq> srv \<longrightarrow> W' q = W q"
    using session_call_runs[where unmarshal = unmarshal and b = b and W = W and srv = srv, OF session(2,3) request server run result, of ev] by blast
  have "route_publish (with_modules A ev request ae) span s topic (pub_msg pub) =
      Do_call srv fn [RPCParamSessionType, ''bytes''] [b, pub_msg pub]"
    using topic route session(1)
    by (simp add: route_publish_def with_modules_def topic_msgid_def Let_def)
  then have "recoverworker env (with_modules A ev request ae) span pk (ag, W) =
      outcome_bind (toResult env (with_modules A ev request ae) topic (fst (answer_of v' rerr)) (snd (answer_of v' rerr))
          (ag\<lparr>ag_revNum := ag_revNum ag + 1\<rparr>)) (\<lambda>(_, ag). Ret (ag, W'))"
    using pub agent W'(1) by (simp add: recoverworker_def run_action_def with_modules_def split: prod.splits)
  then show ?thesis using W'(2,3) by (intro exI[of _ W']) (simp add: toResult_with_modules)
qed

definition say_topic :: string where
  "say_topic = ''chat/HD_say/7''"

definition say_pack :: pack where
  "say_pack = new_Pack\<lparr>msg_type := PUBLISH,
     variable := VPublish \<lparr>topic_name = Some say_topic, pub_mid = 0, pub_msg = [5]\<rparr>\<rparr>"

text \<open>A chat module: it remembers who said what and answers with the bytes in reverse.\<close>

definition say_function :: "(unit, gparam, string + bytes, (string \<times> bytes) list) FunctionInfo" where
  "say_function =
     \<lparr>InType = [In_plain False (\<lambda>_. None) (Inl []) (\<lambda>v. case v of ROther (PSession s) \<Rightarrow> Inl (SessionId s) | _ \<Rightarrow> Inl []),
                 In_plain True (\<lambda>_. None) (Inr []) (\<lambda>v. case v of RBytes b \<Rightarrow> Inr b | _ \<Rightarrow> Inr [])],
       Function = (\<lambda>vs w. (Inr [OValue (ROther (PProtocol (rev (projr (vs ! 1))))), OValue RNil],
                          w @ [(projl (vs ! 0), projr (vs ! 1))])),
       Goroutine = False\<rparr>"

definition say_modules :: "(nat, unit, string + bytes, (string \<times> bytes) list) modules" where
  "say_modules = (\<lambda>_. (NewRPCServer [])\<lparr>rs_functions := [''HD_say'' \<mapsto> say_function]\<rparr>)"

definition say_args :: "(unit, gparam) arg_env" where
  "say_args = \<lparr>json_map = (\<lambda>_. Inl EOF), unjson_map = (\<lambda>_. Inl EOF), json_mapstr = (\<lambda>_. Inl EOF),
     unjson_mapstr = (\<lambda>_. Inl EOF), json_trace = (\<lambda>_. Inl EOF), unjson_trace = (\<lambda>_. Inl EOF), new_span = ''p'',
     serializes = gate_serializes (\<lambda>_. Inr [1]) (\<lambda>_. Inr (on_the_wire (SetTopic say_topic (Clone_imp ''x'' demo_session)))) ''y'',
     is_pointer = (\<lambda>_. True), is_nil = (\<lambda>_. False), as_proto = (\<lambda>_. None), as_marshaler = (\<lambda>_. None), type_name = (\<lambda>_. [])\<rparr>"

definition say_gate :: "(nat, (unit, gparam) rarg, (nat, unit, string + bytes, (string \<times> bytes) list) modules) aenv" where
  "say_gate = \<lparr>ae_GetRouteServer = (\<lambda>m. if m = ''chat'' then Inr 1 else Inl EOF),
     ae_json_ok = (\<lambda>_. True), ae_marshal = (\<lambda>_. Inr [1]),
     ae_CallArgs = (\<lambda>_ _ _ _ w. ((NoResult, None), w)), ae_CallNRArgs = (\<lambda>_ _ _ _ w. (None, w)),
     ae_ProtocolMarshal = (\<lambda>_ _ _. (Some [], None)), ae_Heartbeat = None, ae_heartbeat_ns = 0,
     ae_OnRoute = None\<rparr>"

lemma published_message_runs_function_witness:
  "\<exists>W'. recoverworker demo_env (with_modules say_args (\<lambda>_. NotPointer)
        (\<lambda>fn types args. CallArgs_info fn types args ''c1'' ''gate'' 0 0 True) say_gate) ''x'' say_pack (demo_agent, say_modules) =
      outcome_bind (toResult demo_env say_gate say_topic (fst (answer_of (ROther (PProtocol [5])) [])) (snd (answer_of (ROther (PProtocol [5]) :: (unit, gparam) rarg) []))
          (demo_agent\<lparr>ag_revNum := ag_revNum demo_agent + 1\<rparr>)) (\<lambda>(_, ag). Ret (ag, W')) \<and>
    world (W' 1) = [(''s1'', [5])] \<and> (\<forall>q. q \<noteq> 1 \<longrightarrow> W' q = say_modules q)"
proof -
  let ?request = "\<lambda>fn types args. CallArgs_info fn types args ''c1'' ''gate'' 0 0 True"
  note run = published_message_runs_function[where pk = say_pack and topic = say_topic and ag = demo_agent and s = demo_session
      and ae = say_gate and t = "''chat''" and fn = "''HD_say''" and msgid = "''7''" and srv = 1 and span = "''x''" and b = "[1]"
      and A = say_args and span' = "''y''" and request = ?request and W = say_modules and f = say_function
      and env = demo_env and ev = "\<lambda>_. NotPointer" and rerr = "[]" and w = "[(''s1'', [5])]" and ret = "OValue RNil"
      and v = "ROther (PProtocol [5])" and v' = "ROther (PProtocol [5])" and ty = RPCParamProtocolMarshalType and bs = "[5]"]
  show ?thesis
    by (rule run)
      (simp_all add: say_pack_def say_topic_def say_function_def say_modules_def say_args_def say_gate_def demo_agent_def demo_session_def
      NewRPCServer_def looks_like_json_def plain_value_def Clone_imp_def new_SessionImp_def result_error_def ArgsTypeAnd2Bytes_def
      other_to_bytes_def gate_serializes_def Serialize_def Deserialize_def Bytes2Args_def HasPrefix_def tag_defs
      RPCParamProtocolMarshalType_def RPCParamSessionType_def, simp_all)
qed

end
