(* ===== verification/Uri_Route.thy ===== *)
theory Uri_Route
  imports Gate_To_Module
begin

text \<open>
  The router for topics that are URIs (\<^verbatim>\<open>src/gate/uriroute/uri_route.go\<close>), as the route handler of an
  agent: im://host/function?msg_id=1 calls the function of a server of the module type im. \<open>url.Parse\<close>
  and \<open>url.ParseQuery\<close> are parameters; \<open>Selector\<close> and \<open>DataParsing\<close> are the functions a gate may set.
\<close>

section \<open>The route\<close>

record uri =
  u_Scheme :: string
  u_Hostname :: string
  u_Path :: string
  u_RawQuery :: string

record url_env =
  url_Parse :: "string \<Rightarrow> go_error + uri"
  url_ParseQuery :: "string \<Rightarrow> go_error + (string \<rightharpoonup> string list)"

text \<open>The calls with a parsed message are calls of the session with two parameters.\<close>

record ('srv, 'r, 'b, 'w) uri_route =
  ur_Selector :: "(session_imp \<Rightarrow> string \<Rightarrow> uri \<Rightarrow> go_error + 'srv) option"
  ur_DataParsing :: "(string \<Rightarrow> uri \<Rightarrow> bytes \<Rightarrow> 'b option \<times> go_error option) option"
  ur_Call :: "'srv \<Rightarrow> string \<Rightarrow> session_imp \<Rightarrow> 'b \<Rightarrow> 'w \<Rightarrow> ('r call_result \<times> go_error option) \<times> 'w"
  ur_CallNR :: "'srv \<Rightarrow> string \<Rightarrow> session_imp \<Rightarrow> 'b \<Rightarrow> 'w \<Rightarrow> go_error option \<times> 'w"

definition uri_module_type :: "uri \<Rightarrow> string" where
  "uri_module_type uu =
     (if u_Hostname uu = ''modulus'' \<or> u_Hostname uu = ''cache'' \<or> u_Hostname uu = ''random'' then u_Scheme uu
      else u_Scheme uu @ ''@'' @ u_Hostname uu)"

definition uri_select ::
    "('srv, 'r, 'b, 'w) uri_route \<Rightarrow> (string \<Rightarrow> go_error + 'srv) \<Rightarrow> session_imp \<Rightarrow> string \<Rightarrow> uri \<Rightarrow> go_error + 'srv" where
  "uri_select u GetRouteServer s topic uu =
     (case ur_Selector u of
        Some selector \<Rightarrow> selector s topic uu
      | None \<Rightarrow>
          (case GetRouteServer (uri_module_type uu) of
             Inl _ \<Rightarrow> Inl (Errorf ''Service(type:%s) not found'' [AS (uri_module_type uu)])
           | Inr ss \<Rightarrow> Inr ss))"

definition uri_bean :: "('srv, 'r, 'b, 'w) uri_route \<Rightarrow> string \<Rightarrow> uri \<Rightarrow> bytes \<Rightarrow> 'b option" where
  "uri_bean u topic uu msg =
     (case ur_DataParsing u of
        None \<Rightarrow> None
      | Some parsing \<Rightarrow> (case parsing topic uu msg of (bean, None) \<Rightarrow> bean | (_, Some _) \<Rightarrow> None))"

text \<open>The call without parsed data: the session and the message as they go over the wire.\<close>

definition uri_call_default ::
    "('srv, 'r, 'w) aenv \<Rightarrow> string \<Rightarrow> 'srv \<Rightarrow> string \<Rightarrow> bool \<Rightarrow> session_imp \<Rightarrow> string \<Rightarrow> bytes \<Rightarrow> 'w
      \<Rightarrow> (bool \<times> 'r call_result \<times> go_error option) \<times> 'w" where
  "uri_call_default ae span srv fn needreturn s topic msg w =
     (if looks_like_json msg \<and> \<not> ae_json_ok ae msg
      then ((needreturn, NoResult, Some (Errorf ''The JSON format is incorrect %v'' [])), w)
      else let types = [RPCParamSessionType, if looks_like_json msg then ''map'' else ''bytes'']
           in case ae_marshal ae (SetTopic topic (Clone_imp span s)) of
                Inl err \<Rightarrow> ((needreturn, NoResult, Some err), w)
              | Inr b \<Rightarrow>
                  if needreturn
                  then (case ae_CallArgs ae srv fn types [b, msg] w of ((result, e), w) \<Rightarrow> ((needreturn, result, e), w))
                  else (case ae_CallNRArgs ae srv fn types [b, msg] w of (e, w) \<Rightarrow> ((needreturn, NoResult, e), w)))"

text \<open>The result, the session with the topic set, and what the calls did to the world.\<close>

definition uri_OnRoute ::
    "url_env \<Rightarrow> ('srv, 'r, 'b, 'w) uri_route \<Rightarrow> ('srv, 'r, 'w) aenv \<Rightarrow> string \<Rightarrow> session_imp \<Rightarrow> string \<Rightarrow> bytes \<Rightarrow> 'w
      \<Rightarrow> ((bool \<times> 'r call_result \<times> go_error option) \<times> 'w) \<times> session_imp" where
  "uri_OnRoute U u ae span s topic msg w =
     (case url_Parse U topic of
        Inl err \<Rightarrow> (((True, NoResult, Some (Errorf ''topic is not uri %v'' [AS (error_text err)])), w), s)
      | Inr uu \<Rightarrow>
          (case url_ParseQuery U (u_RawQuery uu) of
             Inl err \<Rightarrow> (((True, NoResult, Some (Errorf ''parse query error %v'' [AS (error_text err)])), w), s)
           | Inr m \<Rightarrow>
               let needreturn = (m ''msg_id'' \<noteq> None);
                   s = SetTopic topic s
               in case uri_select u (ae_GetRouteServer ae) s topic uu of
                    Inl err \<Rightarrow> (((needreturn, NoResult, Some err), w), s)
                  | Inr srv \<Rightarrow>
                      (case uri_bean u topic uu msg of
                         Some bean \<Rightarrow>
                           if needreturn
                           then (case ur_Call u srv (u_Path uu) s bean w of ((result, e), w) \<Rightarrow> (((needreturn, result, e), w), s))
                           else (case ur_CallNR u srv (u_Path uu) s bean w of (e, w) \<Rightarrow> (((needreturn, NoResult, e), w), s))
                       | None \<Rightarrow> (uri_call_default ae span srv (u_Path uu) needreturn s topic msg w, s))))"

text \<open>
  The route as the handler of an agent. An agent without a session panics at \<open>SetTopic\<close>; the worker
  recovers and answers nothing.
\<close>

definition with_uri_route ::
    "url_env \<Rightarrow> ('srv, 'r, 'b, 'w) uri_route \<Rightarrow> string \<Rightarrow> ('srv, 'r, 'w) aenv \<Rightarrow> ('srv, 'r, 'w) aenv" where
  "with_uri_route U u span ae =
     ae\<lparr>ae_OnRoute := Some (\<lambda>session topic msg w.
          case session of None \<Rightarrow> ((False, NoResult, None), w) | Some s \<Rightarrow> fst (uri_OnRoute U u ae span s topic msg w))\<rparr>"

section \<open>From a topic to a function\<close>

text \<open>A message without msg_id is never answered once its topic is read, and an error is always answered to one with it.\<close>

lemma uri_answer_only_with_msg_id:
  assumes "url_Parse U topic = Inr uu" "url_ParseQuery U (u_RawQuery uu) = Inr m"
    "uri_OnRoute U u ae span s topic msg w = (((needreturn, result, err), w'), s')"
  shows "needreturn = (m ''msg_id'' \<noteq> None)"
  using assms
  by (auto simp: uri_OnRoute_def uri_call_default_def Let_def split: sum.splits option.splits prod.splits if_splits)

text \<open>A route whose server is not found reaches no function.\<close>

lemma uri_no_server:
  assumes "url_Parse U topic = Inr uu" "uri_select u (ae_GetRouteServer ae) (SetTopic topic s) topic uu = Inl e"
  shows "snd (fst (uri_OnRoute U u ae span s topic msg w)) = w"
  using assms by (auto simp: uri_OnRoute_def Let_def split: sum.splits)

lemma toResult_with_uri_route: "toResult env (with_uri_route U u span ae) = toResult env ae"
  by (rule toResult_cong) (simp add: with_uri_route_def)


definition uri_topic :: string where
  "uri_topic = ''chat://random/say?msg_id=7''"

definition sample_url :: url_env where
  "sample_url = \<lparr>url_Parse = (\<lambda>t. if t = uri_topic then Inr \<lparr>u_Scheme = ''chat'', u_Hostname = ''random'', u_Path = ''/say'', u_RawQuery = ''msg_id=7''\<rparr>
       else Inl EOF),
     url_ParseQuery = (\<lambda>q. if q = ''msg_id=7'' then Inr [''msg_id'' \<mapsto> [''7'']] else Inr Map.empty)\<rparr>"

definition uri_pack :: pack where
  "uri_pack = new_Pack\<lparr>msg_type := PUBLISH, variable := VPublish \<lparr>topic_name = Some uri_topic, pub_mid = 0, pub_msg = [5]\<rparr>\<rparr>"

definition plain_route :: "('srv, 'r, unit, 'w) uri_route" where
  "plain_route = \<lparr>ur_Selector = None, ur_DataParsing = None, ur_Call = (\<lambda>_ _ _ _ w. ((NoResult, None), w)), ur_CallNR = (\<lambda>_ _ _ _ w. (None, w))\<rparr>"

definition uri_modules :: "(nat, unit, string + bytes, (string \<times> bytes) list) modules" where
  "uri_modules = (\<lambda>_. (NewRPCServer [])\<lparr>rs_functions := [''/say'' \<mapsto> say_function]\<rparr>)"

definition uri_args :: "(unit, gparam) arg_env" where
  "uri_args = say_args\<lparr>serializes := gate_serializes (\<lambda>_. Inr [1])
     (\<lambda>_. Inr (on_the_wire (SetTopic uri_topic (Clone_imp ''x'' demo_session)))) ''y''\<rparr>"


end
