(* ===== verification/Consul_Watcher.thy ===== *)
theory Consul_Watcher
  imports Consul_Registry Cache_Selector
begin

text \<open>
  The watcher of the registry on Consul (\<^verbatim>\<open>src/registry/consul_watcher.go\<close>). \<open>handle\<close> receives the
  catalogue of services and starts and stops the plans of single services; \<open>serviceHandler\<close> receives a
  snapshot of one service and sends the difference to the one before as results; \<open>Next\<close> takes them, and \<open>Stop\<close>
  ends it. What a handler sends is appended to the channel: the channel holds ten results, and a
  handler that has to wait sends the same results later. Services are values: the results are as they
  are when they are sent. \<open>order\<close> is the order in which \<open>range\<close> visits the plans, \<open>parses\<close> says for which
  services \<^verbatim>\<open>watch.Parse\<close> succeeds.
\<close>

section \<open>The watcher\<close>

type_synonym result = "string \<times> service"

record consul_watcher =
  cw_Service :: string
  cw_wp :: bool
  cw_watchers :: "string list"
  cw_next :: "result list"
  cw_exit :: bool
  cw_services :: "string \<rightharpoonup> service list"

definition fresh_watcher :: "string \<Rightarrow> consul_watcher" where
  "fresh_watcher nm = \<lparr>cw_Service = nm, cw_wp = True, cw_watchers = [], cw_next = [], cw_exit = False,
     cw_services = Map.empty\<rparr>"

text \<open>\<open>parsed\<close> is the error of \<^verbatim>\<open>watch.Parse\<close> for the plan of the catalogue.\<close>

definition newConsulWatcher :: "go_error option \<Rightarrow> string \<Rightarrow> go_error + consul_watcher" where
  "newConsulWatcher parsed nm = (case parsed of Some err \<Rightarrow> Inl err | None \<Rightarrow> Inr (fresh_watcher nm))"

definition send :: "result list \<Rightarrow> consul_watcher \<Rightarrow> consul_watcher" where
  "send rs cw = cw\<lparr>cw_next := cw_next cw @ rs\<rparr>"

subsection \<open>A snapshot of one service\<close>

text \<open>The nodes of the old service that are not among those of the new one.\<close>

definition gone_nodes :: "service \<Rightarrow> service \<Rightarrow> node list" where
  "gone_nodes newService oldService =
     filter (\<lambda>oldNode. \<not> (\<exists>newNode \<in> set (Nodes newService). InstanceID newNode = InstanceID oldNode)) (Nodes oldService)"

definition old_version_results :: "service \<Rightarrow> service \<Rightarrow> result list" where
  "old_version_results newService oldService =
     (if Version oldService \<noteq> Version newService then []
      else let nodes = gone_nodes newService oldService
           in if length nodes > 0 then [(''delete'', oldService\<lparr>Nodes := nodes\<rparr>)] else [])"

definition new_service_results :: "service list option \<Rightarrow> service \<Rightarrow> result list" where
  "new_service_results old newService =
     (case old of
        None \<Rightarrow> [(''create'', newService)]
      | Some oldServices \<Rightarrow>
          concat (map (old_version_results newService) oldServices) @
          [(if \<exists>oldService \<in> set oldServices. Version oldService = Version newService then ''update'' else ''create'', newService)])"

definition old_services :: "service list option \<Rightarrow> service list" where
  "old_services old = (case old of None \<Rightarrow> [] | Some oldServices \<Rightarrow> oldServices)"

definition vanished_results :: "service list option \<Rightarrow> service_map \<Rightarrow> result list" where
  "vanished_results old serviceMap =
     map (Pair ''delete'') (filter (\<lambda>s. map_of serviceMap (Version s) = None) (old_services old))"

definition snapshot_results :: "service list option \<Rightarrow> service_map \<Rightarrow> service list \<Rightarrow> result list" where
  "snapshot_results old serviceMap newServices =
     concat (map (new_service_results old) newServices) @ vanished_results old serviceMap"

definition serviceHandler ::
    "tag_env \<Rightarrow> (service_map \<Rightarrow> service_map) \<Rightarrow> service_entry list option \<Rightarrow> consul_watcher \<Rightarrow> consul_watcher outcome" where
  "serviceHandler E shuffle data cw =
     (case data of
        None \<Rightarrow> Ret cw
      | Some entries \<Rightarrow>
          outcome_bind (add_entries E entries []) (\<lambda>serviceMap.
            let serviceName = (if entries = [] then [] else se_Service (last entries));
                newServices = map snd (shuffle serviceMap);
                cw = send (snapshot_results (cw_services cw serviceName) serviceMap newServices) cw
            in Ret (cw\<lparr>cw_services := (cw_services cw)(serviceName \<mapsto> newServices)\<rparr>)))"

subsection \<open>The catalogue\<close>

definition named_service :: "string \<Rightarrow> service" where
  "named_service nm = \<lparr>Name = nm, Version = [], sv_Metadata = None, Endpoints = [], Nodes = []\<rparr>"

definition add_watcher :: "(string \<Rightarrow> bool) \<Rightarrow> string \<Rightarrow> consul_watcher \<Rightarrow> consul_watcher" where
  "add_watcher parses service cw =
     (if length (cw_Service cw) > 0 \<and> service \<noteq> cw_Service cw then cw
      else if service \<in> set (cw_watchers cw) then cw
      else if parses service
      then send [(''create'', named_service service)] (cw\<lparr>cw_watchers := cw_watchers cw @ [service]\<rparr>)
      else cw)"

definition drop_watcher :: "string list \<Rightarrow> string \<Rightarrow> consul_watcher \<Rightarrow> consul_watcher" where
  "drop_watcher services service cw =
     (if service \<in> set services then cw
      else send [(''delete'', named_service service)]
             (cw\<lparr>cw_watchers := filter (\<lambda>w. w \<noteq> service) (cw_watchers cw)\<rparr>))"

definition cw_handle ::
    "(string \<Rightarrow> bool) \<Rightarrow> (string list \<Rightarrow> string list) \<Rightarrow> string list option \<Rightarrow> consul_watcher \<Rightarrow> consul_watcher" where
  "cw_handle parses order data cw =
     (case data of
        None \<Rightarrow> cw
      | Some services \<Rightarrow>
          let cw = fold (add_watcher parses) services cw;
              cw = cw\<lparr>cw_services := (\<lambda>nm. if nm \<in> set services then cw_services cw nm else None)\<rparr>
          in fold (drop_watcher services) (order (cw_watchers cw)) cw)"

subsection \<open>The receiving side\<close>

text \<open>With results waiting after \<open>Stop\<close>, \<open>select\<close> may do either.\<close>

inductive cw_Next :: "consul_watcher \<Rightarrow> go_error + result \<Rightarrow> consul_watcher \<Rightarrow> bool" where
  exited: "cw_exit cw \<Longrightarrow> cw_Next cw (Inl (Errorf ''result chan closed'' [])) cw"
| received: "cw_next cw = r # rs \<Longrightarrow> cw_Next cw (Inr r) (cw\<lparr>cw_next := rs\<rparr>)"

definition cw_Stop :: "consul_watcher \<Rightarrow> consul_watcher" where
  "cw_Stop cw =
     (if cw_exit cw then cw
      else let cw = cw\<lparr>cw_exit := True\<rparr>
           in if \<not> cw_wp cw then cw else cw\<lparr>cw_next := []\<rparr>)"

inductive_simps cw_Next_iff: "cw_Next cw res cw'"

section \<open>What the results of a snapshot say\<close>

text \<open>A result as a change of what is known of a service.\<close>

fun result_event :: "result \<Rightarrow> store_event" where
  "result_event (action, s) = (if action = ''delete'' then Deleted s else Added s)"

definition replay_results :: "result list \<Rightarrow> (string \<times> string \<rightharpoonup> node) \<Rightarrow> (string \<times> string \<rightharpoonup> node)" where
  "replay_results rs = replay (map result_event rs)"

text \<open>Only the results of a version change what is known of it.\<close>

definition of_version :: "string \<Rightarrow> result list \<Rightarrow> result list" where
  "of_version v = filter (\<lambda>r. Version (snd r) = v)"

lemma result_event_service [simp]: "event_service (result_event r) = snd r"
  by (cases r) simp

lemma event_patch_other: "Version (event_service e) \<noteq> v \<Longrightarrow> event_patch e (v, i) = None"
  by (cases e) auto

lemma replay_cong_key: "x k = y k \<Longrightarrow> replay es x k = replay es y k"
proof (induction es arbitrary: x y)
  case (Cons e es)
  have "patch (event_patch e) x k = patch (event_patch e) y k" 
    using Cons.prems by (simp add: patch_def split: option.splits)
  from Cons.IH[of "patch (event_patch e) x" "patch (event_patch e) y", OF this] show ?case by simp
qed simp

lemma replay_of_version: "replay_results rs x (v, i) = replay_results (of_version v rs) x (v, i)"
proof (induction rs arbitrary: x)
  case (Cons r rs)
  show ?case
  proof (cases "Version (snd r) = v")
    case True
    with Cons show ?thesis by (simp add: replay_results_def of_version_def)
  next
    case False
    then have "patch (event_patch (result_event r)) x (v, i) = x (v, i)"
      by (simp add: patch_def event_patch_other)
    with False Cons replay_cong_key[of "patch (event_patch (result_event r)) x" "(v, i)" x] show ?thesis
      by (simp add: replay_results_def of_version_def)
  qed
qed (simp add: replay_results_def of_version_def)

lemma of_version_append [simp]: "of_version v (xs @ ys) = of_version v xs @ of_version v ys"
  by (simp add: of_version_def)

lemma new_service_results_version: "r \<in> set (new_service_results old s) \<Longrightarrow> Version (snd r) = Version s"
  by (auto simp: new_service_results_def old_version_results_def Let_def split: option.splits if_splits)

lemma of_version_new:
  "of_version v (new_service_results old s) = (if Version s = v then new_service_results old s else [])"
  using new_service_results_version[of _ old s] by (auto simp: of_version_def filter_id_conv filter_empty_conv)

lemma of_version_news:
  assumes "distinct (map Version ss)" "s \<in> set ss"
  shows "of_version (Version s) (concat (map (new_service_results old) ss)) = new_service_results old s"
  using assms
proof (induction ss)
  case (Cons t ss)
  show ?case
  proof (cases "s = t")
    case True
    then have "Version s \<notin> Version ` set ss" using Cons.prems(1) by simp
    then have "of_version (Version s) (concat (map (new_service_results old) ss)) = []"
      by (force simp: of_version_def filter_empty_conv dest: new_service_results_version)
    with True show ?thesis by (simp add: of_version_new)
  next
    case False
    with Cons show ?thesis by (auto simp: of_version_new)
  qed
qed simp

lemma of_version_no_news:
  assumes "v \<notin> Version ` set ss"
  shows "of_version v (concat (map (new_service_results old) ss)) = []"
  using assms by (force simp: of_version_def filter_empty_conv dest: new_service_results_version)

lemma replay_append: "replay_results (xs @ ys) x = replay_results ys (replay_results xs x)"
  by (simp add: replay_results_def replay_def)


lemma sv_flat_at:
  "distinct (map Version ss) \<Longrightarrow> s \<in> set ss \<Longrightarrow> sv_flat ss (Version s, i) = node_map (Nodes s) i"
  by (metis (no_types, lifting) case_prod_conv in_set_conv_nth option.simps(5) sv_abs_nth sv_flat_def)

lemma sv_flat_none: "v \<notin> Version ` set ss \<Longrightarrow> sv_flat ss (v, i) = None"
  using sv_abs_None[of ss v] by (simp add: sv_flat_def)

lemma old_results_same:
  assumes "distinct (map Version olds)" "s' \<in> set olds" "Version s' = Version s"
  shows "concat (map (old_version_results s) olds) = old_version_results s s'"
  using assms
proof (induction olds)
  case (Cons t olds)
  show ?case
  proof (cases "t = s'")
    case True
    then have "\<forall>u \<in> set olds. old_version_results s u = []"
      using Cons.prems unfolding old_version_results_def by (metis distinct.simps(2) image_eqI list.map(2) set_map)
    with True show ?thesis by (simp add: concat_eq_Nil_conv)
  next
    case False
    with Cons.prems have "s' \<in> set olds" by simp
    then have "Version t \<noteq> Version s"
      using Cons.prems by (metis distinct.simps(2) image_eqI list.map(2) set_map)
    with False Cons show ?thesis by (auto simp: old_version_results_def)
  qed
qed simp

lemma old_results_other:
  "Version s \<notin> Version ` set olds \<Longrightarrow> concat (map (old_version_results s) olds) = []"
  by (induction olds) (auto simp: old_version_results_def)

lemma node_map_none: "node_map ns i = None \<longleftrightarrow> i \<notin> InstanceID ` set ns"
  using node_map_dom[of ns] by auto

lemma replay_old_new:
  assumes "a \<noteq> ''delete''"
  shows "replay_results (old_version_results s s' @ [(a, s)]) x (Version s, i) =
    (case node_map (Nodes s) i of
       Some n \<Rightarrow> Some n
     | None \<Rightarrow> if Version s' = Version s \<and> i \<in> InstanceID ` set (Nodes s') then None else x (Version s, i))"
proof (cases "node_map (Nodes s) i")
  case (Some n)
  then show ?thesis using assms by (simp add: replay_results_def patch_def)
next
  case None
  then have "i \<in> InstanceID ` set (gone_nodes s s') \<longleftrightarrow> i \<in> InstanceID ` set (Nodes s')"
    unfolding node_map_none gone_nodes_def by (auto simp: image_iff) metis
  with None assms show ?thesis
    by (auto simp: replay_results_def old_version_results_def patch_def Let_def split: if_splits)
qed

lemma replay_new_service:
  assumes "distinct (map Version (old_services old))"
  shows "replay_results (new_service_results old s) (sv_flat (old_services old)) (Version s, i) = node_map (Nodes s) i"
proof (cases "\<exists>s' \<in> set (old_services old). Version s' = Version s")
  case True
  then obtain olds s' where old: "old = Some olds" "s' \<in> set olds" "Version s' = Version s"
    by (cases old) (auto simp: old_services_def)
  then have r: "new_service_results old s = old_version_results s s' @ [(''update'', s)]"
    using assms by (auto simp: new_service_results_def old_services_def old_results_same)
  have "sv_flat (old_services old) (Version s, i) = node_map (Nodes s') i"
    using sv_flat_at[of olds s' i] assms old by (simp add: old_services_def)
  then show ?thesis
    unfolding r using replay_old_new[of "''update''" s s'] old(3) node_map_none[of "Nodes s'" i]
    by (simp split: option.splits)
next
  case False
  then have "new_service_results old s = [(''create'', s)]"
    using old_results_other[of s "old_services old"]
    by (cases old) (auto simp: new_service_results_def old_services_def old_version_results_def)
  moreover have "sv_flat (old_services old) (Version s, i) = None" using False by (intro sv_flat_none) auto
  ultimately show ?thesis by (auto simp: replay_results_def patch_def split: option.splits)
qed

lemma filter_version:
  "distinct (map Version ss) \<Longrightarrow> s \<in> set ss \<Longrightarrow> filter (\<lambda>t. Version t = Version s) ss = [s]"
proof (induction ss)
  case (Cons t ss)
  then show ?case by (cases "s = t") (auto simp: filter_empty_conv image_iff)
qed simp

lemma replay_vanished:
  assumes "distinct (map Version (old_services old))" "map_of m v = None"
  shows "replay_results (of_version v (vanished_results old m)) (sv_flat (old_services old)) (v, i) = None"
proof (cases "\<exists>s \<in> set (old_services old). Version s = v")
  case True
  then obtain s where s: "s \<in> set (old_services old)" "Version s = v" by blast
  have "filter (\<lambda>s. Version s = v) (old_services old) = [s]" using filter_version[OF assms(1) s(1)] s(2) by simp
  then have "of_version v (vanished_results old m) = [(''delete'', s)]"
    using s(2) assms(2)
    by (simp add: of_version_def vanished_results_def filter_map comp_def conj_commute cong: conj_cong)
  moreover have "sv_flat (old_services old) (v, i) = node_map (Nodes s) i"
    using sv_flat_at[OF assms(1) s(1)] s(2) by simp
  ultimately show ?thesis using s(2) by (simp add: replay_results_def patch_def node_map_none)
next
  case False
  then have "of_version v (vanished_results old m) = []"
    by (auto simp: of_version_def vanished_results_def filter_empty_conv)
  moreover have "sv_flat (old_services old) (v, i) = None" using False by (intro sv_flat_none) auto
  ultimately show ?thesis by (simp add: replay_results_def)
qed

text \<open>The whole difference.\<close>

lemma snapshot_difference:
  assumes "distinct (map Version (old_services old))" "groups E es m" "mset news = mset (map snd m)"
  shows "replay_results (snapshot_results old m news) (sv_flat (old_services old)) = sv_flat news"
proof
  fix k :: "string \<times> string"
  obtain v i where k: "k = (v, i)" by (cases k)
  have keys: "map fst m = map Version (map snd m)" "set news = snd ` set m"
    using assms(2) mset_eq_setD[OF assms(3)] by (auto simp: groups_def)
  have same: "mset (map Version news) = mset (map fst m)" using assms(3) keys(1) by (metis mset_map)
  then have d: "distinct (map Version news)"
    using assms(2) mset_eq_imp_distinct_iff[OF same] by (simp add: groups_def)
  have vs: "Version ` set news = fst ` set m" using mset_eq_setD[OF same] by (simp only: set_map)
  show "replay_results (snapshot_results old m news) (sv_flat (old_services old)) k = sv_flat news k"
  proof (cases "v \<in> Version ` set news")
    case True
    then obtain s where s: "s \<in> set news" "Version s = v" by blast
    have "map_of m v \<noteq> None" using True vs by (simp add: map_of_eq_None_iff)
    then have "of_version v (vanished_results old m) = []"
      by (auto simp: of_version_def vanished_results_def filter_empty_conv)
    then have "of_version v (snapshot_results old m news) = new_service_results old s"
      using of_version_news[OF d s(1)] s(2) by (simp add: snapshot_results_def)
    then show ?thesis
      using replay_new_service[OF assms(1), of s i] replay_of_version[of "snapshot_results old m news" _ v i]
        sv_flat_at[OF d s(1)] s(2) k by simp
  next
    case False
    then have "of_version v (snapshot_results old m news) = of_version v (vanished_results old m)"
      by (simp add: snapshot_results_def of_version_no_news)
    moreover have "map_of m v = None" using False vs by (simp add: map_of_eq_None_iff)
    ultimately show ?thesis
      using replay_vanished[OF assms(1)] replay_of_version[of "snapshot_results old m news" _ v i]
        sv_flat_none[OF False] k by simp
  qed
qed


section \<open>The watcher at work\<close>

inductive watch_step ::
    "tag_env \<Rightarrow> (service_map \<Rightarrow> service_map) \<Rightarrow> (string \<Rightarrow> bool) \<Rightarrow> (string list \<Rightarrow> string list)
      \<Rightarrow> consul_watcher \<Rightarrow> consul_watcher \<Rightarrow> bool"
  for E shuffle parses order where
  snapshot: "serviceHandler E shuffle data cw = Ret cw' \<Longrightarrow> watch_step E shuffle parses order cw cw'"
| catalogue: "watch_step E shuffle parses order cw (cw_handle parses order data cw)"
| taken: "cw_Next cw res cw' \<Longrightarrow> watch_step E shuffle parses order cw cw'"
| stop: "watch_step E shuffle parses order cw (cw_Stop cw)"

definition watch_init :: "consul_watcher \<Rightarrow> bool" where
  "watch_init cw \<longleftrightarrow> (\<exists>parsed nm. newConsulWatcher parsed nm = Inr cw)"

definition wanted :: "consul_watcher \<Rightarrow> string \<Rightarrow> bool" where
  "wanted cw nm \<longleftrightarrow> cw_Service cw = [] \<or> nm = cw_Service cw"

text \<open>One service per version in every snapshot kept, and one plan for each service that has one.\<close>

definition watch_inv :: "consul_watcher \<Rightarrow> bool" where
  "watch_inv cw \<longleftrightarrow> (\<forall>ss \<in> ran (cw_services cw). distinct (map Version ss)) \<and>
     distinct (cw_watchers cw) \<and> (\<forall>nm \<in> set (cw_watchers cw). wanted cw nm)"

lemma send_simps [simp]:
  "cw_Service (send rs cw) = cw_Service cw" "cw_watchers (send rs cw) = cw_watchers cw"
  "cw_services (send rs cw) = cw_services cw" "cw_next (send rs cw) = cw_next cw @ rs" "cw_wp (send rs cw) = cw_wp cw"
  "cw_exit (send rs cw) = cw_exit cw"
  by (simp_all add: send_def)

lemma serviceHandler_Some:
  assumes "serviceHandler E shuffle (Some entries) cw = Ret cw'"
  obtains m where "add_entries E entries [] = Ret m" "groups E entries m"
    "cw' = (let nm = (if entries = [] then [] else se_Service (last entries)); news = map snd (shuffle m);
              cw1 = send (snapshot_results (cw_services cw nm) m news) cw
            in cw1\<lparr>cw_services := (cw_services cw1)(nm \<mapsto> news)\<rparr>)"
  using assms add_entries_groups by (auto simp: serviceHandler_def outcome_bind_Ret_iff Let_def)

lemma groups_versions:
  assumes "groups E es m" "mset m' = mset m"
  shows "distinct (map Version (map snd m'))"
proof -
  have "map Version (map snd m') = map fst m'"
    using assms(1) mset_eq_setD[OF assms(2)] by (auto simp: groups_def)
  moreover have "distinct (map fst m')"
    using assms mset_eq_imp_distinct_iff[of "map fst m'" "map fst m"] by (simp add: groups_def)
  ultimately show ?thesis by (simp only:)
qed

text \<open>What the loop over the catalogue, and the one over the plans, do.\<close>

lemma add_watchers_effect:
  "cw_Service (fold (add_watcher parses) ss cw) = cw_Service cw \<and>
   cw_services (fold (add_watcher parses) ss cw) = cw_services cw \<and>
   (distinct (cw_watchers cw) \<longrightarrow> distinct (cw_watchers (fold (add_watcher parses) ss cw))) \<and>
   set (cw_watchers (fold (add_watcher parses) ss cw)) =
     set (cw_watchers cw) \<union> {nm \<in> set ss. wanted cw nm \<and> parses nm} \<and>
   (\<exists>new. cw_watchers (fold (add_watcher parses) ss cw) = cw_watchers cw @ new \<and>
     cw_next (fold (add_watcher parses) ss cw) = cw_next cw @ map (\<lambda>nm. (''create'', named_service nm)) new)"
proof (induction ss arbitrary: cw)
  case (Cons nm ss)
  have one: "cw_Service (add_watcher parses nm cw) = cw_Service cw"
    "cw_services (add_watcher parses nm cw) = cw_services cw"
    "distinct (cw_watchers cw) \<Longrightarrow> distinct (cw_watchers (add_watcher parses nm cw))"
    "set (cw_watchers (add_watcher parses nm cw)) = set (cw_watchers cw) \<union> {x. x = nm \<and> wanted cw x \<and> parses x}"
    "\<exists>new. cw_watchers (add_watcher parses nm cw) = cw_watchers cw @ new \<and>
       cw_next (add_watcher parses nm cw) = cw_next cw @ map (\<lambda>nm. (''create'', named_service nm)) new"
    by (auto simp: add_watcher_def wanted_def)
  have w: "wanted (add_watcher parses nm cw) = wanted cw" using one(1) by (simp add: wanted_def fun_eq_iff)
  obtain new where new: "cw_watchers (add_watcher parses nm cw) = cw_watchers cw @ new"
      "cw_next (add_watcher parses nm cw) = cw_next cw @ map (\<lambda>nm. (''create'', named_service nm)) new"
    using one(5) by blast
  note IH = Cons.IH[of "add_watcher parses nm cw"]
  then obtain new' where "cw_watchers (fold (add_watcher parses) (nm # ss) cw) = cw_watchers cw @ new @ new'"
      "cw_next (fold (add_watcher parses) (nm # ss) cw) = cw_next cw @ map (\<lambda>nm. (''create'', named_service nm)) (new @ new')"
    using new by auto
  moreover have "set (cw_watchers (fold (add_watcher parses) (nm # ss) cw)) =
      set (cw_watchers cw) \<union> {x \<in> set (nm # ss). wanted cw x \<and> parses x}"
    using IH one(4) w by auto
  ultimately show ?case using IH one(1-3) by auto
qed simp

lemma drop_watchers_effect:
  "cw_Service (fold (drop_watcher ss) ws cw) = cw_Service cw \<and>
   cw_services (fold (drop_watcher ss) ws cw) = cw_services cw \<and>
   cw_watchers (fold (drop_watcher ss) ws cw) = filter (\<lambda>w. w \<notin> set ws \<or> w \<in> set ss) (cw_watchers cw) \<and>
   cw_next (fold (drop_watcher ss) ws cw) =
     cw_next cw @ map (\<lambda>w. (''delete'', named_service w)) (filter (\<lambda>w. w \<notin> set ss) ws)"
proof (induction ws arbitrary: cw)
  case (Cons w ws)
  then show ?case by (auto simp: drop_watcher_def intro!: filter_cong)
qed simp

lemma handle_effect:
  fixes parses ss cw
  assumes "\<And>ws. set (order ws) = set ws"
  defines "cw' \<equiv> \<lambda>ss cw. cw_handle parses order (Some ss) cw"
  shows "cw_Service (cw' ss cw) = cw_Service cw"
    and "cw_services (cw' ss cw) = cw_services cw |` set ss"
    and "set (cw_watchers (cw' ss cw)) =
      {nm \<in> set ss. nm \<in> set (cw_watchers cw) \<or> wanted cw nm \<and> parses nm}"
    and "distinct (cw_watchers cw) \<Longrightarrow> distinct (cw_watchers (cw' ss cw))"
proof -
  let ?f = "fold (add_watcher parses) ss cw"
  let ?g = "?f\<lparr>cw_services := \<lambda>nm. if nm \<in> set ss then cw_services ?f nm else None\<rparr>"
  have c: "cw' ss cw = fold (drop_watcher ss) (order (cw_watchers ?g)) ?g"
    by (simp add: cw'_def cw_handle_def Let_def)
  note a = add_watchers_effect[of parses ss cw] and d = drop_watchers_effect[of ss "order (cw_watchers ?g)" ?g]
  show "cw_Service (cw' ss cw) = cw_Service cw" using a d c by simp
  show "cw_services (cw' ss cw) = cw_services cw |` set ss" using a d c by (auto simp: restrict_map_def fun_eq_iff)
  have w: "cw_watchers (cw' ss cw) = filter (\<lambda>w. w \<in> set ss) (cw_watchers ?f)"
    using d c assms(1) by (auto intro!: filter_cong)
  then show "set (cw_watchers (cw' ss cw)) = {nm \<in> set ss. nm \<in> set (cw_watchers cw) \<or> wanted cw nm \<and> parses nm}"
    using a by auto
  show "distinct (cw_watchers cw) \<Longrightarrow> distinct (cw_watchers (cw' ss cw))" using w a by simp
qed


lemma watch_inv_step:
  assumes "\<And>m. mset (shuffle m) = mset m" "\<And>ws. set (order ws) = set ws"
    "watch_inv cw" "watch_step E shuffle parses order cw cw'"
  shows "watch_inv cw'"
  using assms(4)
proof cases
  case (snapshot data)
  show ?thesis
  proof (cases data)
    case None
    with snapshot assms(3) show ?thesis by (simp add: serviceHandler_def)
  next
    case (Some entries)
    obtain m where m: "groups E entries m"
      "cw' = (let nm = (if entries = [] then [] else se_Service (last entries)); news = map snd (shuffle m);
              cw1 = send (snapshot_results (cw_services cw nm) m news) cw
            in cw1\<lparr>cw_services := (cw_services cw1)(nm \<mapsto> news)\<rparr>)"
      using serviceHandler_Some[of E shuffle entries cw cw'] snapshot Some by blast
    have "distinct (map Version (map snd (shuffle m)))" using groups_versions[OF m(1) assms(1)] .
    then show ?thesis
      using assms(3) unfolding m(2) watch_inv_def by (auto simp: Let_def wanted_def ran_def split: if_splits)
  qed
next
  case (catalogue data)
  show ?thesis
  proof (cases data)
    case None
    with catalogue assms(3) show ?thesis by (simp add: cw_handle_def)
  next
    case (Some ss)
    note h = handle_effect[where order = order and parses = parses and ss = ss and cw = cw, OF assms(2)]
    have "ran (cw_services cw |` set ss) \<subseteq> ran (cw_services cw)" by (auto simp: ran_def restrict_map_def)
    then show ?thesis
      using assms(3) h unfolding catalogue Some watch_inv_def by (auto simp: wanted_def)
  qed
next
  case (taken res)
  with assms(3) show ?thesis by (auto simp: cw_Next_iff watch_inv_def wanted_def)
next
  case stop
  with assms(3) show ?thesis by (simp add: cw_Stop_def watch_inv_def wanted_def Let_def)
qed

text \<open>The orders \<open>range\<close> may take.\<close>

definition visits_all :: "(service_map \<Rightarrow> service_map) \<Rightarrow> (string list \<Rightarrow> string list) \<Rightarrow> bool" where
  "visits_all shuffle order \<longleftrightarrow> (\<forall>m. mset (shuffle m) = mset m) \<and> (\<forall>ws. mset (order ws) = mset ws)"

interpretation watch_sys: invariant_system watch_init "watch_step E shuffle parses order"
  "\<lambda>cw. visits_all shuffle order \<longrightarrow> watch_inv cw" for E shuffle parses order
proof
  show "watch_init cw \<Longrightarrow> visits_all shuffle order \<longrightarrow> watch_inv cw" for cw
    by (auto simp: watch_init_def newConsulWatcher_def fresh_watcher_def watch_inv_def split: option.splits)
  show "visits_all shuffle order \<longrightarrow> watch_inv cw'"
    if "visits_all shuffle order \<longrightarrow> watch_inv cw" "watch_step E shuffle parses order cw cw'" for cw cw'
  proof
    assume v: "visits_all shuffle order"
    then have "set (order ws) = set ws" for ws by (metis visits_all_def mset_eq_setD)
    with v that show "watch_inv cw'" using watch_inv_step[of shuffle order cw E parses cw'] by (simp add: visits_all_def)
  qed
qed



definition plain_entry :: "string \<Rightarrow> string list \<Rightarrow> service_entry" where
  "plain_entry i checks = \<lparr>se_Service = ''chat'', se_ID = i, se_Tags = [], se_Meta = Map.empty, se_Address = ''10.0.0.1'',
     se_Port = 80, se_NodeAddress = [], se_Checks = checks\<rparr>"

definition plain_node :: "string \<Rightarrow> node" where
  "plain_node i = \<lparr>StartedAt = 0, ServerID = [], InstanceID = i, Address = ''10.0.0.1'', Port = 80,
     nd_Metadata = Some Map.empty\<rparr>"

definition plain_service :: "node list \<Rightarrow> service" where
  "plain_service ns = \<lparr>Name = ''chat'', Version = [], sv_Metadata = None, Endpoints = [], Nodes = ns\<rparr>"

definition entries_client :: "service_entry list \<Rightarrow> unit consul_client" where
  "entries_client es = \<lparr>PassTTL = (\<lambda>_ st. (None, st)), ServiceRegister = (\<lambda>_ st. (None, st)),
     ServiceDeregister = (\<lambda>_ st. (None, st)), Health_Service = (\<lambda>_ _. Inr es), Health_Connect = (\<lambda>_ _. Inr es),
     Catalog_Services = (\<lambda>_. Inr [])\<rparr>"

lemma plain_entries:
  "add_entries plain_tag_env [plain_entry a [], plain_entry b []] [] =
    Ret [([], plain_service [plain_node a, plain_node b])]"
  by (simp add: plain_entry_def plain_node_def plain_service_def add_entry_def find_version_def entry_version_def
      decodeEndpoints_def decodeMetadata_def entry_node_def critical_def append_node_def decodeStartedAt_def map_str_def)

lemma visits_all_id: "visits_all (\<lambda>m. m) (\<lambda>ws. ws)"
  by (simp add: visits_all_def)

lemma plain_snapshot:
  "serviceHandler plain_tag_env (\<lambda>m. m) (Some [plain_entry a [], plain_entry b []]) cw =
    (let news = [plain_service [plain_node a, plain_node b]];
         cw1 = send (snapshot_results (cw_services cw ''chat'') [([], hd news)] news) cw
     in Ret (cw1\<lparr>cw_services := (cw_services cw1)(''chat'' \<mapsto> news)\<rparr>))"
proof -
  have "se_Service (plain_entry b []) = ''chat''" by (simp add: plain_entry_def)
  then show ?thesis
    unfolding serviceHandler_def option.case plain_entries outcome_bind_simps by (simp add: Let_def)
qed


text \<open>The catalogue decides what is watched. After a watcher with any history has seen a catalogue, it
  has one plan for exactly those services of the catalogue that it was asked to watch and that could
  be parsed now or earlier; it keeps no snapshot of a service that is not in the catalogue; and a service
  whose plan it stopped is reported as deleted.\<close>

theorem catalogue_decides_watched:
  fixes services
  assumes "visits_all shuffle order" "reach watch_init (watch_step E shuffle parses order) cw"
  defines "cw' \<equiv> cw_handle parses order (Some services) cw"
  shows "distinct (cw_watchers cw') \<and>
    set (cw_watchers cw') = {nm \<in> set services. wanted cw nm \<and> (nm \<in> set (cw_watchers cw) \<or> parses nm)} \<and>
    dom (cw_services cw') \<subseteq> set services \<and>
    (\<forall>nm \<in> set (cw_watchers cw) - set services. (''delete'', named_service nm) \<in> set (cw_next cw'))"
proof -
  have inv: "watch_inv cw" using watch_sys.inv_reach[OF assms(2)] assms(1) by blast
  have o: "set (order ws) = set ws" for ws using assms(1) by (metis visits_all_def mset_eq_setD)
  note h = handle_effect[where order = order and parses = parses and ss = services and cw = cw, OF o]
  let ?f = "fold (add_watcher parses) services cw"
  let ?g = "?f\<lparr>cw_services := \<lambda>nm. if nm \<in> set services then cw_services ?f nm else None\<rparr>"
  have "cw_next cw' = cw_next ?f @ map (\<lambda>w. (''delete'', named_service w))
      (filter (\<lambda>w. w \<notin> set services) (order (cw_watchers ?f)))"
    using drop_watchers_effect[of services "order (cw_watchers ?g)" ?g] by (simp add: cw'_def cw_handle_def Let_def)
  then have "\<forall>nm \<in> set (cw_watchers cw) - set services. (''delete'', named_service nm) \<in> set (cw_next cw')"
    using add_watchers_effect[of parses services cw] o by auto
  moreover have "set (cw_watchers cw') = {nm \<in> set services. wanted cw nm \<and> (nm \<in> set (cw_watchers cw) \<or> parses nm)}"
    using h(3) inv unfolding cw'_def watch_inv_def by auto
  moreover have "dom (cw_services cw') \<subseteq> set services" unfolding cw'_def h(2) by auto
  moreover have "distinct (cw_watchers cw')" using h(4) inv by (simp add: cw'_def watch_inv_def)
  ultimately show ?thesis by blast
qed

theorem catalogue_decides_watched_witness:
  "set (cw_watchers (cw_handle (\<lambda>_. True) (\<lambda>ws. ws) (Some [''gate'', ''chat'']) (fresh_watcher ''chat''))) = {''chat''}"
proof -
  have "reach watch_init (watch_step plain_tag_env (\<lambda>m. m) (\<lambda>_. True) (\<lambda>ws. ws)) (fresh_watcher ''chat'')"
    by (rule reach_init) (auto simp: watch_init_def newConsulWatcher_def split: option.splits)
  from catalogue_decides_watched[OF visits_all_id this, of "[''gate'', ''chat'']"] show ?thesis
    by (auto simp: wanted_def fresh_watcher_def)
qed

section \<open>Where the watcher and its consumer differ\<close>

text \<open>A snapshot without entries names no service: nothing is sent, whatever was known.\<close>

lemma empty_snapshot_silent:
  "cw_services cw [] = None \<Longrightarrow> mset (shuffle []) = mset [] \<Longrightarrow>
    serviceHandler E shuffle (Some []) cw = Ret (cw\<lparr>cw_services := (cw_services cw)([] \<mapsto> [])\<rparr>)"
  by (simp add: serviceHandler_def snapshot_results_def vanished_results_def old_services_def send_def)

text \<open>A version whose nodes were all critical vanishes: the result has no nodes, and the cache takes it for
  the end of the whole service, reporting the nodes of the other versions as removed.\<close>

lemma critical_version_drops_service:
  assumes "old \<in> set (old_services (cw_services cw nm))" "Nodes old = []" "Name old = nm" "map_of m (Version old) = None"
    "c_cache c nm = Some services"
  shows "(''delete'', old) \<in> set (snapshot_results (cw_services cw nm) m news) \<and>
    c_update now ''delete'' old c = (service_nodes services, c_del nm c)"
  using assms by (auto simp: snapshot_results_def vanished_results_def c_update_def Let_def)

end
