(* ===== verification/Etcd_Registry.thy ===== *)
theory Etcd_Registry
  imports Service_Life
begin

text \<open>
  The registry on etcd (\<^verbatim>\<open>src/registry/etcdv3/etcdv3.go\<close>, \<^verbatim>\<open>src/registry/etcdv3/watcher.go\<close>): registration under a
  lease with its tables of hashes and leases, deregistration, lookup, listing, and the watcher. The etcd
  client is the record \<open>etcd_client\<close> over a state of any type, JSON the record \<open>service_json\<close>, \<open>hash\<close> the hash of a
  service. The second part shows that it is a registry in the sense of \<open>service_registry\<close>.
\<close>

section \<open>Paths\<close>

text \<open>\<open>path.Join\<close> for a first element that begins with a slash.\<close>

definition clean_step :: "string list \<Rightarrow> string \<Rightarrow> string list" where
  "clean_step acc c = (if c = [] \<or> c = ''.'' then acc else if c = ''..'' then butlast acc else acc @ [c])"

definition path_Join :: "string list \<Rightarrow> string" where
  "path_Join els = CHR ''/'' # join_with CHR ''/'' (foldl clean_step [] (concat (map (split_on CHR ''/'') els)))"

definition no_slashes :: "string \<Rightarrow> string" where
  "no_slashes s = map (\<lambda>c. if c = CHR ''/'' then CHR ''-'' else c) s"

definition etcd_prefix :: string where
  "etcd_prefix = ''/mqant-registry''"

definition nodePath :: "string \<Rightarrow> string \<Rightarrow> string" where
  "nodePath s i = path_Join [etcd_prefix, no_slashes s, no_slashes i]"

definition servicePath :: "string \<Rightarrow> string" where
  "servicePath s = path_Join [etcd_prefix, no_slashes s]"

section \<open>The registry\<close>

record service_json =
  json_service :: "service \<Rightarrow> string option"
  unjson_service :: "string \<Rightarrow> service option"

record 'c etcd_client =
  KeepAliveOnce :: "int \<Rightarrow> 'c \<Rightarrow> go_error option \<times> 'c"
  Grant :: "int \<Rightarrow> 'c \<Rightarrow> (go_error + int) \<times> 'c"
  etcd_Put :: "string \<Rightarrow> string \<Rightarrow> int option \<Rightarrow> 'c \<Rightarrow> go_error option \<times> 'c"
  etcd_Delete :: "string \<Rightarrow> 'c \<Rightarrow> go_error option \<times> 'c"
  Get_prefix :: "string \<Rightarrow> 'c \<Rightarrow> go_error + (string \<times> string) list"
  ErrLeaseNotFound :: go_error

record etcd_registry =
  er_register :: "string \<rightharpoonup> nat"
  er_leases :: "string \<rightharpoonup> int"

definition etcd_encode :: "service_json \<Rightarrow> service \<Rightarrow> string" where
  "etcd_encode J s = (case json_service J s of None \<Rightarrow> [] | Some b \<Rightarrow> b)"

definition etcd_decode :: "service_json \<Rightarrow> string \<Rightarrow> service option" where
  "etcd_decode J ds = unjson_service J ds"

fun delete_nodes :: "'c etcd_client \<Rightarrow> string \<Rightarrow> node list \<Rightarrow> 'c \<Rightarrow> go_error option \<times> 'c" where
  "delete_nodes C nm [] st = (None, st)"
| "delete_nodes C nm (n # ns) st =
     (case etcd_Delete C (nodePath nm (InstanceID n)) st of
        (Some err, st) \<Rightarrow> (Some err, st)
      | (None, st) \<Rightarrow> delete_nodes C nm ns st)"

definition etcd_error_one_node :: go_error where
  "etcd_error_one_node = Errorf ''Require at least one node'' []"

definition etcd_Deregister ::
    "'c etcd_client \<Rightarrow> service \<Rightarrow> etcd_registry \<times> 'c \<Rightarrow> go_error option \<times> etcd_registry \<times> 'c" where
  "etcd_Deregister C s est =
     (case est of (e, st) \<Rightarrow>
        if length (Nodes s) = 0 then (Some etcd_error_one_node, e, st)
        else let e = e\<lparr>er_register := (er_register e)(Name s := None), er_leases := (er_leases e)(Name s := None)\<rparr>;
                 (err, st) = delete_nodes C (Name s) (Nodes s) st
             in (err, e, st))"

fun put_nodes :: "service_json \<Rightarrow> 'c etcd_client \<Rightarrow> service \<Rightarrow> int option \<Rightarrow> node list \<Rightarrow> 'c \<Rightarrow> go_error option \<times> 'c" where
  "put_nodes J C service lease [] st = (None, st)"
| "put_nodes J C service lease (n # ns) st =
     (case etcd_Put C (nodePath (Name service) (InstanceID n)) (etcd_encode J (service\<lparr>Nodes := [n]\<rparr>)) lease st of
        (Some err, st) \<Rightarrow> (Some err, st)
      | (None, st) \<Rightarrow> put_nodes J C service lease ns st)"

text \<open>The part of \<open>Register\<close> after the check that the service is unchanged. A duration has nanoseconds.\<close>

definition etcd_full_register ::
    "service_json \<Rightarrow> 'c etcd_client \<Rightarrow> service \<Rightarrow> int \<Rightarrow> nat \<Rightarrow> etcd_registry \<times> 'c \<Rightarrow> go_error option \<times> etcd_registry \<times> 'c" where
  "etcd_full_register J C s ttl h est =
     (case est of (e, st) \<Rightarrow>
        let (granted, st) = (if ttl > 0 then (case Grant C (ttl div go_Second) st of (r, st) \<Rightarrow> (map_sum id Some r, st))
                             else (Inr None, st))
        in case granted of
             Inl err \<Rightarrow> (Some err, e, st)
           | Inr lease \<Rightarrow>
               (case put_nodes J C s lease (Nodes s) st of
                  (Some err, st) \<Rightarrow> (Some err, e, st)
                | (None, st) \<Rightarrow>
                    (None, e\<lparr>er_register := (er_register e)(Name s \<mapsto> h),
                       er_leases := (case lease of None \<Rightarrow> er_leases e | Some l \<Rightarrow> (er_leases e)(Name s \<mapsto> l))\<rparr>, st)))"

text \<open>The refreshing of an existing lease: an error to return, or whether the lease was lost.\<close>

definition refresh_lease :: "'c etcd_client \<Rightarrow> string \<Rightarrow> etcd_registry \<times> 'c \<Rightarrow> (go_error + bool) \<times> 'c" where
  "refresh_lease C nm est =
     (case est of (e, st) \<Rightarrow>
        case er_leases e nm of
          None \<Rightarrow> (Inr False, st)
        | Some l \<Rightarrow>
            (case KeepAliveOnce C l st of
               (None, st) \<Rightarrow> (Inr False, st)
             | (Some err, st) \<Rightarrow> if err \<noteq> ErrLeaseNotFound C then (Inl err, st) else (Inr True, st)))"

definition etcd_Register ::
    "service_json \<Rightarrow> (service \<Rightarrow> go_error + nat) \<Rightarrow> 'c etcd_client \<Rightarrow> service \<Rightarrow> int \<Rightarrow> etcd_registry \<times> 'c
      \<Rightarrow> go_error option \<times> etcd_registry \<times> 'c" where
  "etcd_Register J hash C s ttl est =
     (case est of (e, st) \<Rightarrow>
        if length (Nodes s) = 0 then (Some etcd_error_one_node, e, st)
        else case refresh_lease C (Name s) (e, st) of
          (Inl err, st) \<Rightarrow> (Some err, e, st)
        | (Inr leaseNotFound, st) \<Rightarrow>
            (case hash s of
               Inl err \<Rightarrow> (Some err, e, st)
             | Inr h \<Rightarrow>
                 if er_register e (Name s) = Some h \<and> \<not> leaseNotFound then (None, e, st)
                 else etcd_full_register J C s ttl h (e, st)))"

definition add_kv :: "service_json \<Rightarrow> string \<times> string \<Rightarrow> service_map \<Rightarrow> service_map" where
  "add_kv J kv m =
     (case etcd_decode J (snd kv) of
        None \<Rightarrow> m
      | Some sn \<Rightarrow>
          let m = (if map_of m (Version sn) = None then m @ [(Version sn, sn\<lparr>Nodes := []\<rparr>)] else m)
          in map (\<lambda>(v, s). (v, if v = Version sn then s\<lparr>Nodes := Nodes s @ Nodes sn\<rparr> else s)) m)"

definition etcd_GetService ::
    "service_json \<Rightarrow> (service_map \<Rightarrow> service_map) \<Rightarrow> 'c etcd_client \<Rightarrow> string \<Rightarrow> 'c \<Rightarrow> go_error + service list" where
  "etcd_GetService J shuffle C nm st =
     (case Get_prefix C (servicePath nm @ ''/'') st of
        Inl err \<Rightarrow> Inl err
      | Inr kvs \<Rightarrow> if length kvs = 0 then Inl registry_ErrNotFound else Inr (map snd (shuffle (fold (add_kv J) kvs []))))"

definition etcd_ListServices ::
    "service_json \<Rightarrow> (string list \<Rightarrow> string list) \<Rightarrow> 'c etcd_client \<Rightarrow> 'c \<Rightarrow> go_error + service list" where
  "etcd_ListServices J order C st =
     (case Get_prefix C etcd_prefix st of
        Inl err \<Rightarrow> Inl err
      | Inr kvs \<Rightarrow>
          Inr (map (\<lambda>nm. \<lparr>Name = nm, Version = [], sv_Metadata = None, Endpoints = [], Nodes = []\<rparr>)
            (order (remdups (concat (map (\<lambda>kv. case etcd_decode J (snd kv) of None \<Rightarrow> [] | Some sn \<Rightarrow> [Name sn]) kvs))))))"

section \<open>The watcher\<close>

record etcd_event =
  ev_delete :: bool
  ev_create :: bool
  ev_modify :: bool
  ev_value :: string
  ev_prev :: "string option"

definition event_result :: "service_json \<Rightarrow> etcd_event \<Rightarrow> (string \<times> service) option outcome" where
  "event_result J ev =
     (if ev_delete ev
      then (case ev_prev ev of
              None \<Rightarrow> Panic ''invalid memory address or nil pointer dereference''
            | Some pv \<Rightarrow> Ret (map_option (Pair ''delete'') (etcd_decode J pv)))
      else let action = (if ev_create ev then ''create'' else if ev_modify ev then ''update'' else [])
           in Ret (map_option (Pair action) (etcd_decode J (ev_value ev))))"

text \<open>The first event of a response that has a service.\<close>

fun first_event :: "service_json \<Rightarrow> etcd_event list \<Rightarrow> (string \<times> service) option outcome" where
  "first_event J [] = Ret None"
| "first_event J (ev # evs) =
     outcome_bind (event_result J ev) (\<lambda>r. case r of None \<Rightarrow> first_event J evs | Some x \<Rightarrow> Ret (Some x))"

text \<open>The responses waiting in the channel, and those left after \<open>Next\<close>; a closed channel is an empty list.\<close>

fun etcd_Next ::
    "service_json \<Rightarrow> (go_error + etcd_event list) list
      \<Rightarrow> ((go_error + string \<times> service) \<times> (go_error + etcd_event list) list) outcome" where
  "etcd_Next J [] = Ret (Inl (Errorf ''could not get next'' []), [])"
| "etcd_Next J (wresp # w) =
     (case wresp of
        Inl err \<Rightarrow> Ret (Inl err, w)
      | Inr evs \<Rightarrow> outcome_bind (first_event J evs) (\<lambda>r. case r of None \<Rightarrow> etcd_Next J w | Some x \<Rightarrow> Ret (Inr x, w)))"

definition etcd_watchPath :: "string \<Rightarrow> string" where
  "etcd_watchPath service = (if length service > 0 then servicePath service @ ''/'' else etcd_prefix)"

text \<open>Two changes that etcd reports together: the second is never seen.\<close>

lemma etcd_Next_loses_events:
  assumes "event_result J e1 = Ret (Some x)"
  shows "etcd_Next J (Inr (e1 # evs) # w) = Ret (Inr x, w)"
  using assms by simp


section \<open>A registry like the others\<close>

text \<open>
  What the code relies on from etcd, \<open>kv\<close> being the keys it has: a write that succeeds is visible, one that
  fails changes nothing, and leases do not change keys by themselves as long as they are kept alive.
\<close>

definition etcd_writes_ok :: "'c etcd_client \<Rightarrow> ('c \<Rightarrow> string \<rightharpoonup> string) \<Rightarrow> bool" where
  "etcd_writes_ok C kv \<longleftrightarrow>
     (\<forall>k v l st. case etcd_Put C k v l st of (None, st') \<Rightarrow> kv st' = (kv st)(k \<mapsto> v) | (Some _, st') \<Rightarrow> kv st' = kv st) \<and>
     (\<forall>k st. case etcd_Delete C k st of (None, st') \<Rightarrow> kv st' = (kv st)(k := None) | (Some _, st') \<Rightarrow> kv st' = kv st) \<and>
     (\<forall>l st. kv (snd (KeepAliveOnce C l st)) = kv st) \<and> (\<forall>t st. kv (snd (Grant C t st)) = kv st)"

definition etcd_query_ok :: "'c etcd_client \<Rightarrow> ('c \<Rightarrow> string \<rightharpoonup> string) \<Rightarrow> bool" where
  "etcd_query_ok C kv \<longleftrightarrow>
     (\<forall>p st kvs. Get_prefix C p st = Inr kvs \<longrightarrow> (\<forall>k v. kv st k = Some v \<and> take (length p) k = p \<longrightarrow> (k, v) \<in> set kvs))"

definition etcd_lists :: "service_json \<Rightarrow> ('c \<Rightarrow> string \<rightharpoonup> string) \<Rightarrow> service \<Rightarrow> etcd_registry \<times> 'c \<Rightarrow> bool" where
  "etcd_lists J kv svc est \<longleftrightarrow>
     kv (snd est) (nodePath (Name svc) (InstanceID (Nodes svc ! 0))) = Some (etcd_encode J svc)"

text \<open>A remembered hash means that the key is there.\<close>

definition etcd_ok ::
    "service_json \<Rightarrow> 'c etcd_client \<Rightarrow> ('c \<Rightarrow> string \<rightharpoonup> string) \<Rightarrow> service \<Rightarrow> etcd_registry \<times> 'c \<Rightarrow> bool" where
  "etcd_ok J C kv svc est \<longleftrightarrow> etcd_writes_ok C kv \<and> (er_register (fst est) (Name svc) \<noteq> None \<longrightarrow> etcd_lists J kv svc est)"

lemma put_one:
  assumes "etcd_writes_ok C kv" "put_nodes J C s lease [n] st = (err, st')"
  shows "kv st' = (if err = None then (kv st)(nodePath (Name s) (InstanceID n) \<mapsto> etcd_encode J (s\<lparr>Nodes := [n]\<rparr>)) else kv st)"
proof -
  let ?k = "nodePath (Name s) (InstanceID n)" and ?v = "etcd_encode J (s\<lparr>Nodes := [n]\<rparr>)"
  obtain e st1 where p: "etcd_Put C ?k ?v lease st = (e, st1)" by fastforce
  have "case etcd_Put C ?k ?v lease st of (None, st') \<Rightarrow> kv st' = (kv st)(?k \<mapsto> ?v) | (Some _, st') \<Rightarrow> kv st' = kv st"
    using assms(1) unfolding etcd_writes_ok_def by (elim conjE allE)
  with p assms(2) show ?thesis by (cases e) auto
qed

lemma delete_one:
  assumes "etcd_writes_ok C kv" "delete_nodes C nm [n] st = (err, st')"
  shows "kv st' = (if err = None then (kv st)(nodePath nm (InstanceID n) := None) else kv st)"
proof -
  let ?k = "nodePath nm (InstanceID n)"
  obtain e st1 where p: "etcd_Delete C ?k st = (e, st1)" by fastforce
  have "case etcd_Delete C ?k st of (None, st') \<Rightarrow> kv st' = (kv st)(?k := None) | (Some _, st') \<Rightarrow> kv st' = kv st"
    using assms(1) unfolding etcd_writes_ok_def by (elim conjE allE)
  with p assms(2) show ?thesis by (cases e) auto
qed

lemma refresh_keeps:
  assumes "etcd_writes_ok C kv" "refresh_lease C nm (e, st) = (r, st')"
  shows "kv st' = kv st"
proof (cases "er_leases e nm")
  case (Some l)
  obtain e1 st1 where k: "KeepAliveOnce C l st = (e1, st1)" by fastforce
  have "kv (snd (KeepAliveOnce C l st)) = kv st" using assms(1) by (simp add: etcd_writes_ok_def)
  with Some k assms(2) show ?thesis by (cases e1) (auto simp: refresh_lease_def split: if_splits)
qed (use assms(2) in \<open>simp add: refresh_lease_def\<close>)

lemma full_register_one:
  assumes "etcd_writes_ok C kv" "etcd_full_register J C s ttl h (e, st) = (err, e', st')" "Nodes s = [n]"
  shows "(err = None \<longrightarrow> kv st' = (kv st)(nodePath (Name s) (InstanceID n) \<mapsto> etcd_encode J s)) \<and>
    (err \<noteq> None \<longrightarrow> kv st' = kv st \<and> e' = e)"
proof -
  define granted where "granted = (if ttl > 0 then (case Grant C (ttl div go_Second) st of (r, st) \<Rightarrow> (map_sum id Some r, st)) else (Inr None, st))"
  obtain g st1 where g: "granted = (g, st1)" by fastforce
  have kv1: "kv st1 = kv st"
    using g assms(1) unfolding granted_def etcd_writes_ok_def
    by (cases "ttl > 0"; cases "Grant C (ttl div go_Second) st") (auto, metis snd_conv)
  have s: "s\<lparr>Nodes := [n]\<rparr> = s" using assms(3) by simp
  show ?thesis
  proof (cases g)
    case (Inl x)
    then show ?thesis using assms(2) g kv1 unfolding granted_def by (auto simp: etcd_full_register_def)
  next
    case (Inr lease)
    obtain e1 st2 where p: "put_nodes J C s lease [n] st1 = (e1, st2)" by fastforce
    have "err = e1 \<and> st' = st2 \<and> (e1 \<noteq> None \<longrightarrow> e' = e)"
      using assms(2,3) g Inr p unfolding granted_def by (cases e1) (auto simp: etcd_full_register_def simp del: put_nodes.simps)
    with put_one[OF assms(1) p] kv1 s show ?thesis by auto
  qed
qed

text \<open>What \<open>Register\<close> does, whichever way it goes.\<close>

lemma etcd_Register_effect:
  assumes "etcd_ok J C kv svc (e, st)" "etcd_Register J hash C svc ttl (e, st) = (err, e', st')" "Nodes svc = [n]"
  shows "(err = None \<longrightarrow> etcd_lists J kv svc (e', st')) \<and> (err \<noteq> None \<longrightarrow> e' = e \<and> kv st' = kv st)"
proof -
  have w: "etcd_writes_ok C kv" using assms(1) by (simp add: etcd_ok_def)
  obtain r st1 where r: "refresh_lease C (Name svc) (e, st) = (r, st1)" by fastforce
  note kv1 = refresh_keeps[OF w r]
  have known: "er_register e (Name svc) = Some h \<Longrightarrow> etcd_lists J kv svc (e, st1)" for h
    using assms(1) kv1 by (simp add: etcd_ok_def etcd_lists_def)
  show ?thesis
  proof (cases r)
    case (Inl x)
    with assms(2,3) r kv1 show ?thesis by (auto simp: etcd_Register_def)
  next
    case (Inr lost)
    note r' = r[unfolded Inr]
    show ?thesis
    proof (cases "hash svc")
      case (Inl x)
      with assms(2,3) r' kv1 show ?thesis by (auto simp: etcd_Register_def)
    next
      case (Inr h)
      show ?thesis
      proof (cases "er_register e (Name svc) = Some h \<and> \<not> lost")
        case True
        with assms(2,3) r' Inr known show ?thesis by (auto simp: etcd_Register_def)
      next
        case False
        then have "etcd_full_register J C svc ttl h (e, st1) = (err, e', st')"
          using assms(2,3) r' Inr by (auto simp: etcd_Register_def)
        from full_register_one[OF w this assms(3)] kv1 show ?thesis by (simp add: etcd_lists_def assms(3))
      qed
    qed
  qed
qed

lemma etcd_Deregister_effect:
  assumes "etcd_writes_ok C kv" "etcd_Deregister C s (e, st) = (err, e', st')" "Nodes s = [n]"
  shows "er_register e' (Name s) = None \<and> (err = None \<longrightarrow> kv st' (nodePath (Name s) (InstanceID n)) = None)"
proof -
  obtain e1 st1 where d: "delete_nodes C (Name s) [n] st = (e1, st1)" by fastforce
  have "err = e1 \<and> st' = st1 \<and> er_register e' (Name s) = None"
    using assms(2,3) d by (auto simp: etcd_Deregister_def Let_def simp del: delete_nodes.simps)
  with delete_one[OF assms(1) d] show ?thesis by auto
qed

interpretation etcd_service: service_registry "etcd_ok J C kv (one_node_service nm v n)"
  "etcd_Register J hash C" "etcd_Deregister C" "etcd_lists J kv (one_node_service nm v n)"
  "one_node_service nm v n" "one_node_service nm v (bare_node (InstanceID n) a port)"
  for J C kv hash nm v n a port
proof
  let ?s = "one_node_service nm v n" and ?u = "one_node_service nm v (bare_node (InstanceID n) a port)"
  let ?ok = "etcd_ok J C kv ?s" and ?listed = "etcd_lists J kv ?s"
  have reg: "(err = None \<longrightarrow> ?listed st') \<and> (err \<noteq> None \<longrightarrow> fst st' = fst st \<and> kv (snd st') = kv (snd st))"
    if "?ok st" "etcd_Register J hash C ?s ttl st = (err, st')" for st ttl err st'
    using that etcd_Register_effect[of J C kv ?s "fst st" "snd st" hash ttl err "fst st'" "snd st'" n] by simp
  show "?ok st'" if "?ok st" "etcd_Register J hash C ?s ttl st = (err, st')" for st ttl err st'
    using that(1) reg[OF that] by (cases err) (auto simp: etcd_ok_def etcd_lists_def)
  show "?listed st'" if "?ok st" "etcd_Register J hash C ?s ttl st = (None, st')" for st ttl st'
    using reg[OF that] by simp
  show "?listed st'" if "?ok st" "etcd_Register J hash C ?s ttl st = (err, st')" "?listed st" for st ttl err st'
    using that(3) reg[OF that(1,2)] by (cases err) (auto simp: etcd_lists_def)
  have dereg: "er_register (fst st') nm = None \<and> (err = None \<longrightarrow> kv (snd st') (nodePath nm (InstanceID n)) = None)"
    if "?ok st" "etcd_Deregister C ?u st = (err, st')" for st err st'
    using that etcd_Deregister_effect[of C kv ?u "fst st" "snd st" err "fst st'" "snd st'" "bare_node (InstanceID n) a port"]
    by (simp add: etcd_ok_def)
  show "?ok st'" if "?ok st" "etcd_Deregister C ?u st = (err, st')" for st err st'
    using that(1) dereg[OF that] by (simp add: etcd_ok_def)
  show "\<not> ?listed st'" if "?ok st" "etcd_Deregister C ?u st = (None, st')" for st st'
    using dereg[OF that] by (simp add: etcd_lists_def)
qed


section \<open>What is registered is found\<close>

text \<open>A name that is an element of a path as it is.\<close>

definition clean_name :: "string \<Rightarrow> bool" where
  "clean_name s \<longleftrightarrow> no_slashes s \<notin> {[], ''.'', ''..''}"

lemma split_no_slashes [simp]: "split_on CHR ''/'' (no_slashes s) = [no_slashes s]"
  by (rule split_on_clean) (auto simp: no_slashes_def)

lemma split_prefix: "split_on CHR ''/'' etcd_prefix = [[], ''mqant-registry'']"
  by (simp add: etcd_prefix_def)

lemma servicePath_clean: "clean_name s \<Longrightarrow> servicePath s = etcd_prefix @ ''/'' @ no_slashes s"
  by (auto simp: servicePath_def path_Join_def split_prefix clean_step_def clean_name_def) (simp add: etcd_prefix_def)

lemma nodePath_clean: "clean_name s \<Longrightarrow> clean_name i \<Longrightarrow> nodePath s i = servicePath s @ ''/'' @ no_slashes i"
  by (auto simp: servicePath_clean nodePath_def path_Join_def split_prefix clean_step_def clean_name_def) (simp add: etcd_prefix_def)

text \<open>Nodes that were found stay found.\<close>

definition finds :: "service_map \<Rightarrow> string \<Rightarrow> node \<Rightarrow> bool" where
  "finds m v n \<longleftrightarrow> (\<exists>s. (v, s) \<in> set m \<and> n \<in> set (Nodes s)) "

definition keyed :: "service_map \<Rightarrow> bool" where
  "keyed m \<longleftrightarrow> (\<forall>(v, s) \<in> set m. Version s = v)"

lemma add_kv_finds: "finds m v n \<Longrightarrow> finds (add_kv J kv m) v n"
  by (force simp: finds_def add_kv_def Let_def split: option.splits)

lemma add_kv_new: "etcd_decode J (snd kv) = Some sn \<Longrightarrow> n \<in> set (Nodes sn) \<Longrightarrow> finds (add_kv J kv m) (Version sn) n"
proof -
  assume a: "etcd_decode J (snd kv) = Some sn" "n \<in> set (Nodes sn)"
  let ?m = "if map_of m (Version sn) = None then m @ [(Version sn, sn\<lparr>Nodes := []\<rparr>)] else m"
  obtain s where "(Version sn, s) \<in> set ?m" by (cases "map_of m (Version sn)") (auto dest: map_of_SomeD)
  then have "(Version sn, s\<lparr>Nodes := Nodes s @ Nodes sn\<rparr>) \<in> set (add_kv J kv m)"
    using a by (force simp: add_kv_def Let_def)
  then show ?thesis using a(2) by (force simp: finds_def)
qed

lemma add_kv_keyed: "keyed m \<Longrightarrow> keyed (add_kv J kv m)"
  by (auto simp: keyed_def add_kv_def Let_def split: option.splits)

lemma fold_add_kv:
  assumes "keyed m"
  shows "keyed (fold (add_kv J) kvs m) \<and>
    (finds m v n \<or> (\<exists>kv \<in> set kvs. \<exists>sn. etcd_decode J (snd kv) = Some sn \<and> Version sn = v \<and> n \<in> set (Nodes sn)) \<longrightarrow>
      finds (fold (add_kv J) kvs m) v n)"
  using assms
proof (induction kvs arbitrary: m)
  case (Cons kv kvs)
  from Cons.IH[OF add_kv_keyed[OF Cons.prems, of J kv]] show ?case
    using add_kv_finds[of m v n J kv] add_kv_new[of J kv _ n m] by auto
qed simp



definition alist_client :: "(string \<times> string) list etcd_client" where
  "alist_client = \<lparr>KeepAliveOnce = (\<lambda>_ st. (None, st)), Grant = (\<lambda>_ st. (Inr 1, st)),
     etcd_Put = (\<lambda>k v _ st. (None, (k, v) # st)), etcd_Delete = (\<lambda>k st. (None, filter (\<lambda>kv. fst kv \<noteq> k) st)),
     Get_prefix = (\<lambda>p st. Inr (filter (\<lambda>kv. take (length p) (fst kv) = p) st)), ErrLeaseNotFound = EOF\<rparr>"

definition etcd_sample :: service where
  "etcd_sample = one_node_service ''chat'' ''1.0'' (bare_node ''chat@1'' ''10.0.0.1'' 80)"

definition sample_json :: service_json where
  "sample_json = \<lparr>json_service = (\<lambda>_. Some ''x''), unjson_service = (\<lambda>_. Some etcd_sample)\<rparr>"

lemma alist_writes_ok: "etcd_writes_ok alist_client map_of"
proof -
  have "map_of (filter (\<lambda>kv. fst kv \<noteq> k) st) = (map_of st)(k := None)" for k :: string and st :: "(string \<times> string) list"
    by (induction st) (auto simp: fun_eq_iff)
  then show ?thesis by (simp add: etcd_writes_ok_def alist_client_def)
qed

lemma alist_query_ok: "etcd_query_ok alist_client map_of"
  by (auto simp: etcd_query_ok_def alist_client_def dest: map_of_SomeD)


text \<open>The life of a module's service over etcd ends as it does over Consul.\<close>

lemma etcd_deregistration_is_final:
  assumes "registered_service ifaces server = Inr svc"
    "reach (life_init server (etcd_ok J C kv svc)) (life_step (etcd_Register J hash C) (etcd_Deregister C) ifaces so) l"
  shows "(lf_wait l \<in> {W_begin, W_select, W_joining} \<longrightarrow> etcd_lists J kv svc (lf_reg l)) \<and>
    (lf_wait l = W_returned None \<longrightarrow> \<not> etcd_lists J kv svc (lf_reg l))"
proof -
  obtain n a port where sh: "svc = one_node_service (so_Name (sv_opts server)) (so_Version (sv_opts server)) n"
    and u: "deregistered_service ifaces server =
      Inr (one_node_service (so_Name (sv_opts server)) (so_Version (sv_opts server)) (bare_node (InstanceID n) a port))"
    using registered_service_shape[OF assms(1)] .
  have "serves svc (one_node_service (so_Name (sv_opts server)) (so_Version (sv_opts server)) (bare_node (InstanceID n) a port)) ifaces server"
    using assms(1) u by (simp only: serves_def)
  from etcd_service.life_inv_reach[OF assms(2)[unfolded sh] this[unfolded sh]] show ?thesis
    unfolding sh life_inv_def by metis
qed

end
