(* ===== verification/Nats_Server.thy ===== *)
theory Nats_Server
  imports Rpc_Server "HOL-Library.Sublist"
begin

text \<open>
  The receiving loop of the RPC server (\<^verbatim>\<open>src/rpc/base/nats_server.go\<close>,
  \<^verbatim>\<open>src/rpc/base/nats_subscription.go\<close>): the loop over the messages of its subscription, the goroutine that
  unsubscribes, and \<open>Shutdown\<close>, as interleaved steps. NATS is the environment: it delivers messages to open
  subscriptions, ends subscriptions, and lets reads and subscriptions fail. Subscriptions are numbered;
  \<open>ns_cur\<close> is \<open>s.subs\<close>, \<open>None\<close> after a failed subscription. What arrived and what was handed to the server is
  recorded in \<open>ns_arrived\<close> and \<open>ns_dispatched\<close>.
\<close>

section \<open>The server\<close>

definition setAddrs :: "string \<Rightarrow> string list \<Rightarrow> string list" where
  "setAddrs default_url addrs =
     (let cAddrs = map (\<lambda>a. if \<not> HasPrefix a ''nats://'' then ''nats://'' @ a else a) (filter (\<lambda>a. length a \<noteq> 0) addrs)
      in if length cAddrs = 0 then [default_url] else cAddrs)"

text \<open>\<open>sub\<close> is the error of \<open>SubscribeSync\<close>, \<open>flush\<close> that of \<open>FlushTimeout\<close>; the result says whether the subscription stands.\<close>

definition subscribeNatsReady :: "go_error option \<Rightarrow> go_error option \<Rightarrow> go_error option \<times> bool" where
  "subscribeNatsReady sub flush =
     (case sub of
        Some err \<Rightarrow> (Some err, False)
      | None \<Rightarrow> (case flush of Some err \<Rightarrow> (Some err, False) | None \<Rightarrow> (None, True)))"

datatype loop_pc = L_check | L_read | L_ended
datatype shut_pc = S_idle | S_closed | S_waiting | S_returned

record ('j, 'o, 'v, 'w) nats_server =
  ns_server :: "('j, 'o, 'v, 'w) RPCServer"
  ns_done :: bool
  ns_isClose :: bool
  ns_stopeds :: bool
  ns_cur :: "nat option"
  ns_open :: "nat set"
  ns_fresh :: nat
  ns_queue :: "nat \<Rightarrow> bytes list"
  ns_unsubscribed :: bool
  ns_loop :: loop_pc
  ns_shut :: shut_pc
  ns_arrived :: "bytes list"
  ns_dispatched :: "bytes list"

definition NewNatsServer ::
    "go_error option \<Rightarrow> go_error option \<Rightarrow> ('j, 'o, 'v, 'w) RPCServer \<Rightarrow> go_error + ('j, 'o, 'v, 'w) nats_server" where
  "NewNatsServer sub flush s =
     (case subscribeNatsReady sub flush of
        (Some err, _) \<Rightarrow> Inl (Errorf ''initialize RPC request subscription: %v'' [AS (error_text err)])
      | (None, _) \<Rightarrow> Inr \<lparr>ns_server = s, ns_done = False, ns_isClose = False, ns_stopeds = False, ns_cur = Some 0,
          ns_open = {0}, ns_fresh = 1, ns_queue = (\<lambda>_. []), ns_unsubscribed = False, ns_loop = L_check, ns_shut = S_idle,
          ns_arrived = [], ns_dispatched = []\<rparr>)"

definition IsValid :: "('j, 'o, 'v, 'w) nats_server \<Rightarrow> bool" where
  "IsValid s \<longleftrightarrow> (case ns_cur s of None \<Rightarrow> False | Some i \<Rightarrow> i \<in> ns_open s)"

text \<open>After an error of \<open>NextMsg\<close>, of whatever kind: a subscription that is closed is made again.\<close>

definition resubscribe :: "bool \<Rightarrow> ('j, 'o, 'v, 'w) nats_server \<Rightarrow> ('j, 'o, 'v, 'w) nats_server" where
  "resubscribe ok s =
     (if IsValid s then s
      else if ok then s\<lparr>ns_cur := Some (ns_fresh s), ns_open := insert (ns_fresh s) (ns_open s), ns_fresh := ns_fresh s + 1,
        ns_queue := (ns_queue s)(ns_fresh s := [])\<rparr>
      else s\<lparr>ns_cur := None\<rparr>)"

inductive on_request_handle ::
    "(bytes \<Rightarrow> go_error + rpc_info) \<Rightarrow> ('j, 'o) arg_env \<Rightarrow> (go_error \<Rightarrow> 'o)
      \<Rightarrow> ('j, 'o, 'v, 'w) nats_server \<Rightarrow> ('j, 'o, 'v, 'w) nats_server \<Rightarrow> bool"
  for unmarshal env ev where
  check: "ns_loop s = L_check \<Longrightarrow>
    on_request_handle unmarshal env ev s
      (if ns_isClose s then s\<lparr>ns_loop := L_ended, ns_stopeds := True\<rparr> else s\<lparr>ns_loop := L_read\<rparr>)"
| message: "ns_loop s = L_read \<Longrightarrow> ns_cur s = Some i \<Longrightarrow> i \<in> ns_open s \<Longrightarrow> ns_queue s i = m # ms \<Longrightarrow>
    on_request_handle unmarshal env ev s
      (s\<lparr>ns_server := on_request unmarshal env ev m (ns_server s), ns_queue := (ns_queue s)(i := ms),
         ns_dispatched := ns_dispatched s @ [m], ns_loop := L_check\<rparr>)"
| read_error: "ns_loop s = L_read \<Longrightarrow>
    on_request_handle unmarshal env ev s ((resubscribe ok s)\<lparr>ns_loop := L_check\<rparr>)"
| unsubscribe: "ns_done s \<Longrightarrow> \<not> ns_unsubscribed s \<Longrightarrow>
    on_request_handle unmarshal env ev s
      (s\<lparr>ns_unsubscribed := True, ns_open := (case ns_cur s of None \<Rightarrow> ns_open s | Some i \<Rightarrow> ns_open s - {i})\<rparr>)"

inductive nats_Shutdown :: "('j, 'o, 'v, 'w) nats_server \<Rightarrow> ('j, 'o, 'v, 'w) nats_server \<Rightarrow> bool" where
  close_done: "ns_shut s = S_idle \<Longrightarrow> nats_Shutdown s (s\<lparr>ns_done := True, ns_shut := S_closed\<rparr>)"
| set_close: "ns_shut s = S_closed \<Longrightarrow> nats_Shutdown s (s\<lparr>ns_isClose := True, ns_shut := S_waiting\<rparr>)"
| stopped: "ns_shut s = S_waiting \<Longrightarrow> ns_stopeds s \<Longrightarrow> nats_Shutdown s (s\<lparr>ns_shut := S_returned\<rparr>)"

text \<open>A message for the server's address reaches every open subscription; a subscription may end by itself.\<close>

inductive nats_delivers :: "('j, 'o, 'v, 'w) nats_server \<Rightarrow> ('j, 'o, 'v, 'w) nats_server \<Rightarrow> bool" where
  arrive: "nats_delivers s (s\<lparr>ns_arrived := ns_arrived s @ [m],
    ns_queue := (\<lambda>i. if i \<in> ns_open s then ns_queue s i @ [m] else ns_queue s i)\<rparr>)"
| ends: "nats_delivers s (s\<lparr>ns_open := ns_open s - {i}\<rparr>)"

inductive nats_step ::
    "(bytes \<Rightarrow> go_error + rpc_info) \<Rightarrow> ('j, 'o) arg_env \<Rightarrow> (go_error \<Rightarrow> 'o)
      \<Rightarrow> ('j, 'o, 'v, 'w) nats_server \<Rightarrow> ('j, 'o, 'v, 'w) nats_server \<Rightarrow> bool"
  for unmarshal env ev where
  loop: "on_request_handle unmarshal env ev s t \<Longrightarrow> nats_step unmarshal env ev s t"
| shutdown: "nats_Shutdown s t \<Longrightarrow> nats_step unmarshal env ev s t"
| network: "nats_delivers s t \<Longrightarrow> nats_step unmarshal env ev s t"

inductive_cases on_request_handleE: "on_request_handle unmarshal env ev s t"
inductive_cases nats_ShutdownE: "nats_Shutdown s t"
inductive_cases nats_deliversE: "nats_delivers s t"
inductive_cases nats_stepE: "nats_step unmarshal env ev s t"

lemmas nats_elims = on_request_handleE nats_ShutdownE nats_deliversE

definition nats_init :: "('j, 'o, 'v, 'w) RPCServer \<Rightarrow> ('j, 'o, 'v, 'w) nats_server \<Rightarrow> bool" where
  "nats_init server s \<longleftrightarrow> (\<exists>sub flush. NewNatsServer sub flush server = Inr s)"

section \<open>Its invariant\<close>

definition pending :: "('j, 'o, 'v, 'w) nats_server \<Rightarrow> bytes list" where
  "pending s = (case ns_cur s of None \<Rightarrow> [] | Some i \<Rightarrow> if i \<in> ns_open s then ns_queue s i else [])"

text \<open>What the server has become by the requests handed to it.\<close>

definition served ::
    "(bytes \<Rightarrow> go_error + rpc_info) \<Rightarrow> ('j, 'o) arg_env \<Rightarrow> (go_error \<Rightarrow> 'o) \<Rightarrow> ('j, 'o, 'v, 'w) RPCServer
      \<Rightarrow> bytes list \<Rightarrow> ('j, 'o, 'v, 'w) RPCServer" where
  "served unmarshal env ev server ms = fold (on_request unmarshal env ev) ms server"

definition nats_inv ::
    "(bytes \<Rightarrow> go_error + rpc_info) \<Rightarrow> ('j, 'o) arg_env \<Rightarrow> (go_error \<Rightarrow> 'o) \<Rightarrow> ('j, 'o, 'v, 'w) RPCServer
      \<Rightarrow> ('j, 'o, 'v, 'w) nats_server \<Rightarrow> bool" where
  "nats_inv unmarshal env ev server s \<longleftrightarrow>
     ns_open s \<subseteq> set_option (ns_cur s) \<and> 0 < ns_fresh s \<and> (\<forall>i. ns_cur s = Some i \<longrightarrow> i < ns_fresh s) \<and>
     subseq (ns_dispatched s @ pending s) (ns_arrived s) \<and>
     (ns_cur s = Some 0 \<and> 0 \<in> ns_open s \<longrightarrow> ns_dispatched s @ pending s = ns_arrived s) \<and>
     ns_server s = served unmarshal env ev server (ns_dispatched s) \<and>
     (ns_stopeds s \<longleftrightarrow> ns_loop s = L_ended) \<and>
     (ns_shut s = S_returned \<longrightarrow> ns_loop s = L_ended) \<and>
     (ns_done s \<longleftrightarrow> ns_shut s \<noteq> S_idle) \<and> (ns_isClose s \<longleftrightarrow> ns_shut s \<in> {S_waiting, S_returned})"

lemma served_snoc: "served unmarshal env ev server (ms @ [m]) = on_request unmarshal env ev m (served unmarshal env ev server ms)"
  by (simp add: served_def)

lemma subseq_dropped: "subseq (xs @ ys) zs \<Longrightarrow> subseq xs zs"
  using subseq_order.trans by (metis list_emb_append2 subseq_order.refl append_Nil2 list_emb_prefix)


lemma nats_inv_init: "nats_init server s \<Longrightarrow> nats_inv unmarshal env ev server s"
  by (auto simp: nats_init_def NewNatsServer_def subscribeNatsReady_def nats_inv_def pending_def served_def split: option.splits)

lemma pending_resubscribed:
  "pending (resubscribe ok s) = (if IsValid s then pending s else [])"
  by (auto simp: resubscribe_def pending_def IsValid_def split: option.splits)

lemma resubscribe_keeps [simp]:
  "ns_server (resubscribe ok s) = ns_server s" "ns_done (resubscribe ok s) = ns_done s"
  "ns_isClose (resubscribe ok s) = ns_isClose s" "ns_stopeds (resubscribe ok s) = ns_stopeds s"
  "ns_arrived (resubscribe ok s) = ns_arrived s" "ns_dispatched (resubscribe ok s) = ns_dispatched s"
  "ns_shut (resubscribe ok s) = ns_shut s" "ns_loop (resubscribe ok s) = ns_loop s"
  "ns_unsubscribed (resubscribe ok s) = ns_unsubscribed s"
  by (simp_all add: resubscribe_def)

lemma resubscribe_subs:
  assumes "ns_open s \<subseteq> set_option (ns_cur s)" "0 < ns_fresh s" "\<forall>i. ns_cur s = Some i \<longrightarrow> i < ns_fresh s"
  shows "ns_open (resubscribe ok s) \<subseteq> set_option (ns_cur (resubscribe ok s))" "0 < ns_fresh (resubscribe ok s)"
    "\<forall>i. ns_cur (resubscribe ok s) = Some i \<longrightarrow> i < ns_fresh (resubscribe ok s)"
    "ns_cur (resubscribe ok s) = Some 0 \<Longrightarrow> 0 \<in> ns_open (resubscribe ok s) \<Longrightarrow> ns_cur s = Some 0 \<and> IsValid s"
  using assms by (auto simp: resubscribe_def IsValid_def split: option.splits if_splits)

lemma pending_loop [simp]: "pending (s\<lparr>ns_loop := l\<rparr>) = pending s"
  by (simp add: pending_def split: option.splits)

lemma nats_inv_handle:
  assumes "nats_inv unmarshal env ev server s" "on_request_handle unmarshal env ev s t"
  shows "nats_inv unmarshal env ev server t"
  using assms(2)
proof cases
  case check
  with assms(1) show ?thesis by (auto simp: nats_inv_def pending_def split: option.splits)
next
  case (message i m ms)
  then have "pending s = m # ms" by (simp add: pending_def)
  moreover have "pending t = ms" using message by (simp add: pending_def)
  ultimately show ?thesis using assms(1) message by (auto simp: nats_inv_def served_snoc)
next
  case (read_error ok)
  note subs = resubscribe_subs[of s ok]
  have "subseq (ns_dispatched s @ pending (resubscribe ok s)) (ns_arrived s)"
    using assms(1) subseq_dropped by (auto simp: nats_inv_def pending_resubscribed)
  then show ?thesis
    using assms(1) subs unfolding read_error nats_inv_def
    by (auto simp: pending_resubscribed IsValid_def)
next
  case unsubscribe
  then have "pending t = []" by (simp add: pending_def split: option.splits)
  moreover have "subseq (ns_dispatched s) (ns_arrived s)" using assms(1) subseq_dropped by (auto simp: nats_inv_def)
  ultimately show ?thesis using assms(1) unsubscribe by (auto simp: nats_inv_def split: option.splits)
qed

lemma nats_inv_delivers:
  assumes "nats_inv unmarshal env ev server s" "nats_delivers s t"
  shows "nats_inv unmarshal env ev server t"
  using assms(2)
proof cases
  case (arrive m)
  have "subseq (ns_dispatched s @ pending t) (ns_arrived s @ [m])"
  proof (cases "IsValid s")
    case True
    then have "pending t = pending s @ [m]" using arrive by (auto simp: pending_def IsValid_def split: option.splits)
    moreover have "subseq ((ns_dispatched s @ pending s) @ [m]) (ns_arrived s @ [m])"
      using assms(1) by (intro list_emb_append_mono) (auto simp: nats_inv_def)
    ultimately show ?thesis by simp
  next
    case False
    then have "pending t = []" using arrive by (auto simp: pending_def IsValid_def split: option.splits)
    then have "subseq (ns_dispatched s @ pending t) (ns_arrived s)"
      using assms(1) subseq_dropped by (auto simp: nats_inv_def)
    then show ?thesis by (rule list_emb_prefix)
  qed
  moreover have "ns_cur s = Some 0 \<Longrightarrow> 0 \<in> ns_open s \<Longrightarrow> pending t = pending s @ [m]"
    using arrive by (simp add: pending_def)
  ultimately show ?thesis using assms(1) arrive by (simp add: nats_inv_def)
next
  case (ends i)
  have d: "subseq (ns_dispatched s @ pending s) (ns_arrived s)" using assms(1) by (simp add: nats_inv_def)
  have "pending t = pending s \<or> pending t = []" using ends by (auto simp: pending_def split: option.splits)
  then have "subseq (ns_dispatched s @ pending t) (ns_arrived s)" using d subseq_dropped[OF d] by auto
  moreover have "ns_cur t = Some 0 \<and> 0 \<in> ns_open t \<Longrightarrow> pending t = pending s \<and> 0 \<in> ns_open s"
    using ends by (simp add: pending_def)
  ultimately show ?thesis using assms(1) ends by (auto simp: nats_inv_def)
qed

lemma nats_inv_shutdown:
  assumes "nats_inv unmarshal env ev server s" "nats_Shutdown s t"
  shows "nats_inv unmarshal env ev server t"
  using assms(2,1) by cases (auto simp: nats_inv_def pending_def split: option.splits)

interpretation nats_sys: invariant_system "nats_init server" "nats_step unmarshal env ev" "nats_inv unmarshal env ev server"
  for server unmarshal env ev
proof
  show "nats_init server s \<Longrightarrow> nats_inv unmarshal env ev server s" for s by (rule nats_inv_init)
  show "nats_inv unmarshal env ev server s \<Longrightarrow> nats_step unmarshal env ev s t \<Longrightarrow> nats_inv unmarshal env ev server t" for s t
    by (erule nats_stepE) (auto intro: nats_inv_handle nats_inv_delivers nats_inv_shutdown)
qed

section \<open>Shutting down\<close>

lemma loop_can_end:
  assumes "ns_isClose s" "ns_shut s = S_waiting" "ns_stopeds s \<longleftrightarrow> ns_loop s = L_ended"
  shows "\<exists>t. (nats_step unmarshal env ev)\<^sup>*\<^sup>* s t \<and> ns_shut t = S_returned"
proof -
  let ?step = "nats_step unmarshal env ev"
  have from_ended: "\<exists>t. ?step\<^sup>*\<^sup>* s t \<and> ns_shut t = S_returned" if "ns_stopeds s" "ns_shut s = S_waiting" for s
  proof -
    have "?step s (s\<lparr>ns_shut := S_returned\<rparr>)" using that by (intro nats_step.shutdown nats_Shutdown.stopped)
    then show ?thesis by (intro exI[of _ "s\<lparr>ns_shut := S_returned\<rparr>"]) auto
  qed
  have from_check: "\<exists>t. ?step\<^sup>*\<^sup>* s t \<and> ns_shut t = S_returned"
    if l: "ns_loop s = L_check" "ns_isClose s" and w: "ns_shut s = S_waiting" for s
  proof -
    have "?step s (s\<lparr>ns_loop := L_ended, ns_stopeds := True\<rparr>)"
      using nats_step.loop[OF on_request_handle.check[OF l(1)]] l(2) by simp
    moreover obtain t where "?step\<^sup>*\<^sup>* (s\<lparr>ns_loop := L_ended, ns_stopeds := True\<rparr>) t" "ns_shut t = S_returned"
      using from_ended[of "s\<lparr>ns_loop := L_ended, ns_stopeds := True\<rparr>"] w by auto
    ultimately show ?thesis by (blast intro: converse_rtranclp_into_rtranclp)
  qed
  show ?thesis
  proof (cases "ns_loop s")
    case L_check
    then show ?thesis using from_check assms by blast
  next
    case L_read
    from nats_step.loop[OF on_request_handle.read_error[OF this, where ok = True]]
    have "?step s ((resubscribe True s)\<lparr>ns_loop := L_check\<rparr>)" .
    moreover obtain t where "?step\<^sup>*\<^sup>* ((resubscribe True s)\<lparr>ns_loop := L_check\<rparr>) t" "ns_shut t = S_returned"
      using from_check[of "(resubscribe True s)\<lparr>ns_loop := L_check\<rparr>"] assms by auto
    ultimately show ?thesis by (blast intro: converse_rtranclp_into_rtranclp)
  next
    case L_ended
    then show ?thesis using from_ended assms by blast
  qed
qed




definition idle_nats :: "(unit, unit, 32 word, nat) nats_server" where
  "idle_nats = \<lparr>ns_server = number_server, ns_done = False, ns_isClose = False, ns_stopeds = False, ns_cur = Some 0,
     ns_open = {0}, ns_fresh = 1, ns_queue = (\<lambda>_. []), ns_unsubscribed = False, ns_loop = L_check, ns_shut = S_idle,
     ns_arrived = [], ns_dispatched = []\<rparr>"

lemma idle_nats_init: "nats_init number_server idle_nats"
  unfolding nats_init_def
  by (rule exI[of _ None], rule exI[of _ None]) (simp add: NewNatsServer_def subscribeNatsReady_def idle_nats_def)

abbreviation idle_step :: "(unit, unit, 32 word, nat) nats_server \<Rightarrow> (unit, unit, 32 word, nat) nats_server \<Rightarrow> bool" where
  "idle_step \<equiv> nats_step (\<lambda>_. Inr number_call) plain_env (\<lambda>_. ())"



text \<open>
  \<open>done\<close> is closed before \<open>isClose\<close> is set: when the loop finds its subscription closed in between, it subscribes
  again, and nothing ends this subscription after \<open>Shutdown\<close>.
\<close>

lemma shutdown_may_leave_subscription:
  "\<exists>s. reach (nats_init number_server) idle_step s \<and> ns_shut s = S_returned \<and> ns_unsubscribed s \<and> ns_open s \<noteq> {}"
proof -
  let ?r = "reach (nats_init number_server) idle_step"
  define s1 where "s1 = idle_nats\<lparr>ns_loop := L_read\<rparr>"
  define s2 where "s2 = s1\<lparr>ns_done := True, ns_shut := S_closed\<rparr>"
  define s3 where "s3 = s2\<lparr>ns_unsubscribed := True, ns_open := {}\<rparr>"
  define s4 where "s4 = (resubscribe True s3)\<lparr>ns_loop := L_check\<rparr>"
  define s5 where "s5 = s4\<lparr>ns_isClose := True, ns_shut := S_waiting\<rparr>"
  define s6 where "s6 = s5\<lparr>ns_loop := L_ended, ns_stopeds := True\<rparr>"
  define s7 where "s7 = s6\<lparr>ns_shut := S_returned\<rparr>"
  have r0: "?r idle_nats" by (rule reach_init[of "nats_init number_server", OF idle_nats_init])
  have r1: "?r s1" using reach_step[OF r0 nats_step.loop[OF on_request_handle.check]] by (simp add: s1_def idle_nats_def)
  have r2: "?r s2" using reach_step[OF r1 nats_step.shutdown[OF nats_Shutdown.close_done]] by (simp add: s2_def s1_def idle_nats_def)
  have r3: "?r s3" using reach_step[OF r2 nats_step.loop[OF on_request_handle.unsubscribe]]
    by (simp add: s3_def s2_def s1_def idle_nats_def)
  have r4: "?r s4" using reach_step[OF r3 nats_step.loop[OF on_request_handle.read_error[where ok = True]]]
    by (simp add: s4_def s3_def s2_def s1_def)
  have r5: "?r s5" using reach_step[OF r4 nats_step.shutdown[OF nats_Shutdown.set_close]]
    by (simp add: s5_def s4_def s3_def s2_def)
  have r6: "?r s6" using reach_step[OF r5 nats_step.loop[OF on_request_handle.check]]
    by (simp add: s6_def s5_def s4_def)
  have r7: "?r s7" using reach_step[OF r6 nats_step.shutdown[OF nats_Shutdown.stopped]]
    by (simp add: s7_def s6_def s5_def)
  have "ns_open s7 \<noteq> {}" "ns_unsubscribed s7"
    by (simp_all add: s7_def s6_def s5_def s4_def s3_def s2_def s1_def resubscribe_def IsValid_def idle_nats_def)
  then show ?thesis using r7 by (intro exI[of _ s7]) (simp add: s7_def)
qed

end
