(* ===== verification/Timing_Wheel.thy ===== *)
theory Timing_Wheel
  imports Mqant_Prelude
begin

text \<open>
  The timing wheel (\<^verbatim>\<open>src/module/modules/timer/timingwheel.go\<close>): timers are kept in the slots of a
  wheel with the number of turns still to go; a tick runs what is due in the current slot and
  moves on. Jobs run in goroutines of their own, so a tick returns the tasks it starts. A key is
  one the user gave or a number the wheel assigns. \<open>countdown_timers\<close> is the interface: a map from
  keys to ticks still to go.
\<close>

section \<open>The wheel\<close>

datatype tkey = Custom string | Auto int

record 'd task =
  delay :: int
  circle :: nat
  key :: tkey
  data :: 'd

record 'd time_wheel =
  tw_interval :: int
  accumulator :: int
  tw_slots :: "'d task list list"
  timer :: "tkey \<rightharpoonup> nat"
  currentPos :: nat
  slotNum :: nat

definition NewTimeWheel :: "int \<Rightarrow> int \<Rightarrow> 'd time_wheel option" where
  "NewTimeWheel interval n =
     (if interval \<le> 0 \<or> n \<le> 0 then None
      else Some \<lparr>tw_interval = interval, accumulator = 0, tw_slots = replicate (nat n) [], timer = Map.empty,
        currentPos = 0, slotNum = nat n\<rparr>)"

definition MaxInt64 :: int where
  "MaxInt64 = 9223372036854775807"

text \<open>Durations are nanoseconds; an interval below a millisecond makes the division panic.\<close>

definition getPositionAndCircle :: "int \<Rightarrow> 'd time_wheel \<Rightarrow> (nat \<times> nat) outcome" where
  "getPositionAndCircle d tw =
     (let delayMillisecond = d div 1000000; intervalMillisecond = tw_interval tw div 1000000
      in if intervalMillisecond = 0 then Panic ''integer divide by zero''
         else (let k = nat (delayMillisecond div intervalMillisecond)
               in Ret ((currentPos tw + k) mod slotNum tw, k div slotNum tw)))"

text \<open>\<open>AddTimer\<close> and \<open>AddTimerCustom\<close> (with a key) ignore delays that are not positive.\<close>

definition next_key :: "tkey option \<Rightarrow> 'd time_wheel \<Rightarrow> tkey \<times> 'd time_wheel" where
  "next_key k tw =
     (case k of
        Some k \<Rightarrow> (k, tw)
      | None \<Rightarrow>
          let a = (if accumulator tw \<ge> MaxInt64 then 0 else accumulator tw) + 1
          in (Auto a, tw\<lparr>accumulator := a\<rparr>))"

definition addTask :: "int \<Rightarrow> tkey option \<Rightarrow> 'd \<Rightarrow> 'd time_wheel \<Rightarrow> 'd time_wheel outcome" where
  "addTask d k x tw =
     (case next_key k tw of (k, tw) \<Rightarrow>
        outcome_bind (getPositionAndCircle d tw) (\<lambda>(pos, c).
          Ret (tw\<lparr>tw_slots := (tw_slots tw)[pos := tw_slots tw ! pos @ [\<lparr>delay = d, circle = c, key = k, data = x\<rparr>]],
                 timer := (timer tw)(k \<mapsto> pos)\<rparr>)))"

definition AddTimerCustom :: "int \<Rightarrow> tkey option \<Rightarrow> 'd \<Rightarrow> 'd time_wheel \<Rightarrow> 'd time_wheel outcome" where
  "AddTimerCustom d k x tw = (if d \<le> 0 then Ret tw else addTask d k x tw)"

definition AddTimer :: "int \<Rightarrow> 'd \<Rightarrow> 'd time_wheel \<Rightarrow> 'd time_wheel outcome" where
  "AddTimer d x tw = AddTimerCustom d None x tw"

text \<open>The scan of a slot: the tasks that stay, with one turn less, and the tasks that run.\<close>

fun scanAndRunTask :: "'d task list \<Rightarrow> (tkey \<rightharpoonup> nat) \<Rightarrow> 'd task list \<times> 'd task list \<times> (tkey \<rightharpoonup> nat)" where
  "scanAndRunTask [] tm = ([], [], tm)"
| "scanAndRunTask (t # ts) tm =
     (if circle t > 0
      then (case scanAndRunTask ts tm of (stay, run, tm) \<Rightarrow> (t\<lparr>circle := circle t - 1\<rparr> # stay, run, tm))
      else (case scanAndRunTask ts (tm(key t := None)) of (stay, run, tm) \<Rightarrow> (stay, t # run, tm)))"

definition tickHandler :: "'d time_wheel \<Rightarrow> 'd task list \<times> 'd time_wheel" where
  "tickHandler tw =
     (let pos = currentPos tw;
          next = (if pos = slotNum tw - 1 then 0 else pos + 1)
      in case scanAndRunTask (tw_slots tw ! pos) (timer tw) of
           (stay, run, tm) \<Rightarrow>
             (run, tw\<lparr>currentPos := next, tw_slots := (tw_slots tw)[pos := stay], timer := tm\<rparr>))"

text \<open>
  \<open>removeTask\<close>: once an element is removed from the list its \<open>Next\<close> is nil, so the loop ends there.
\<close>

fun remove_first :: "tkey \<Rightarrow> 'd task list \<Rightarrow> 'd task list" where
  "remove_first k [] = []"
| "remove_first k (t # ts) = (if key t = k then ts else t # remove_first k ts)"

definition removeTask :: "tkey \<Rightarrow> 'd time_wheel \<Rightarrow> 'd time_wheel" where
  "removeTask k tw =
     (case timer tw k of
        None \<Rightarrow> tw
      | Some pos \<Rightarrow>
          if k \<in> key ` set (tw_slots tw ! pos)
          then tw\<lparr>tw_slots := (tw_slots tw)[pos := remove_first k (tw_slots tw ! pos)], timer := (timer tw)(k := None)\<rparr>
          else tw)"

section \<open>Timers as countdowns\<close>

text \<open>
  What the wheel means: for each key, how many ticks are still to come before the one that runs
  it, and its data.
\<close>

type_synonym 'd countdowns = "tkey \<rightharpoonup> nat \<times> 'd"

definition ct_tick :: "'d countdowns \<Rightarrow> 'd countdowns" where
  "ct_tick m = (\<lambda>k. case m k of Some (Suc r, x) \<Rightarrow> Some (r, x) | _ \<Rightarrow> None)"

text \<open>A sequence with \<open>n\<close> ticks and any number of other operations in between.\<close>

inductive ticks_between :: "('s \<Rightarrow> 's \<Rightarrow> bool) \<Rightarrow> ('s \<Rightarrow> 's) \<Rightarrow> nat \<Rightarrow> 's \<Rightarrow> 's \<Rightarrow> bool" for other tick where
  none: "ticks_between other tick 0 s s"
| ticked: "ticks_between other tick n s t \<Longrightarrow> ticks_between other tick (Suc n) s (tick t)"
| other: "ticks_between other tick n s t \<Longrightarrow> other t u \<Longrightarrow> ticks_between other tick n s u"

text \<open>
  The interface: ticks count down and run exactly the keys that are at zero; operations on other
  keys leave a key alone.
\<close>

locale countdown_timers =
  fixes ok :: "'s \<Rightarrow> bool"
    and abs :: "'s \<Rightarrow> 'd countdowns"
    and tick :: "'s \<Rightarrow> (tkey \<times> 'd) list \<times> 's"
    and other :: "tkey \<Rightarrow> 's \<Rightarrow> 's \<Rightarrow> bool"
  assumes tick_ok: "ok s \<Longrightarrow> ok (snd (tick s))"
    and tick_abs: "ok s \<Longrightarrow> abs (snd (tick s)) = ct_tick (abs s)"
    and tick_runs: "ok s \<Longrightarrow> set (fst (tick s)) = {(k, x). abs s k = Some (0, x)}"
    and tick_once: "ok s \<Longrightarrow> distinct (map fst (fst (tick s)))"
    and other_ok: "ok s \<Longrightarrow> abs s k \<noteq> None \<Longrightarrow> other k s t \<Longrightarrow> ok t \<and> abs t k = abs s k"
begin

lemma countdown:
  assumes "ticks_between (other k) (\<lambda>s. snd (tick s)) n s t" "ok s" "abs s k = Some (r, x)" "n \<le> r"
  shows "ok t \<and> abs t k = Some (r - n, x)"
  using assms
proof (induction rule: ticks_between.induct)
  case (ticked n s t)
  then have "ok t" "abs t k = Some (r - n, x)" by auto
  moreover have "r - n = Suc (r - Suc n)" using ticked.prems(3) by simp
  ultimately show ?case using tick_ok tick_abs by (simp add: ct_tick_def)
next
  case (other n s t u)
  then have "ok t" "abs t k = Some (r - n, x)" by auto
  with other_ok[OF this(1) _ other.hyps(2)] show ?case by simp
qed simp

lemma not_run_early:
  assumes "ticks_between (other k) (\<lambda>s. snd (tick s)) n s t" "ok s" "abs s k = Some (r, x)" "n < r"
  shows "k \<notin> fst ` set (fst (tick t))"
  using countdown[OF assms(1-3)] tick_runs[of t] assms(4) by (auto simp: image_iff)

lemma run_on_time:
  assumes "ticks_between (other k) (\<lambda>s. snd (tick s)) r s t" "ok s" "abs s k = Some (r, x)"
  shows "(k, x) \<in> set (fst (tick t)) \<and> abs (snd (tick t)) k = None"
  using countdown[OF assms] tick_runs[of t] tick_abs[of t] by (simp add: ct_tick_def)

end

section \<open>The wheel implements countdowns\<close>

definition wheel_ok :: "'d time_wheel \<Rightarrow> bool" where
  "wheel_ok tw \<longleftrightarrow>
     currentPos tw < slotNum tw \<and> length (tw_slots tw) = slotNum tw \<and>
     (\<forall>p < slotNum tw. distinct (map key (tw_slots tw ! p)) \<and>
        (\<forall>t \<in> set (tw_slots tw ! p). timer tw (key t) = Some p)) \<and>
     (\<forall>k p. timer tw k = Some p \<longrightarrow> p < slotNum tw \<and> k \<in> key ` set (tw_slots tw ! p))"

definition to_go :: "nat \<Rightarrow> nat \<Rightarrow> nat \<Rightarrow> nat \<Rightarrow> nat" where
  "to_go n cur p c = (p + n - cur) mod n + c * n"

definition wheel_abs :: "'d time_wheel \<Rightarrow> 'd countdowns" where
  "wheel_abs tw k =
     (case timer tw k of
        None \<Rightarrow> None
      | Some p \<Rightarrow>
          map_option (\<lambda>t. (to_go (slotNum tw) (currentPos tw) p (circle t), data t))
            (find (\<lambda>t. key t = k) (tw_slots tw ! p)))"

lemma find_key:
  "distinct (map key ts) \<Longrightarrow> t \<in> set ts \<Longrightarrow> find (\<lambda>t'. key t' = key t) ts = Some t"
  by (induction ts) auto

lemma find_key_None: "find (\<lambda>t. key t = k) ts = None \<longleftrightarrow> k \<notin> key ` set ts"
  by (auto simp: find_None_iff)

lemma wheel_abs_Some:
  assumes "wheel_ok tw"
  shows "wheel_abs tw k = Some (r, x) \<longleftrightarrow>
    (\<exists>p t. p < slotNum tw \<and> t \<in> set (tw_slots tw ! p) \<and> key t = k \<and>
       r = to_go (slotNum tw) (currentPos tw) p (circle t) \<and> x = data t)"
proof
  assume "wheel_abs tw k = Some (r, x)"
  then obtain p t where pt: "timer tw k = Some p" "find (\<lambda>t. key t = k) (tw_slots tw ! p) = Some t"
    "r = to_go (slotNum tw) (currentPos tw) p (circle t)" "x = data t"
    by (auto simp: wheel_abs_def split: option.splits)
  moreover have "p < slotNum tw" using pt(1) assms by (auto simp: wheel_ok_def)
  moreover have "t \<in> set (tw_slots tw ! p)" "key t = k" using pt(2) by (auto simp: find_Some_iff)
  ultimately show "\<exists>p t. p < slotNum tw \<and> t \<in> set (tw_slots tw ! p) \<and> key t = k \<and>
       r = to_go (slotNum tw) (currentPos tw) p (circle t) \<and> x = data t" by blast
next
  assume "\<exists>p t. p < slotNum tw \<and> t \<in> set (tw_slots tw ! p) \<and> key t = k \<and>
       r = to_go (slotNum tw) (currentPos tw) p (circle t) \<and> x = data t"
  then obtain p t where pt: "p < slotNum tw" "t \<in> set (tw_slots tw ! p)" "key t = k"
       "r = to_go (slotNum tw) (currentPos tw) p (circle t)" "x = data t" by blast
  with assms have "timer tw k = Some p" "distinct (map key (tw_slots tw ! p))" by (auto simp: wheel_ok_def)
  with pt find_key[of "tw_slots tw ! p" t] show "wheel_abs tw k = Some (r, x)"
    by (auto simp: wheel_abs_def)
qed

lemma scan_spec:
  "scanAndRunTask l tm = (map (\<lambda>t. t\<lparr>circle := circle t - 1\<rparr>) (filter (\<lambda>t. circle t > 0) l),
     filter (\<lambda>t. circle t = 0) l, (\<lambda>k. if k \<in> key ` {t \<in> set l. circle t = 0} then None else tm k))"
proof (induction l tm rule: scanAndRunTask.induct)
  case (2 t ts tm)
  show ?case
  proof (cases "circle t > 0")
    case True
    then have "{t' \<in> set (t # ts). circle t' = 0} = {t' \<in> set ts. circle t' = 0}" by auto
    with True 2(1) show ?thesis by simp
  next
    case False
    then have "(\<lambda>k. if k \<in> key ` {t' \<in> set ts. circle t' = 0} then None else (tm(key t := None)) k) =
      (\<lambda>k. if k \<in> key ` {t' \<in> set (t # ts). circle t' = 0} then None else tm k)"
      by (auto simp: fun_eq_iff image_iff)
    with False 2(2)[OF False] show ?thesis by (simp only: scanAndRunTask.simps if_False prod.case) simp
  qed
qed simp

lemma to_go_here: "cur < n \<Longrightarrow> to_go n cur cur c = c * n"
  by (simp add: to_go_def)

lemma to_go_0: "cur < n \<Longrightarrow> p < n \<Longrightarrow> to_go n cur p c = 0 \<longleftrightarrow> p = cur \<and> c = 0"
proof -
  assume *: "cur < n" "p < n"
  have "(p + n - cur) mod n = 0 \<longleftrightarrow> p = cur"
  proof (cases "p < cur")
    case True
    then have "(p + n - cur) mod n = p + n - cur" using * by simp
    with True * show ?thesis by auto
  next
    case False
    then have "(p + n - cur) mod n = p - cur" using * by (simp add: mod_if)
    with False show ?thesis by auto
  qed
  then show ?thesis using * by (auto simp: to_go_def)
qed

lemma to_go_next:
  assumes "cur < n" "p < n" "p \<noteq> cur"
  shows "to_go n cur p c = Suc (to_go n (if cur = n - 1 then 0 else cur + 1) p c)"
proof -
  have "(p + n - cur) mod n = Suc ((p + n - (if cur = n - 1 then 0 else cur + 1)) mod n)"
  proof (cases "p < cur")
    case True
    then show ?thesis using assms by (auto simp: mod_if)
  next
    case False
    then have "cur < p" using assms(3) by simp
    then show ?thesis using assms by (auto simp: mod_if)
  qed
  then show ?thesis by (simp add: to_go_def)
qed

lemma to_go_turn:
  assumes "cur < n" "0 < c"
  shows "to_go n cur cur c = Suc (to_go n (if cur = n - 1 then 0 else cur + 1) cur (c - 1))"
  using assms by (cases c) (auto simp: to_go_def mod_if)

definition next_pos :: "'d time_wheel \<Rightarrow> nat" where
  "next_pos tw = (if currentPos tw = slotNum tw - 1 then 0 else currentPos tw + 1)"

lemma tick_fields:
  "currentPos (snd (tickHandler tw)) = next_pos tw"
  "slotNum (snd (tickHandler tw)) = slotNum tw"
  "tw_slots (snd (tickHandler tw)) = (tw_slots tw)[currentPos tw :=
     map (\<lambda>t. t\<lparr>circle := circle t - 1\<rparr>) (filter (\<lambda>t. circle t > 0) (tw_slots tw ! currentPos tw))]"
  "timer (snd (tickHandler tw)) = (\<lambda>k. if k \<in> key ` {t \<in> set (tw_slots tw ! currentPos tw). circle t = 0}
     then None else timer tw k)"
  "fst (tickHandler tw) = filter (\<lambda>t. circle t = 0) (tw_slots tw ! currentPos tw)"
  by (simp_all add: tickHandler_def scan_spec Let_def next_pos_def)

lemma tick_slot:
  assumes "wheel_ok tw" "p < slotNum tw"
  shows "set (tw_slots (snd (tickHandler tw)) ! p) =
    (if p = currentPos tw
     then (\<lambda>t. t\<lparr>circle := circle t - 1\<rparr>) ` {t \<in> set (tw_slots tw ! p). circle t > 0}
     else set (tw_slots tw ! p))"
  using assms by (simp add: tick_fields wheel_ok_def)

lemma wheel_okD:
  assumes "wheel_ok tw"
  shows "currentPos tw < slotNum tw" "length (tw_slots tw) = slotNum tw"
    "p < slotNum tw \<Longrightarrow> distinct (map key (tw_slots tw ! p))"
    "p < slotNum tw \<Longrightarrow> t \<in> set (tw_slots tw ! p) \<Longrightarrow> timer tw (key t) = Some p"
    "timer tw k = Some p \<Longrightarrow> p < slotNum tw"
    "timer tw k = Some p \<Longrightarrow> \<exists>t \<in> set (tw_slots tw ! p). key t = k"
  using assms by (auto simp: wheel_ok_def) (metis imageE)

lemma wheel_okI:
  assumes "currentPos tw < slotNum tw" "length (tw_slots tw) = slotNum tw"
    "\<And>p. p < slotNum tw \<Longrightarrow> distinct (map key (tw_slots tw ! p))"
    "\<And>p t. p < slotNum tw \<Longrightarrow> t \<in> set (tw_slots tw ! p) \<Longrightarrow> timer tw (key t) = Some p"
    "\<And>k p. timer tw k = Some p \<Longrightarrow> p < slotNum tw \<and> (\<exists>t \<in> set (tw_slots tw ! p). key t = k)"
  shows "wheel_ok tw"
  unfolding wheel_ok_def using assms by (metis (no_types, lifting) image_iff)

text \<open>A key names one task of the wheel.\<close>

lemma wheel_task_unique:
  assumes "wheel_ok tw" "p < slotNum tw" "q < slotNum tw" "t \<in> set (tw_slots tw ! p)" "u \<in> set (tw_slots tw ! q)"
    "key t = key u"
  shows "p = q \<and> t = u"
proof -
  have "p = q" using wheel_okD(4)[OF assms(1,2,4)] wheel_okD(4)[OF assms(1,3,5)] assms(6) by simp
  moreover have "inj_on key (set (tw_slots tw ! p))"
    using wheel_okD(3)[OF assms(1,2)] by (simp add: distinct_map)
  ultimately show ?thesis using assms(4-6) by (auto dest: inj_onD)
qed

lemma tick_wheel_ok:
  assumes ok: "wheel_ok tw"
  shows "wheel_ok (snd (tickHandler tw))"
proof (rule wheel_okI, unfold tick_fields(2))
  note D = wheel_okD[OF ok]
  show "currentPos (snd (tickHandler tw)) < slotNum tw"
    using D(1) by (auto simp: tick_fields next_pos_def)
  show "length (tw_slots (snd (tickHandler tw))) = slotNum tw"
    using D(2) by (simp add: tick_fields)
  show "distinct (map key (tw_slots (snd (tickHandler tw)) ! p))" if p: "p < slotNum tw" for p
    using D(1,2) D(3)[OF p] p
    by (cases "p = currentPos tw") (simp_all add: tick_fields comp_def distinct_map_filter)
  show "timer (snd (tickHandler tw)) (key t) = Some p"
    if p: "p < slotNum tw" and t: "t \<in> set (tw_slots (snd (tickHandler tw)) ! p)" for p t
  proof -
    obtain u where u: "u \<in> set (tw_slots tw ! p)" "key u = key t" "p = currentPos tw \<longrightarrow> circle u > 0"
      using t unfolding tick_slot[OF ok p] by (auto split: if_splits)
    have "key t \<notin> key ` {t \<in> set (tw_slots tw ! currentPos tw). circle t = 0}"
      using wheel_task_unique[OF ok p D(1) u(1)] u(2,3) by auto
    with D(4)[OF p u(1)] u(2) show ?thesis by (simp add: tick_fields)
  qed
  show "p < slotNum tw \<and> (\<exists>t \<in> set (tw_slots (snd (tickHandler tw)) ! p). key t = k)"
    if k: "timer (snd (tickHandler tw)) k = Some p" for k p
  proof -
    have tk: "timer tw k = Some p" "k \<notin> key ` {t \<in> set (tw_slots tw ! currentPos tw). circle t = 0}"
      using k by (auto simp: tick_fields split: if_splits)
    obtain t where "t \<in> set (tw_slots tw ! p)" "key t = k" using D(6)[OF tk(1)] by blast
    then show ?thesis using D(5)[OF tk(1)] tk(2) unfolding tick_slot[OF ok D(5)[OF tk(1)]]
      by (auto simp: image_iff split: if_splits)
  qed
qed

lemma tick_wheel_abs:
  assumes ok: "wheel_ok tw"
  shows "wheel_abs (snd (tickHandler tw)) k = Some (r, x) \<longleftrightarrow> wheel_abs tw k = Some (Suc r, x)"
proof -
  let ?n = "slotNum tw" and ?cur = "currentPos tw"
  have cur: "?cur < ?n" using wheel_okD(1)[OF ok] .
  have "(\<exists>u. u \<in> set (tw_slots (snd (tickHandler tw)) ! p) \<and> key u = k \<and> r = to_go ?n (next_pos tw) p (circle u) \<and> x = data u) \<longleftrightarrow>
      (\<exists>t. t \<in> set (tw_slots tw ! p) \<and> key t = k \<and> Suc r = to_go ?n ?cur p (circle t) \<and> x = data t)"
    if p: "p < ?n" for p
  proof (cases "p = ?cur")
    case True
    have c0: "to_go ?n ?cur ?cur 0 = 0" using cur by (simp add: to_go_def)
    have step: "to_go ?n ?cur ?cur c = Suc (to_go ?n (next_pos tw) ?cur (c - 1))" if "0 < c" for c
      using to_go_turn[OF cur that] by (simp add: next_pos_def)
    show ?thesis
    proof
      assume "\<exists>u. u \<in> set (tw_slots (snd (tickHandler tw)) ! p) \<and> key u = k \<and> r = to_go ?n (next_pos tw) p (circle u) \<and> x = data u"
      then obtain t where "t \<in> set (tw_slots tw ! p)" "circle t > 0" "key t = k"
        "r = to_go ?n (next_pos tw) p (circle t - 1)" "x = data t"
        unfolding tick_slot[OF ok p] using True by auto
      then show "\<exists>t. t \<in> set (tw_slots tw ! p) \<and> key t = k \<and> Suc r = to_go ?n ?cur p (circle t) \<and> x = data t"
        using step True by auto
    next
      assume "\<exists>t. t \<in> set (tw_slots tw ! p) \<and> key t = k \<and> Suc r = to_go ?n ?cur p (circle t) \<and> x = data t"
      then obtain t where t: "t \<in> set (tw_slots tw ! p)" "key t = k" "Suc r = to_go ?n ?cur p (circle t)" "x = data t"
        by blast
      then have "circle t > 0" using c0 True by (cases "circle t") auto
      with t step[OF this] True
      show "\<exists>u. u \<in> set (tw_slots (snd (tickHandler tw)) ! p) \<and> key u = k \<and> r = to_go ?n (next_pos tw) p (circle u) \<and> x = data u"
        unfolding tick_slot[OF ok p] by (intro exI[of _ "t\<lparr>circle := circle t - 1\<rparr>"]) auto
    qed
  next
    case False
    then show ?thesis unfolding tick_slot[OF ok p] using to_go_next[OF cur p] by (simp add: next_pos_def)
  qed
  then show ?thesis
    unfolding wheel_abs_Some[OF ok] wheel_abs_Some[OF tick_wheel_ok[OF ok]] tick_fields(1,2) by blast
qed

lemma ct_tick_eqI:
  assumes "\<And>k r x. m' k = Some (r, x) \<longleftrightarrow> m k = Some (Suc r, x)"
  shows "m' = ct_tick m"
proof
  fix k
  show "m' k = ct_tick m k"
  proof (cases "m' k")
    case None
    then have "m k \<noteq> Some (Suc r, x)" for r x using assms[of k r x] by simp
    then show ?thesis using None by (auto simp: ct_tick_def split: option.splits nat.splits)
  next
    case (Some y)
    then show ?thesis using assms[of k "fst y" "snd y"] by (simp add: ct_tick_def)
  qed
qed

definition started :: "'d task list \<Rightarrow> (tkey \<times> 'd) list" where
  "started = map (\<lambda>t. (key t, data t))"

lemma tick_wheel_runs:
  assumes ok: "wheel_ok tw"
  shows "set (started (fst (tickHandler tw))) = {(k, x). wheel_abs tw k = Some (0, x)}"
proof -
  note cur = wheel_okD(1)[OF ok]
  have "0 = to_go (slotNum tw) (currentPos tw) p c \<longleftrightarrow> p = currentPos tw \<and> c = 0" if "p < slotNum tw" for p c
    using to_go_0[OF cur that] by metis
  then have "wheel_abs tw k = Some (0, x) \<longleftrightarrow> (\<exists>t \<in> set (tw_slots tw ! currentPos tw). circle t = 0 \<and> key t = k \<and> data t = x)" for k x
    unfolding wheel_abs_Some[OF ok] using cur by blast
  then show ?thesis by (auto simp: started_def tick_fields)
qed

lemma tick_wheel_once: "wheel_ok tw \<Longrightarrow> distinct (map fst (started (fst (tickHandler tw))))"
  using wheel_okD(3)[OF _ wheel_okD(1), of tw] distinct_map_filter
  by (fastforce simp: started_def tick_fields comp_def)

subsection \<open>Adding and removing timers\<close>

lemma remove_first_filter: "distinct (map key l) \<Longrightarrow> remove_first k l = filter (\<lambda>t. key t \<noteq> k) l"
proof (induction l)
  case (Cons t l)
  then show ?case by (auto simp: filter_id_conv image_iff intro!: sym[OF filter_True])
qed simp

lemma countdown_eqI: "(\<And>r x. a = Some (r, x) \<longleftrightarrow> b = Some (r, x)) \<Longrightarrow> a = b"
  by (metis not_None_eq surj_pair)

lemma remove_slots:
  assumes ok: "wheel_ok tw" and k: "timer tw k = Some pos"
  shows "removeTask k tw = tw\<lparr>tw_slots := (tw_slots tw)[pos := filter (\<lambda>t. key t \<noteq> k) (tw_slots tw ! pos)],
    timer := (timer tw)(k := None)\<rparr>"
  using wheel_okD(6)[OF ok k] k remove_first_filter[OF wheel_okD(3)[OF ok wheel_okD(5)[OF ok k]]]
  by (auto simp: removeTask_def)

lemma remove_slot:
  assumes "wheel_ok tw" "p < slotNum tw"
  shows "set (tw_slots (removeTask k tw) ! p) = {t \<in> set (tw_slots tw ! p). key t \<noteq> k}"
proof (cases "timer tw k")
  case None
  with wheel_okD(4)[OF assms] show ?thesis by (auto simp: removeTask_def)
next
  case (Some pos)
  with wheel_okD(4)[OF assms] wheel_okD(2)[OF assms(1)] assms(2) show ?thesis
    by (cases "p = pos") (auto simp: remove_slots[OF assms(1) Some])
qed

lemma remove_fields:
  "slotNum (removeTask k tw) = slotNum tw" "currentPos (removeTask k tw) = currentPos tw"
  "length (tw_slots (removeTask k tw)) = length (tw_slots tw)"
  by (auto simp: removeTask_def split: option.splits)

lemma remove_timer: "wheel_ok tw \<Longrightarrow> timer (removeTask k tw) = (timer tw)(k := None)"
  by (cases "timer tw k") (auto simp: remove_slots, auto simp: removeTask_def)

lemma remove_wheel_ok:
  assumes ok: "wheel_ok tw"
  shows "wheel_ok (removeTask k tw)"
proof (rule wheel_okI, unfold remove_fields remove_timer[OF ok])
  note D = wheel_okD[OF ok]
  show "currentPos tw < slotNum tw" "length (tw_slots tw) = slotNum tw" using D(1,2) .
  show "distinct (map key (tw_slots (removeTask k tw) ! p))" if p: "p < slotNum tw" for p
  proof (cases "timer tw k")
    case None
    with D(3)[OF p] show ?thesis by (simp add: removeTask_def)
  next
    case (Some pos)
    with D(2) D(3)[OF p] p show ?thesis
      by (cases "p = pos") (simp_all add: remove_slots[OF ok Some] distinct_map_filter)
  qed
  show "((timer tw)(k := None)) (key t) = Some p"
    if p: "p < slotNum tw" and t: "t \<in> set (tw_slots (removeTask k tw) ! p)" for p t
    using t D(4)[OF p] unfolding remove_slot[OF ok p] by auto
  show "p < slotNum tw \<and> (\<exists>t\<in>set (tw_slots (removeTask k tw) ! p). key t = k')"
    if k': "((timer tw)(k := None)) k' = Some p" for k' p
  proof -
    have "timer tw k' = Some p" "k' \<noteq> k" using k' by (auto split: if_splits)
    then show ?thesis using D(5)[of k' p] D(6)[of k' p] remove_slot[OF ok, of p k] by auto
  qed
qed

lemma remove_wheel_abs:
  assumes ok: "wheel_ok tw"
  shows "wheel_abs (removeTask k tw) = (wheel_abs tw)(k := None)"
proof
  fix k'
  show "wheel_abs (removeTask k tw) k' = ((wheel_abs tw)(k := None)) k'"
  proof (cases "k' = k")
    case True
    then show ?thesis by (simp add: wheel_abs_def remove_timer[OF ok])
  next
    case False
    have "wheel_abs (removeTask k tw) k' = Some (r, x) \<longleftrightarrow> wheel_abs tw k' = Some (r, x)" for r x
      unfolding wheel_abs_Some[OF ok] wheel_abs_Some[OF remove_wheel_ok[OF ok]] remove_fields
      using remove_slot[OF ok] False by blast
    then have "wheel_abs (removeTask k tw) k' = wheel_abs tw k'" by (rule countdown_eqI)
    with False show ?thesis by simp
  qed
qed

lemma to_go_new:
  assumes "cur < n"
  shows "to_go n cur ((cur + j) mod n) (j div n) = j"
proof -
  have "((cur + j) mod n + n - cur) mod n = j mod n"
  proof -
    have "((cur + j) mod n + n - cur) mod n = ((cur + j) mod n + (n - cur)) mod n" using assms by simp
    also have "\<dots> = (cur + j + (n - cur)) mod n" by (rule mod_add_left_eq)
    also have "\<dots> = j mod n" using assms by simp
    finally show ?thesis .
  qed
  then show ?thesis by (simp add: to_go_def)
qed

text \<open>The number of whole intervals in a delay; both are rounded down to milliseconds first.\<close>

definition intervals :: "int \<Rightarrow> 'd time_wheel \<Rightarrow> nat" where
  "intervals d tw = nat (d div 1000000 div (tw_interval tw div 1000000))"

lemma next_key_fields:
  "tw_interval (snd (next_key k tw)) = tw_interval tw" "tw_slots (snd (next_key k tw)) = tw_slots tw"
  "timer (snd (next_key k tw)) = timer tw" "currentPos (snd (next_key k tw)) = currentPos tw"
  "slotNum (snd (next_key k tw)) = slotNum tw"
  by (simp_all add: next_key_def Let_def split: option.splits)

lemma add_task_ret:
  assumes "tw_interval tw div 1000000 \<noteq> 0"
  shows "addTask d k x tw =
    (let pos = (currentPos tw + intervals d tw) mod slotNum tw
     in Ret ((snd (next_key k tw))\<lparr>tw_slots := (tw_slots tw)[pos := tw_slots tw ! pos @
          [\<lparr>delay = d, circle = intervals d tw div slotNum tw, key = fst (next_key k tw), data = x\<rparr>]],
        timer := (timer tw)(fst (next_key k tw) \<mapsto> pos)\<rparr>))"
  using assms next_key_fields[of k tw]
  by (cases "next_key k tw") (simp add: addTask_def getPositionAndCircle_def intervals_def Let_def)

lemma add_fields:
  assumes "tw_interval tw div 1000000 \<noteq> 0" "addTask d k x tw = Ret tw'"
  shows "slotNum tw' = slotNum tw" "currentPos tw' = currentPos tw" "tw_interval tw' = tw_interval tw"
    "tw_slots tw' = (tw_slots tw)[(currentPos tw + intervals d tw) mod slotNum tw :=
       tw_slots tw ! ((currentPos tw + intervals d tw) mod slotNum tw) @
          [\<lparr>delay = d, circle = intervals d tw div slotNum tw, key = fst (next_key k tw), data = x\<rparr>]]"
    "timer tw' = (timer tw)(fst (next_key k tw) \<mapsto> (currentPos tw + intervals d tw) mod slotNum tw)"
  using assms(2) next_key_fields[of k tw] unfolding add_task_ret[OF assms(1)] by (auto simp: Let_def)

lemma add_slot:
  assumes "wheel_ok tw" "tw_interval tw div 1000000 \<noteq> 0" "addTask d k x tw = Ret tw'" "p < slotNum tw"
  shows "tw_slots tw' ! p = tw_slots tw ! p @
     (if p = (currentPos tw + intervals d tw) mod slotNum tw
      then [\<lparr>delay = d, circle = intervals d tw div slotNum tw, key = fst (next_key k tw), data = x\<rparr>] else [])"
  using add_fields(4)[OF assms(2,3)] wheel_okD(2)[OF assms(1)] assms(4) by simp

lemma add_wheel_ok:
  assumes ok: "wheel_ok tw" and iv: "tw_interval tw div 1000000 \<noteq> 0" and add: "addTask d k x tw = Ret tw'"
    and fresh: "timer tw (fst (next_key k tw)) = None"
  shows "wheel_ok tw'"
proof (rule wheel_okI, unfold add_fields(1,2,5)[OF iv add])
  note D = wheel_okD[OF ok]
  let ?k = "fst (next_key k tw)"
  have absent: "key t \<noteq> ?k" if "p < slotNum tw" "t \<in> set (tw_slots tw ! p)" for p t
    using D(4)[OF that] fresh by auto
  show "currentPos tw < slotNum tw" using D(1) .
  show "length (tw_slots tw') = slotNum tw" using D(2) by (simp add: add_fields(4)[OF iv add])
  show "distinct (map key (tw_slots tw' ! p))" if p: "p < slotNum tw" for p
    using D(3)[OF p] absent[OF p] by (fastforce simp: add_slot[OF ok iv add p])
  show "((timer tw)(?k \<mapsto> (currentPos tw + intervals d tw) mod slotNum tw)) (key t) = Some p"
    if p: "p < slotNum tw" and t: "t \<in> set (tw_slots tw' ! p)" for p t
    using t D(4)[OF p, of t] absent[OF p, of t] unfolding add_slot[OF ok iv add p] by (auto split: if_splits)
  show "p < slotNum tw \<and> (\<exists>t\<in>set (tw_slots tw' ! p). key t = k')"
    if k': "((timer tw)(?k \<mapsto> (currentPos tw + intervals d tw) mod slotNum tw)) k' = Some p" for k' p
  proof (cases "k' = ?k")
    case True
    then have "p = (currentPos tw + intervals d tw) mod slotNum tw" using k' by simp
    moreover have "p < slotNum tw" using calculation D(1) by simp
    ultimately show ?thesis using True add_slot[OF ok iv add, of p] by auto
  next
    case False
    with k' have "timer tw k' = Some p" by simp
    with D(5,6)[OF this] add_slot[OF ok iv add, of p] show ?thesis by auto
  qed
qed

lemma add_wheel_abs:
  assumes ok: "wheel_ok tw" and iv: "tw_interval tw div 1000000 \<noteq> 0" and add: "addTask d k x tw = Ret tw'"
    and fresh: "timer tw (fst (next_key k tw)) = None"
  shows "wheel_abs tw' = (wheel_abs tw)(fst (next_key k tw) \<mapsto> (intervals d tw, x))"
proof
  fix k'
  let ?k = "fst (next_key k tw)" and ?pos = "(currentPos tw + intervals d tw) mod slotNum tw"
  note ok' = add_wheel_ok[OF assms] and cur = wheel_okD(1)[OF ok]
  have pos: "?pos < slotNum tw" using cur by simp
  show "wheel_abs tw' k' = ((wheel_abs tw)(?k \<mapsto> (intervals d tw, x))) k'"
  proof (cases "k' = ?k")
    case True
    have "\<lparr>delay = d, circle = intervals d tw div slotNum tw, key = ?k, data = x\<rparr> \<in> set (tw_slots tw' ! ?pos)"
      using add_slot[OF ok iv add pos] by simp
    then have "wheel_abs tw' k' = Some (intervals d tw, x)"
      unfolding wheel_abs_Some[OF ok'] add_fields(1,2)[OF iv add]
      using pos to_go_new[OF cur] True
      by (intro exI[of _ ?pos] exI[of _ "\<lparr>delay = d, circle = intervals d tw div slotNum tw, key = ?k, data = x\<rparr>"]) simp
    with True show ?thesis by simp
  next
    case False
    then have "t \<in> set (tw_slots tw' ! p) \<and> key t = k' \<longleftrightarrow> t \<in> set (tw_slots tw ! p) \<and> key t = k'" if "p < slotNum tw" for p t
      unfolding add_slot[OF ok iv add that] by auto
    then have "wheel_abs tw' k' = Some (r, y) \<longleftrightarrow> wheel_abs tw k' = Some (r, y)" for r y
      unfolding wheel_abs_Some[OF ok] wheel_abs_Some[OF ok'] add_fields(1,2)[OF iv add] by blast
    then have "wheel_abs tw' k' = wheel_abs tw k'" by (rule countdown_eqI)
    with False show ?thesis by simp
  qed
qed

section \<open>Timers fire on time\<close>

text \<open>The operations of the other timers: removals of other keys, additions under unused keys.\<close>

definition wheel_other :: "tkey \<Rightarrow> 'd time_wheel \<Rightarrow> 'd time_wheel \<Rightarrow> bool" where
  "wheel_other k tw tw' \<longleftrightarrow>
     (\<exists>k'. k' \<noteq> k \<and> tw' = removeTask k' tw) \<or>
     (\<exists>d k' x. AddTimerCustom d k' x tw = Ret tw' \<and> timer tw (fst (next_key k' tw)) = None)"

inductive wheel_reachable :: "'d time_wheel \<Rightarrow> bool" where
  new: "NewTimeWheel interval n = Some tw \<Longrightarrow> wheel_reachable tw"
| tick: "wheel_reachable tw \<Longrightarrow> wheel_reachable (snd (tickHandler tw))"
| remove: "wheel_reachable tw \<Longrightarrow> wheel_reachable (removeTask k tw)"
| add: "wheel_reachable tw \<Longrightarrow> timer tw (fst (next_key k tw)) = None \<Longrightarrow> AddTimerCustom d k x tw = Ret tw' \<Longrightarrow>
    wheel_reachable tw'"

lemma add_needs_interval: "addTask d k x tw = Ret tw' \<Longrightarrow> tw_interval tw div 1000000 \<noteq> 0"
  using next_key_fields[of k tw]
  by (cases "next_key k tw") (auto simp: addTask_def getPositionAndCircle_def Let_def)

lemma new_wheel_ok: "NewTimeWheel interval n = Some tw \<Longrightarrow> wheel_ok tw"
  by (auto simp: NewTimeWheel_def wheel_ok_def split: if_splits)

lemma custom_wheel_ok:
  "wheel_ok tw \<Longrightarrow> timer tw (fst (next_key k tw)) = None \<Longrightarrow> AddTimerCustom d k x tw = Ret tw' \<Longrightarrow> wheel_ok tw'"
  using add_wheel_ok[OF _ add_needs_interval] by (auto simp: AddTimerCustom_def split: if_splits)

lemma wheel_reachable_ok: "wheel_reachable tw \<Longrightarrow> wheel_ok tw"
  by (induction rule: wheel_reachable.induct)
    (auto intro: new_wheel_ok tick_wheel_ok remove_wheel_ok custom_wheel_ok)

lemma other_wheel:
  assumes ok: "wheel_ok tw" and live: "wheel_abs tw k \<noteq> None" and other: "wheel_other k tw tw'"
  shows "wheel_ok tw' \<and> wheel_abs tw' k = wheel_abs tw k"
proof -
  consider k' where "k' \<noteq> k" "tw' = removeTask k' tw"
    | d k' x where "AddTimerCustom d k' x tw = Ret tw'" "timer tw (fst (next_key k' tw)) = None"
    using other unfolding wheel_other_def by blast
  then show ?thesis
  proof cases
    case 1
    then show ?thesis using remove_wheel_ok[OF ok] remove_wheel_abs[OF ok] by simp
  next
    case 2
    have "k \<noteq> fst (next_key k' tw)" using live 2(2) by (auto simp: wheel_abs_def)
    then show ?thesis
      using 2 custom_wheel_ok[OF ok 2(2,1)] add_wheel_abs[OF ok add_needs_interval, of d k' x tw'] ok
      by (auto simp: AddTimerCustom_def split: if_splits)
  qed
qed

definition wheel_tick :: "'d time_wheel \<Rightarrow> (tkey \<times> 'd) list \<times> 'd time_wheel" where
  "wheel_tick tw = (case tickHandler tw of (run, tw') \<Rightarrow> (started run, tw'))"

lemma wheel_tick_simps [simp]:
  "fst (wheel_tick tw) = started (fst (tickHandler tw))" "snd (wheel_tick tw) = snd (tickHandler tw)"
  by (simp_all add: wheel_tick_def split_beta)

lemma tick_wheel_ct: "wheel_ok tw \<Longrightarrow> wheel_abs (snd (tickHandler tw)) = ct_tick (wheel_abs tw)"
  by (rule ct_tick_eqI) (rule tick_wheel_abs)

interpretation wheel: countdown_timers wheel_ok wheel_abs wheel_tick wheel_other
  by (unfold_locales; (rule other_wheel; assumption)?)
    (simp_all add: tick_wheel_ok tick_wheel_ct tick_wheel_runs tick_wheel_once)

lemma custom_wheel_abs:
  assumes "wheel_ok tw" "timer tw (fst (next_key k tw)) = None" "0 < d" "AddTimerCustom d k x tw = Ret tw'"
  shows "wheel_abs tw' (fst (next_key k tw)) = Some (intervals d tw, x)"
  using assms add_wheel_abs[OF assms(1) add_needs_interval _ assms(2)]
  by (simp add: AddTimerCustom_def)

lemma wheel_abs_None: "wheel_ok tw \<Longrightarrow> wheel_abs tw k = None \<longleftrightarrow> timer tw k = None"
  using wheel_okD(6)[of tw k] by (cases "timer tw k") (auto simp: wheel_abs_def find_key_None)

lemma started_key: "k \<in> fst ` set (started ts) \<longleftrightarrow> k \<in> key ` set ts"
  by (auto simp: started_def image_iff)

lemma ticks_funpow: "ticks_between other tick n s ((tick ^^ n) s)"
  by (induction n) (auto intro: ticks_between.intros)

text \<open>C21: timers fire on time, once. On a wheel in any reachable state, a timer added with a positive
  delay under an unused key runs at the tick that follows as many ticks as its delay has whole
  intervals (milliseconds), whatever is added or removed under other keys meanwhile: it is not
  among the tasks of any earlier tick, that tick starts it with its data and starts no key twice,
  and the key is then free again.
\<close>

theorem timer_fires_on_time:
  assumes "wheel_reachable tw" "timer tw (fst (next_key k tw)) = None" "0 < d" "AddTimerCustom d k x tw = Ret tw0"
    and "ticks_between (wheel_other (fst (next_key k tw))) (\<lambda>tw. snd (tickHandler tw)) n tw0 tw'"
  shows "(n < intervals d tw \<longrightarrow> fst (next_key k tw) \<notin> key ` set (fst (tickHandler tw'))) \<and>
    (n = intervals d tw \<longrightarrow>
      (\<exists>t \<in> set (fst (tickHandler tw')). key t = fst (next_key k tw) \<and> data t = x) \<and>
      distinct (map key (fst (tickHandler tw'))) \<and>
      timer (snd (tickHandler tw')) (fst (next_key k tw)) = None)"
proof (intro conjI impI)
  let ?k = "fst (next_key k tw)"
  note ok = wheel_reachable_ok[OF assms(1)]
  note ok0 = custom_wheel_ok[OF ok assms(2,4)] and start = custom_wheel_abs[OF ok assms(2-4)]
  have run: "ticks_between (wheel_other ?k) (\<lambda>tw. snd (wheel_tick tw)) n tw0 tw'" using assms(5) by simp
  show "?k \<notin> key ` set (fst (tickHandler tw'))" if "n < intervals d tw"
    using wheel.not_run_early[OF run ok0 start that] by (simp add: started_key)
  assume n: "n = intervals d tw"
  have ok': "wheel_ok tw'" using wheel.countdown[OF run ok0 start] n by simp
  have fired: "(?k, x) \<in> set (started (fst (tickHandler tw')))" "wheel_abs (snd (tickHandler tw')) ?k = None"
    using wheel.run_on_time[OF run[unfolded n] ok0 start] by simp_all
  show "timer (snd (tickHandler tw')) ?k = None"
    using fired(2) wheel_abs_None[OF tick_wheel_ok[OF ok']] by simp
  show "\<exists>t \<in> set (fst (tickHandler tw')). key t = ?k \<and> data t = x"
    using fired(1) by (auto simp: started_def)
  show "distinct (map key (fst (tickHandler tw')))"
    using tick_wheel_once[OF ok'] by (simp add: started_def comp_def)
qed

definition demo_wheel :: "string time_wheel" where
  "demo_wheel = \<lparr>tw_interval = 1000000000, accumulator = 0, tw_slots = [[], [], []], timer = Map.empty,
     currentPos = 0, slotNum = 3\<rparr>"

definition demo_wheel_added :: "string time_wheel" where
  "demo_wheel_added = demo_wheel\<lparr>accumulator := 1,
     tw_slots := [[], [\<lparr>delay = 4500000000, circle = 1, key = Auto 1, data = ''job''\<rparr>], []],
     timer := [Auto 1 \<mapsto> 1]\<rparr>"

lemma timer_fires_on_time_witness:
  "(\<exists>t \<in> set (fst (tickHandler (((\<lambda>tw. snd (tickHandler tw)) ^^ 4) demo_wheel_added))). key t = Auto 1 \<and> data t = ''job'')"
proof -
  have new: "NewTimeWheel 1000000000 3 = Some demo_wheel"
    by (simp add: NewTimeWheel_def demo_wheel_def numeral_3_eq_3)
  have add: "AddTimerCustom 4500000000 None ''job'' demo_wheel = Ret demo_wheel_added"
    by (simp add: AddTimerCustom_def addTask_def next_key_def MaxInt64_def getPositionAndCircle_def
        demo_wheel_def demo_wheel_added_def Let_def)
  have "fst (next_key None demo_wheel) = Auto 1" "intervals 4500000000 demo_wheel = 4" "timer demo_wheel (Auto 1) = None"
    by (simp_all add: next_key_def MaxInt64_def demo_wheel_def intervals_def)
  then show ?thesis
    using timer_fires_on_time[OF wheel_reachable.new[OF new] _ _ add ticks_funpow[of _ _ 4]] by simp
qed

end
