(* ===== verification/Spec2Isabelle.thy ===== *)
theory Spec2Isabelle
  imports Ring_Queue Agent_Life Gate_Module Utils_Codec App_Start Rpc_Invoke Uri_Route Http_Gateway Consul_Watcher Etcd_Registry Tcp_Server Nats_Server Rpc_Reply App_Routing Module_Manager Timing_Wheel
begin

text \<open>
  A model of mqant, a server framework for games in Go, and the theorems that make its parts
  correct. A process runs modules; modules call each other's functions over NATS; a gate module
  lets clients in over MQTT and turns what they publish into such calls; a registry, a caching
  selector and the table of server sessions decide which process a call goes to.

  \<^bold>\<open>How the program is put together, and where it is modelled.\<close> All paths are under
  \<^verbatim>\<open>src/\<close>. Each theory has the state of its component as a record, one definition per
  function of the source under the source's name (with a prefix where two types have a method of
  the same name), and the component's lemmas.

  \<^item> \<open>Mqant_Prelude\<close> Go values: bytes, strings, errors, \<open>outcome\<close> (a call returns, panics, or
    never returns); the interface \<open>invariant_system\<close> of transition systems with \<open>reach\<close>; shared lemmas
    and the collections \<open>inv_rules\<close>, \<open>stream_simps\<close>, \<open>read_simps\<close>.
  \<^item> \<open>Ring_Queue\<close> \<^verbatim>\<open>utils/queue.go\<close>: a growing and shrinking ring buffer; through the interface
    \<open>fifo_queue\<close> it refines a list.
  \<^item> \<open>Go_IO\<close> The buffered reader and writer, and \<^verbatim>\<open>network/tcp_conn.go\<close> under them: a
    connection that accepts bytes until it fails. \<open>Hang\<close> is a write loop that never ends.
  \<^item> \<open>Mqtt_Pack\<close>, \<open>Mqtt_Read\<close>, \<open>Mqtt_Write\<close> \<^verbatim>\<open>gate/base/mqtt/mqtt.go\<close>: the packets, \<open>ReadPack\<close>
    and \<open>WritePack\<close>. \<open>packet_source\<close> is the interface to the reading loop.
  \<^item> \<open>Mqtt_Codec\<close>, \<open>Mqtt_Requests\<close> The writer against the reader (interface \<open>field_codec\<close>,
    interpreted for integers, strings and whole packets) and the requests of clients against the
    reader: what is written is read back, what the MQTT specification encodes is decoded; the range
    of lengths for which this is so.
  \<^item> \<open>Pack_Queue\<close> \<^verbatim>\<open>gate/base/mqtt/pack_queue.go\<close>: writers, flusher, reader and closers of a
    connection as interleaved steps; the stream holds whole packets in order, closing is final, the
    reading loop ends.
  \<^item> \<open>Mqtt_Client\<close> \<^verbatim>\<open>gate/base/mqtt/mqtt_client_server.go\<close>: what the gate answers to each packet.
  \<^item> \<open>Session\<close>, \<open>Gate_Handler\<close> \<^verbatim>\<open>gate/base/session.go\<close>, \<^verbatim>\<open>gate/base/gate_handler.go\<close>: a session is
    a copy that a module holds, the gate has the original; every request through the gate refines
    one abstract request on both, and none panics in a reachable gate.
  \<^item> \<open>Mqtt_Agent\<close> \<^verbatim>\<open>gate/base/mqtt_agent.go\<close>: the handshake, the bounded pool of workers, the
    router from topics to module functions, sessions as arguments.
  \<^item> \<open>Agent_Life\<close> The agents of a gate over time: handshake, time limit, listening, closing, remote requests
    and the stop of the gate, interleaved; the table of the gate follows the connections.
  \<^item> \<open>Tcp_Server\<close>, \<open>Ws_Server\<close>, \<open>Ip_Tool\<close> \<^verbatim>\<open>network/tcp_server.go\<close>, \<^verbatim>\<open>network/ws_server_x.go\<close>,
    \<^verbatim>\<open>network/ws_conn_x.go\<close>, \<^verbatim>\<open>utils/ip/iptool.go\<close>: the listeners, the goroutines of their connections and their
    closing as interleaved steps (each connection is run, closed and reported once), and the address of
    a client behind proxies.
  \<^item> \<open>Gate_Module\<close> \<^verbatim>\<open>gate/base/mqtt_gate.go\<close>, \<^verbatim>\<open>gate/options.go\<close>: options and settings of the gate, its remote
    functions, the order in which it starts and stops.
  \<^item> \<open>Uri_Route\<close> \<^verbatim>\<open>gate/uriroute/uri_route.go\<close>: topics that are URIs, as the route handler of an agent.
  \<^item> \<open>Registry\<close> \<^verbatim>\<open>registry/service.go\<close>, \<^verbatim>\<open>registry/latest.go\<close>, \<^verbatim>\<open>registry/mock/\<close>: services and
    their nodes, the newest instance of each logical server, and the registry in memory as a map
    (interface \<open>service_store\<close>).
  \<^item> \<open>Selector\<close>, \<open>Cache_Selector\<close> \<^verbatim>\<open>selector/\<close>, \<^verbatim>\<open>selector/cache/cache.go\<close>: filters and strategies
    (interface \<open>node_picker\<close>), and the cache that follows the registry's events, which is a second
    \<open>service_store\<close>.
  \<^item> \<open>Go_Strings\<close>, \<open>Registry_Encoding\<close> \<^verbatim>\<open>registry/encoding.go\<close> and the decimal and hexadecimal texts it and
    others rest on: the tags that carry a service through Consul, and their round trip.
  \<^item> \<open>Consul_Registry\<close>, \<open>Consul_Watcher\<close> \<^verbatim>\<open>registry/consul_registry.go\<close>, \<^verbatim>\<open>registry/consul_watcher.go\<close>: what is
    registered is found; the events of the watcher, replayed, give the snapshot.
  \<^item> \<open>Etcd_Registry\<close> \<^verbatim>\<open>registry/etcdv3/\<close>: keys, leases, lookups and events of the registry on etcd.
  \<^item> \<open>Service_Life\<close> \<^verbatim>\<open>server/\<close>, \<^verbatim>\<open>service/\<close>, \<^verbatim>\<open>module/base/base_module.go\<close>, \<^verbatim>\<open>utils/lib/addr/addr.go\<close>: a
    module's service from creation to deregistration, with its registration loop, over the interface
    \<open>service_registry\<close>, which the registries in memory, on Consul and on etcd provide.
  \<^item> \<open>App_Routing\<close> \<^verbatim>\<open>app/app.go\<close>, \<^verbatim>\<open>module/base/server_session.go\<close>: lookups of server sessions
    and the watcher, interleaved at their critical sections.
  \<^item> \<open>Rpc_Args\<close> \<^verbatim>\<open>rpc/util/argsutil.go\<close>, \<^verbatim>\<open>utils/params_bytes.go\<close>: the tags and encodings of
    arguments, integers and floats at their width.
  \<^item> \<open>Nats_Client\<close> \<^verbatim>\<open>rpc/base/nats_client.go\<close>, \<^verbatim>\<open>rpc/base/rpc_client.go\<close>, \<^verbatim>\<open>utils/safemap.go\<close>: the
    caller's end; callers, the receiving goroutine and \<open>Done\<close> as interleaved steps over channels.
  \<^item> \<open>Rpc_Server\<close> \<^verbatim>\<open>rpc/base/rpc_server.go\<close> with the messages of \<^verbatim>\<open>rpc/base/nats_server.go\<close>: the
    called end; finding, decoding, running and answering, panics included.
  \<^item> \<open>Nats_Server\<close> \<^verbatim>\<open>rpc/base/nats_server.go\<close>, \<^verbatim>\<open>rpc/base/nats_subscription.go\<close>: the receiving loop
    with its renewals and the shutdown, interleaved.
  \<^item> \<open>Rpc_Reply\<close> \<^verbatim>\<open>rpc/reply.go\<close>: conversions of a result at the width of the caller's types.
  \<^item> \<open>Rpc_Invoke\<close> Calls through the application (\<open>Invoke\<close> and its variants); a one-way call runs the function.
  \<^item> \<open>Gate_To_Module\<close> The gate, the encoding and the RPC server together: a message a client publishes
    runs the function of a module on the client's session, and its result comes back to the client.
  \<^item> \<open>Http_Gateway\<close> \<^verbatim>\<open>httpgateway/\<close>: an HTTP request as a call, and the answer or error as a response; its
    default route is a second \<open>node_picker\<close>.
  \<^item> \<open>Module_Manager\<close> \<^verbatim>\<open>module/base/module_manager.go\<close>, \<^verbatim>\<open>module/base/module_agent.go\<close>: the check
    of the settings, start and stop of the modules as a trace of hooks.
  \<^item> \<open>App_Start\<close> \<^verbatim>\<open>app/app.go\<close>, \<^verbatim>\<open>conf/\<close>: options, flags and configuration, and \<open>Run\<close> from the
    configuration file to the stopped modules.
  \<^item> \<open>Utils_Codec\<close> \<^verbatim>\<open>utils/base62.go\<close>, \<^verbatim>\<open>utils/id.go\<close>, \<^verbatim>\<open>utils/aes/aes_encrypt.go\<close>: round trips of base 62,
    identifiers and encrypted strings, and the counter behind the identifiers.
  \<^item> \<open>Timing_Wheel\<close> \<^verbatim>\<open>module/modules/timer/timingwheel.go\<close>: the wheel implements countdowns
    (interface \<open>countdown_timers\<close>).

  \<^bold>\<open>How behaviour is modelled.\<close> Sequential code is a function from state to result and state;
  an error is a value, a panic is \<open>Panic\<close>, and code that recovers from panics does so in the model.
  Where goroutines share state, each critical section (the code between lock and unlock, or between
  two channel operations) is one step of an \<open>inductive\<close> relation, and properties are invariants of
  every reachable state of every interleaving; they are obtained from \<open>invariant_system\<close>. A Go map
  that is iterated is a list in an arbitrary order. Interfaces between components are locales and
  are interpreted on the definitions of the model only.

  \<^bold>\<open>Bounds and fuel.\<close> Lengths, counters and message ids are kept at their width where the code can
  wrap: sixteen-bit message ids, the four bytes of the remaining length, the wrapping counter of
  round robin, thirty-two and sixty-four bit arguments. All functions are total; a loop of
  the source that may not end, the retry of a buffered write, is decided by the state it starts in
  and gives \<open>Hang\<close>; there is no fuel. Time is an integer argument.

  \<^bold>\<open>What is a parameter.\<close> JSON, protobuf, zlib, NATS, the clients of Consul and etcd, connections and listeners, block
  ciphers, the user's modules, functions, storage and serializers, and sources of fresh identifiers are arguments of the definitions that
  use them. What a theorem needs of them is a hypothesis of that theorem (JSON gives maps back,
  correlation ids differ, a node keeps its logical id), and its witness instantiates them.

  \<^bold>\<open>What is not modelled.\<close> Logging (\<^verbatim>\<open>log/\<close>, which forwards to the zap library), generated protobuf code
  (its messages are records where the code uses their fields), the vendored reflection library under
  \<^verbatim>\<open>utils/fatih\<close>, examples, interface declarations and option setters (a setter writes one field, an option
  is a function on the record), random numbers and identifiers
  (\<^verbatim>\<open>utils/uuid\<close>, \<^verbatim>\<open>utils/randInt.go\<close>; they are sources of fresh values), the configuration of the client of etcd, and
  what only forwards to another component. Left out on purpose are also locks as such (a critical section is a step), real
  time (ticks and deadlines are steps), and the order in which the runtime schedules goroutines
  (every order is allowed).
\<close>

end
